(* ===== verification/Prelude.thy ===== *)
theory Prelude
  imports Main "HOL-Library.Word" "HOL-Library.AList"
begin

text \<open>
  What every component of the model shares: bytes and Go strings, error values, the outcome
  of a Go call (a value, an error, a panic, or waiting for another goroutine), sequencing of
  calls over a state, and Go maps as association lists with distinct keys.
\<close>

section \<open>Bytes and strings\<close>

type_synonym u8 = "8 word"
type_synonym u16 = "16 word"
type_synonym bytes = "8 word list"

text \<open>A Go string is a sequence of bytes, as Isabelle's \<open>string\<close> is; conversions are bytewise.\<close>

definition byte_of_char :: "char \<Rightarrow> u8" where
  "byte_of_char c = of_nat (of_char c)"

definition char_of_byte :: "u8 \<Rightarrow> char" where
  "char_of_byte b = char_of (unat b)"

definition bytes_of_string :: "string \<Rightarrow> bytes" where
  "bytes_of_string s = map byte_of_char s"

definition string_of_bytes :: "bytes \<Rightarrow> string" where
  "string_of_bytes bs = map char_of_byte bs"

lemma char_of_byte_of_char [simp]: "char_of_byte (byte_of_char c) = c"
  by (simp add: char_of_byte_def byte_of_char_def unat_of_nat)

lemma byte_of_char_of_byte [simp]: "byte_of_char (char_of_byte b) = b"
proof -
  have "unat b < 256" using unsigned_less [of b] by simp
  then show ?thesis by (simp add: char_of_byte_def byte_of_char_def)
qed

lemma string_of_bytes_of_string [simp]: "string_of_bytes (bytes_of_string s) = s"
  by (simp add: string_of_bytes_def bytes_of_string_def comp_def)

lemma bytes_of_string_of_bytes [simp]: "bytes_of_string (string_of_bytes bs) = bs"
  by (simp add: string_of_bytes_def bytes_of_string_def comp_def)

lemma length_bytes_of_string [simp]: "length (bytes_of_string s) = length s"
  by (simp add: bytes_of_string_def)

lemma length_string_of_bytes [simp]: "length (string_of_bytes bs) = length bs"
  by (simp add: string_of_bytes_def)

lemma bytes_of_string_eq_Nil [simp]: "bytes_of_string s = [] \<longleftrightarrow> s = []"
  by (simp add: bytes_of_string_def)

lemma string_of_bytes_eq_Nil [simp]: "string_of_bytes bs = [] \<longleftrightarrow> bs = []"
  by (simp add: string_of_bytes_def)

lemma unat_of_nat_u8 [simp]: "n < 256 \<Longrightarrow> unat (of_nat n :: u8) = n"
  by (simp add: unat_of_nat)

lemma unat_u8_less [simp]: "unat (b :: u8) < 256"
  using unsigned_less [of b] by simp

section \<open>Errors and outcomes\<close>

text \<open>
  Errors the code compares by identity are constructors of their own; \<open>Errorf\<close> is
  \<open>fmt.Errorf\<close> with its rendered text and \<open>Extern\<close> an error of a library with its text.
\<close>

datatype go_error =
    EOF
  | ErrUnexpectedEOF
  | ErrCiperNotMatch
  | UnrecognizedAddrType
  | UserAuthFailed
  | NoSupportedAuth
  | Errorf string
  | Extern string

fun error_string :: "go_error \<Rightarrow> string" where
  "error_string EOF = ''EOF''"
| "error_string ErrUnexpectedEOF = ''unexpected EOF''"
| "error_string ErrCiperNotMatch = ''fail to match key''"
| "error_string UnrecognizedAddrType = ''Unrecognized address type''"
| "error_string UserAuthFailed = ''User authentication failed''"
| "error_string NoSupportedAuth = ''No supported authentication mechanism''"
| "error_string (Errorf s) = s"
| "error_string (Extern s) = s"

text \<open>
  The outcome of a call. \<open>Panic\<close> carries the run-time panic's text, \<open>Block\<close> says that the
  goroutine waits on a channel until another one acts.
\<close>

datatype 'a outcome = Ok 'a | Err go_error | Panic string | Block

type_synonym ('s, 'a) go = "'s \<Rightarrow> 'a outcome \<times> 's"

definition go_return :: "'a \<Rightarrow> ('s, 'a) go" where
  "go_return x s = (Ok x, s)"

definition go_fail :: "go_error \<Rightarrow> ('s, 'a) go" where
  "go_fail e s = (Err e, s)"

definition go_panic :: "string \<Rightarrow> ('s, 'a) go" where
  "go_panic m s = (Panic m, s)"

text \<open>\<open>x, err := m; if err != nil { return err }; k(x)\<close>\<close>

definition go_bind :: "('s, 'a) go \<Rightarrow> ('a \<Rightarrow> ('s, 'b) go) \<Rightarrow> ('s, 'b) go" where
  "go_bind m k s = (case m s of
     (Ok x, s') \<Rightarrow> k x s'
   | (Err e, s') \<Rightarrow> (Err e, s')
   | (Panic p, s') \<Rightarrow> (Panic p, s')
   | (Block, s') \<Rightarrow> (Block, s'))"

text \<open>\<open>if err != nil { return f(err) }\<close>: the caller replaces the error.\<close>

definition go_wrap :: "(go_error \<Rightarrow> go_error) \<Rightarrow> ('s, 'a) go \<Rightarrow> ('s, 'a) go" where
  "go_wrap f m s = (case m s of
     (Err e, s') \<Rightarrow> (Err (f e), s')
   | (x, s') \<Rightarrow> (x, s'))"

named_theorems go_simps "unfolding of the sequencing of Go calls"

lemmas go_basic_defs [go_simps] = go_return_def go_fail_def go_panic_def

lemma go_bind_Ok [go_simps]: "m s = (Ok x, s') \<Longrightarrow> go_bind m k s = k x s'"
  by (simp add: go_bind_def)

lemma go_bind_Err [go_simps]: "m s = (Err e, s') \<Longrightarrow> go_bind m k s = (Err e, s')"
  by (simp add: go_bind_def)

lemma go_bind_Panic [go_simps]: "m s = (Panic p, s') \<Longrightarrow> go_bind m k s = (Panic p, s')"
  by (simp add: go_bind_def)

lemma go_wrap_Ok [go_simps]: "m s = (Ok x, s') \<Longrightarrow> go_wrap f m s = (Ok x, s')"
  by (simp add: go_wrap_def)

lemma go_wrap_Err [go_simps]: "m s = (Err e, s') \<Longrightarrow> go_wrap f m s = (Err (f e), s')"
  by (simp add: go_wrap_def)

lemma go_bind_OkE:
  assumes "go_bind m k s = (Ok y, s'')"
  obtains x s' where "m s = (Ok x, s')" and "k x s' = (Ok y, s'')"
  using assms by (auto simp: go_bind_def split: prod.splits outcome.splits)

lemma go_bind_ErrE:
  assumes "go_bind m k s = (Err e, s'')"
  obtains "m s = (Err e, s'')"
  | x s' where "m s = (Ok x, s')" and "k x s' = (Err e, s'')"
  using assms by (auto simp: go_bind_def split: prod.splits outcome.splits)

lemma go_wrap_OkE:
  assumes "go_wrap f m s = (Ok y, s')"
  shows "m s = (Ok y, s')"
  using assms by (auto simp: go_wrap_def split: prod.splits outcome.splits)

section \<open>Go maps\<close>

text \<open>
  A Go map is an association list with distinct keys: \<open>map_of\<close> reads it, \<open>AList.update\<close> is
  \<open>m[k] = v\<close>, \<open>AList.delete\<close> is the built-in \<open>delete\<close>, and the list's order stands for one
  iteration order. A map used as a set of strings is a list of distinct strings.
\<close>

definition gomap :: "('k \<times> 'v) list \<Rightarrow> bool" where
  "gomap m \<longleftrightarrow> distinct (map fst m)"

lemma gomap_Nil [simp]: "gomap []"
  by (simp add: gomap_def)

lemma gomap_update [simp]: "gomap m \<Longrightarrow> gomap (AList.update k v m)"
  by (simp add: gomap_def distinct_update)

lemma gomap_delete [simp]: "gomap m \<Longrightarrow> gomap (AList.delete k m)"
  by (simp add: gomap_def distinct_delete)

lemma gomap_of_update [simp]: "map_of (AList.update k v m) = (map_of m)(k \<mapsto> v)"
  by (rule update_conv')

lemma gomap_of_delete [simp]: "map_of (AList.delete k m) = (map_of m)(k := None)"
  by (rule delete_conv')

lemma gomap_map_of_iff: "gomap m \<Longrightarrow> (k, v) \<in> set m \<longleftrightarrow> map_of m k = Some v"
  by (simp add: gomap_def)

definition set_add :: "'a \<Rightarrow> 'a list \<Rightarrow> 'a list" where
  "set_add x xs = (if x \<in> set xs then xs else xs @ [x])"

definition set_del :: "'a \<Rightarrow> 'a list \<Rightarrow> 'a list" where
  "set_del x xs = filter (\<lambda>y. y \<noteq> x) xs"

lemma set_set_add [simp]: "set (set_add x xs) = insert x (set xs)"
  by (auto simp: set_add_def)

lemma set_set_del [simp]: "set (set_del x xs) = set xs - {x}"
  by (auto simp: set_del_def)

lemma distinct_set_add [simp]: "distinct xs \<Longrightarrow> distinct (set_add x xs)"
  by (simp add: set_add_def)

lemma distinct_set_del [simp]: "distinct xs \<Longrightarrow> distinct (set_del x xs)"
  by (simp add: set_del_def)

lemma length_set_del_less: "x \<in> set xs \<Longrightarrow> length (set_del x xs) < length xs"
  by (simp add: set_del_def length_filter_less)

section \<open>Lists\<close>

lemma filter_filter_conj: "filter P (filter Q xs) = filter (\<lambda>x. Q x \<and> P x) xs"
  by (simp add: conj_commute)

lemma foldl_append_snoc: "foldl (\<lambda>acc x. acc @ f x) ys xs = ys @ concat (map f xs)"
  by (induction xs arbitrary: ys) auto

end
