(* ===== verification/GoIO.thy ===== *)
theory GoIO
  imports Prelude
begin

unbundle bit_operations_syntax

text \<open>
  Input streams, output streams and channels. An input stream is the bytes the peer ever sends
  and the error reported after them; \<open>io.ReadFull\<close>, \<open>io.ReadAtLeast\<close> with the buffer's length
  and a one-byte \<open>Read\<close> take bytes off its front, whatever the chunks they arrive in. The
  contract of everything that parses such a stream is the locale \<open>stream_reader\<close>: parsing only
  takes bytes off the front, and bytes behind those it takes do not change what it returns.
\<close>

section \<open>Input streams\<close>

record reader =
  rd_data :: bytes
  rd_end :: go_error

definition read_full :: "nat \<Rightarrow> (reader, bytes) go" where
  "read_full n r =
     (if n \<le> length (rd_data r)
      then (Ok (take n (rd_data r)), r\<lparr>rd_data := drop n (rd_data r)\<rparr>)
      else (Err (if rd_data r \<noteq> [] \<and> rd_end r = EOF then ErrUnexpectedEOF else rd_end r),
            r\<lparr>rd_data := []\<rparr>))"

definition read_one :: "(reader, u8) go" where
  "read_one r = (case rd_data r of
     [] \<Rightarrow> (Err (rd_end r), r)
   | b # bs \<Rightarrow> (Ok b, r\<lparr>rd_data := bs\<rparr>))"

lemma read_full_append [go_simps]:
  "length xs = n \<Longrightarrow>
   read_full n \<lparr>rd_data = xs @ ys, rd_end = e\<rparr> = (Ok xs, \<lparr>rd_data = ys, rd_end = e\<rparr>)"
  by (simp add: read_full_def)

lemma read_full_all [go_simps]:
  "length xs = n \<Longrightarrow>
   read_full n \<lparr>rd_data = xs, rd_end = e\<rparr> = (Ok xs, \<lparr>rd_data = [], rd_end = e\<rparr>)"
  by (simp add: read_full_def)

lemma read_full_short:
  "length (rd_data r) < n \<Longrightarrow>
   read_full n r = (Err (if rd_data r \<noteq> [] \<and> rd_end r = EOF then ErrUnexpectedEOF else rd_end r),
                    r\<lparr>rd_data := []\<rparr>)"
  by (simp add: read_full_def)

lemma read_full_Ok_length: "read_full n r = (Ok xs, r') \<Longrightarrow> length xs = n"
  by (auto simp: read_full_def split: if_splits)

lemma read_full_OkD:
  assumes "read_full n r = (Ok xs, r')"
  shows "rd_data r = xs @ rd_data r'" and "rd_end r' = rd_end r" and "length xs = n"
  using assms by (auto simp: read_full_def split: if_splits)

lemma read_one_Cons [go_simps]:
  "read_one \<lparr>rd_data = b # bs, rd_end = e\<rparr> = (Ok b, \<lparr>rd_data = bs, rd_end = e\<rparr>)"
  by (simp add: read_one_def)

lemma read_one_Nil [go_simps]:
  "read_one \<lparr>rd_data = [], rd_end = e\<rparr> = (Err e, \<lparr>rd_data = [], rd_end = e\<rparr>)"
  by (simp add: read_one_def)

subsection \<open>The contract of stream parsers\<close>

locale stream_reader =
  fixes p :: "reader \<Rightarrow> 'a outcome \<times> reader"
  assumes consumes: "p r = (res, r') \<Longrightarrow>
      \<exists>used. rd_data r = used @ rd_data r' \<and> rd_end r' = rd_end r"
    and extends: "p r = (Ok x, r') \<Longrightarrow>
      p (r\<lparr>rd_data := rd_data r @ ext\<rparr>) = (Ok x, r'\<lparr>rd_data := rd_data r' @ ext\<rparr>)"
begin

lemma never_grows: "p r = (res, r') \<Longrightarrow> length (rd_data r') \<le> length (rd_data r)"
  using consumes by fastforce

lemma keeps_end: "p r = (res, r') \<Longrightarrow> rd_end r' = rd_end r"
  using consumes by blast

lemma pipelined:
  assumes "p \<lparr>rd_data = xs, rd_end = e\<rparr> = (Ok x, \<lparr>rd_data = ys, rd_end = e\<rparr>)"
  shows "p \<lparr>rd_data = xs @ rest, rd_end = e\<rparr> = (Ok x, \<lparr>rd_data = ys @ rest, rd_end = e\<rparr>)"
  using extends [OF assms, of rest] by simp

text \<open>The bytes left are the bytes that were there, less those consumed.\<close>

lemma remaining:
  assumes "p r = (res, r')"
  shows "rd_data r' = drop (length (rd_data r) - length (rd_data r')) (rd_data r)"
  using consumes [OF assms] by auto

end

text \<open>The contract is closed under the ways the code composes reads.\<close>

lemma stream_reader_return: "stream_reader (go_return x)"
  by unfold_locales (auto simp: go_return_def)

lemma stream_reader_fail: "stream_reader (go_fail e)"
  by unfold_locales (auto simp: go_fail_def)

lemma stream_reader_panic: "stream_reader (go_panic m)"
  by unfold_locales (auto simp: go_panic_def)

lemma stream_reader_wrap: "stream_reader m \<Longrightarrow> stream_reader (go_wrap f m)"
  unfolding stream_reader_def
  by (fastforce simp: go_wrap_def split: prod.splits outcome.splits)

lemma stream_reader_bind:
  assumes m: "stream_reader m" and k: "\<And>x. stream_reader (k x)"
  shows "stream_reader (go_bind m k)"
proof
  fix r res r'
  assume eq: "go_bind m k r = (res, r')"
  obtain o1 r1 where m1: "m r = (o1, r1)" by fastforce
  obtain u1 where u1: "rd_data r = u1 @ rd_data r1" "rd_end r1 = rd_end r"
    using stream_reader.consumes [OF m m1] by blast
  show "\<exists>used. rd_data r = used @ rd_data r' \<and> rd_end r' = rd_end r"
  proof (cases o1)
    case (Ok x)
    with eq m1 have "k x r1 = (res, r')" by (simp add: go_bind_def)
    then obtain u2 where "rd_data r1 = u2 @ rd_data r'" "rd_end r' = rd_end r1"
      using stream_reader.consumes [OF k] by blast
    with u1 have "rd_data r = (u1 @ u2) @ rd_data r' \<and> rd_end r' = rd_end r" by simp
    then show ?thesis by blast
  qed (use eq m1 u1 in \<open>auto simp: go_bind_def\<close>)
next
  fix r y r'' ext
  assume "go_bind m k r = (Ok y, r'')"
  then obtain x r1 where "m r = (Ok x, r1)" and "k x r1 = (Ok y, r'')"
    by (rule go_bind_OkE)
  then show "go_bind m k (r\<lparr>rd_data := rd_data r @ ext\<rparr>)
      = (Ok y, r''\<lparr>rd_data := rd_data r'' @ ext\<rparr>)"
    by (simp add: go_bind_def stream_reader.extends [OF m] stream_reader.extends [OF k])
qed

interpretation full_read: stream_reader "read_full n" for n
  by unfold_locales (auto simp: read_full_def split: if_splits intro: append_take_drop_id [symmetric])

interpretation one_read: stream_reader read_one
  by unfold_locales (auto simp: read_one_def split: list.splits)

lemmas stream_reader_intros =
  stream_reader_return stream_reader_fail stream_reader_panic stream_reader_wrap
  stream_reader_bind full_read.stream_reader_axioms one_read.stream_reader_axioms

text \<open>A sequence of reads makes progress when its first one does.\<close>

lemma go_bind_progress:
  assumes bind: "go_bind m k r = (Ok y, r')"
    and m: "\<And>x r1. m r = (Ok x, r1) \<Longrightarrow> length (rd_data r1) < length (rd_data r)"
    and k: "\<And>x. stream_reader (k x)"
  shows "length (rd_data r') < length (rd_data r)"
  using bind
proof (rule go_bind_OkE)
  fix x r1
  assume "m r = (Ok x, r1)" and "k x r1 = (Ok y, r')"
  with m stream_reader.never_grows [OF k] show ?thesis by fastforce
qed

lemma read_full_progress:
  "read_full (Suc n) r = (Ok x, r1) \<Longrightarrow> length (rd_data r1) < length (rd_data r)"
  using read_full_OkD [of "Suc n" r x r1] by simp

section \<open>Output streams\<close>

text \<open>
  An output stream records what reached the peer. The environment decides, for the \<open>n\<close>-th write,
  whether it fails, with which error, and after how many bytes. On a closed stream every write fails.
\<close>

record writer =
  wr_out :: bytes
  wr_cnt :: nat
  wr_fail :: "nat \<Rightarrow> (go_error \<times> nat) option"
  wr_closed :: bool

definition wr_write :: "bytes \<Rightarrow> (writer, unit) go" where
  "wr_write bs w =
     (if wr_closed w then (Err (Extern ''write on closed stream''), w)
      else case wr_fail w (wr_cnt w) of
        None \<Rightarrow> (Ok (), w\<lparr>wr_out := wr_out w @ bs, wr_cnt := Suc (wr_cnt w)\<rparr>)
      | Some (e, k) \<Rightarrow>
          (Err e, w\<lparr>wr_out := wr_out w @ take k bs, wr_cnt := Suc (wr_cnt w)\<rparr>))"

definition wr_close :: "writer \<Rightarrow> writer" where
  "wr_close w = w\<lparr>wr_closed := True\<rparr>"

lemma wr_close_closed [simp]: "wr_closed (wr_close w)" "wr_out (wr_close w) = wr_out w"
  by (simp_all add: wr_close_def)

definition reliable :: "writer \<Rightarrow> bool" where
  "reliable w \<longleftrightarrow> \<not> wr_closed w \<and> (\<forall>n. wr_fail w n = None)"

definition fresh_writer :: writer where
  "fresh_writer = \<lparr>wr_out = [], wr_cnt = 0, wr_fail = (\<lambda>_. None), wr_closed = False\<rparr>"

lemma reliable_fresh [simp]: "reliable fresh_writer"
  by (simp add: reliable_def fresh_writer_def)

lemma wr_write_reliable [go_simps]:
  "reliable w \<Longrightarrow>
   wr_write bs w = (Ok (), w\<lparr>wr_out := wr_out w @ bs, wr_cnt := Suc (wr_cnt w)\<rparr>)"
  by (simp add: wr_write_def reliable_def)

lemma reliable_update [simp]: "reliable (w\<lparr>wr_out := x, wr_cnt := n\<rparr>) = reliable w"
  by (simp add: reliable_def)

text \<open>A write appends a prefix of its bytes, all of them when it succeeds.\<close>

lemma wr_write_appends:
  "wr_write bs w = (res, w') \<Longrightarrow>
   \<exists>k. wr_out w' = wr_out w @ take k bs \<and> wr_fail w' = wr_fail w \<and> wr_closed w' = wr_closed w
     \<and> (res = Ok () \<longrightarrow> wr_out w' = wr_out w @ bs)"
  by (auto simp: wr_write_def split: option.splits if_splits intro: exI [of _ 0] exI [of _ "length bs"])

section \<open>Channels\<close>

record 'a chan =
  ch_buf :: "'a list"
  ch_cap :: nat
  ch_closed :: bool

definition make_chan :: "nat \<Rightarrow> 'a chan" where
  "make_chan n = \<lparr>ch_buf = [], ch_cap = n, ch_closed = False\<rparr>"

definition chan_send :: "'a \<Rightarrow> ('a chan, unit) go" where
  "chan_send x c =
     (if ch_closed c then (Panic ''send on closed channel'', c)
      else if length (ch_buf c) < ch_cap c then (Ok (), c\<lparr>ch_buf := ch_buf c @ [x]\<rparr>)
      else (Block, c))"

text \<open>Receiving yields the zero value, here \<open>None\<close>, once a closed channel is empty.\<close>

definition chan_recv :: "('a chan, 'a option) go" where
  "chan_recv c = (case ch_buf c of
     x # xs \<Rightarrow> (Ok (Some x), c\<lparr>ch_buf := xs\<rparr>)
   | [] \<Rightarrow> (if ch_closed c then (Ok None, c) else (Block, c)))"

definition chan_close :: "('a chan, unit) go" where
  "chan_close c =
     (if ch_closed c then (Panic ''close of closed channel'', c)
      else (Ok (), c\<lparr>ch_closed := True\<rparr>))"

definition chan_bounded :: "'a chan \<Rightarrow> bool" where
  "chan_bounded c \<longleftrightarrow> length (ch_buf c) \<le> ch_cap c"

lemma make_chan_bounded [simp]: "chan_bounded (make_chan n)"
  by (simp add: chan_bounded_def make_chan_def)

lemma chan_send_bounded: "chan_send x c = (res, c') \<Longrightarrow> chan_bounded c \<Longrightarrow> chan_bounded c'"
  by (auto simp: chan_send_def chan_bounded_def split: if_splits)

lemma chan_recv_bounded: "chan_recv c = (res, c') \<Longrightarrow> chan_bounded c \<Longrightarrow> chan_bounded c'"
  by (auto simp: chan_recv_def chan_bounded_def split: list.splits if_splits)

lemma chan_send_Ok:
  "chan_send x c = (Ok u, c') \<longleftrightarrow>
   \<not> ch_closed c \<and> length (ch_buf c) < ch_cap c \<and> c' = c\<lparr>ch_buf := ch_buf c @ [x]\<rparr>"
  by (auto simp: chan_send_def)

lemma chan_recv_Some:
  "chan_recv c = (Ok (Some x), c') \<longleftrightarrow> (\<exists>xs. ch_buf c = x # xs \<and> c' = c\<lparr>ch_buf := xs\<rparr>)"
  by (auto simp: chan_recv_def split: list.splits)

lemma chan_recv_None:
  "chan_recv c = (Ok None, c') \<longleftrightarrow> ch_buf c = [] \<and> ch_closed c \<and> c' = c"
  by (auto simp: chan_recv_def split: list.splits)

lemma chan_close_Ok:
  "chan_close c = (Ok u, c') \<longleftrightarrow> \<not> ch_closed c \<and> c' = c\<lparr>ch_closed := True\<rparr>"
  by (auto simp: chan_close_def)

section \<open>Little-endian 16-bit integers\<close>

definition le16 :: "u16 \<Rightarrow> bytes" where
  "le16 w = [ucast w, ucast (drop_bit 8 w)]"

definition of_le16 :: "bytes \<Rightarrow> u16" where
  "of_le16 bs = (case bs of [a, b] \<Rightarrow> ucast a OR push_bit 8 (ucast b) | _ \<Rightarrow> 0)"

lemma length_le16 [simp]: "length (le16 w) = 2"
  by (simp add: le16_def)

lemma of_le16_le16 [simp]: "of_le16 (le16 w) = w"
  by (rule bit_word_eqI)
    (auto simp: of_le16_def le16_def bit_simps)

lemma bit_u8_high [simp]: "\<not> bit (b :: u8) (8 + n)"
  using bit_imp_le_length [of b "8 + n"] by auto

lemma le16_of_le16: "length bs = 2 \<Longrightarrow> le16 (of_le16 bs) = bs"
  by (auto simp: of_le16_def le16_def length_Suc_conv numeral_2_eq_2 bit_simps
      intro!: bit_word_eqI)

end
