(* ===== verification/Protocol.thy ===== *)
theory Protocol
  imports GoIO
begin

text \<open>
  \<open>protocol/protocol.proto\<close> and the Go code generated from it: the messages, the nil-safe
  getters, and the encoder, decoder and sizer of the \<open>oneof\<close>. The protobuf runtime is not part
  of the repository: its buffer operations are the record \<open>proto_lib\<close>, and \<open>proto.Marshal\<close> and
  \<open>proto.Unmarshal\<close> of an envelope are the record \<open>codec\<close>. What the code relies on is stated by
  \<open>proto_lib_ok\<close> and \<open>codec_ok\<close>.
\<close>

section \<open>Messages\<close>

record message_ping =
  Timestamp :: "64 word"
  LocalAddr :: string
  LocalPrivateAddr :: string
  IP :: string
  DC :: string

record message_packet =
  Payload :: bytes

text \<open>The pointers in the \<open>oneof\<close> wrappers may be nil.\<close>

datatype envelope_type =
    Envelope_Ping "message_ping option"
  | Envelope_Packet "message_packet option"

record envelope =
  EType :: "envelope_type option"

definition Envelope_GetType :: "envelope option \<Rightarrow> envelope_type option" where
  "Envelope_GetType m = (case m of Some e \<Rightarrow> EType e | None \<Rightarrow> None)"

definition Envelope_GetPing :: "envelope option \<Rightarrow> message_ping option" where
  "Envelope_GetPing m = (case Envelope_GetType m of Some (Envelope_Ping x) \<Rightarrow> x | _ \<Rightarrow> None)"

definition Envelope_GetPacket :: "envelope option \<Rightarrow> message_packet option" where
  "Envelope_GetPacket m = (case Envelope_GetType m of Some (Envelope_Packet x) \<Rightarrow> x | _ \<Rightarrow> None)"

definition MessagePing_GetTimestamp :: "message_ping option \<Rightarrow> 64 word" where
  "MessagePing_GetTimestamp m = (case m of Some p \<Rightarrow> Timestamp p | None \<Rightarrow> 0)"

definition MessagePing_GetLocalAddr :: "message_ping option \<Rightarrow> string" where
  "MessagePing_GetLocalAddr m = (case m of Some p \<Rightarrow> LocalAddr p | None \<Rightarrow> [])"

definition MessagePing_GetLocalPrivateAddr :: "message_ping option \<Rightarrow> string" where
  "MessagePing_GetLocalPrivateAddr m = (case m of Some p \<Rightarrow> LocalPrivateAddr p | None \<Rightarrow> [])"

definition MessagePing_GetIP :: "message_ping option \<Rightarrow> string" where
  "MessagePing_GetIP m = (case m of Some p \<Rightarrow> IP p | None \<Rightarrow> [])"

definition MessagePing_GetDC :: "message_ping option \<Rightarrow> string" where
  "MessagePing_GetDC m = (case m of Some p \<Rightarrow> DC p | None \<Rightarrow> [])"

definition MessagePacket_GetPayload :: "message_packet option \<Rightarrow> bytes" where
  "MessagePacket_GetPayload m = (case m of Some p \<Rightarrow> Payload p | None \<Rightarrow> [])"

lemmas getter_defs =
  Envelope_GetType_def Envelope_GetPing_def Envelope_GetPacket_def
  MessagePing_GetTimestamp_def MessagePing_GetLocalAddr_def MessagePing_GetLocalPrivateAddr_def
  MessagePing_GetIP_def MessagePing_GetDC_def MessagePacket_GetPayload_def

section \<open>The generated oneof code\<close>

text \<open>
  The buffer operations the generated code calls: \<open>EncodeVarint\<close>, \<open>EncodeMessage\<close> and
  \<open>DecodeMessage\<close> of either message (length-delimited), \<open>proto.Size\<close>, \<open>proto.SizeVarint\<close>.
\<close>

record proto_lib =
  EncodeVarint :: "64 word \<Rightarrow> bytes"
  SizeVarint :: "64 word \<Rightarrow> nat"
  SizePing :: "message_ping option \<Rightarrow> nat"
  SizePacket :: "message_packet option \<Rightarrow> nat"
  EncodePing :: "message_ping option \<Rightarrow> go_error + bytes"
  EncodePacket :: "message_packet option \<Rightarrow> go_error + bytes"
  DecodePing :: "bytes \<Rightarrow> go_error option \<times> message_ping \<times> bytes"
  DecodePacket :: "bytes \<Rightarrow> go_error option \<times> message_packet \<times> bytes"

definition WireBytes :: nat where
  "WireBytes = 2"

definition Envelope_OneofMarshaler ::
    "proto_lib \<Rightarrow> envelope \<Rightarrow> bytes \<Rightarrow> go_error option \<times> bytes" where
  "Envelope_OneofMarshaler lib m b = (case EType m of
     Some (Envelope_Ping x) \<Rightarrow>
       (let b = b @ EncodeVarint lib (of_nat (1 * 8 + WireBytes)) in
        case EncodePing lib x of Inl e \<Rightarrow> (Some e, b) | Inr bs \<Rightarrow> (None, b @ bs))
   | Some (Envelope_Packet x) \<Rightarrow>
       (let b = b @ EncodeVarint lib (of_nat (2 * 8 + WireBytes)) in
        case EncodePacket lib x of Inl e \<Rightarrow> (Some e, b) | Inr bs \<Rightarrow> (None, b @ bs))
   | None \<Rightarrow> (None, b))"

text \<open>Result: whether the tag is one of the oneof's, the error, the message, the bytes left.\<close>

definition Envelope_OneofUnmarshaler ::
    "proto_lib \<Rightarrow> envelope \<Rightarrow> nat \<Rightarrow> nat \<Rightarrow> bytes
      \<Rightarrow> bool \<times> go_error option \<times> envelope \<times> bytes" where
  "Envelope_OneofUnmarshaler lib m tag wire b =
     (if tag = 1 then
        (if wire \<noteq> WireBytes
         then (True, Some (Extern ''proto: internal error: bad wiretype''), m, b)
         else (case DecodePing lib b of
            (err, msg, b') \<Rightarrow> (True, err, m\<lparr>EType := Some (Envelope_Ping (Some msg))\<rparr>, b')))
      else if tag = 2 then
        (if wire \<noteq> WireBytes
         then (True, Some (Extern ''proto: internal error: bad wiretype''), m, b)
         else (case DecodePacket lib b of
            (err, msg, b') \<Rightarrow> (True, err, m\<lparr>EType := Some (Envelope_Packet (Some msg))\<rparr>, b')))
      else (False, None, m, b))"

definition Envelope_OneofSizer :: "proto_lib \<Rightarrow> envelope \<Rightarrow> nat" where
  "Envelope_OneofSizer lib m = (case EType m of
     Some (Envelope_Ping x) \<Rightarrow>
       (let s = SizePing lib x in 1 + SizeVarint lib (of_nat s) + s)
   | Some (Envelope_Packet x) \<Rightarrow>
       (let s = SizePacket lib x in 1 + SizeVarint lib (of_nat s) + s)
   | None \<Rightarrow> 0)"

text \<open>What the runtime asks for: the three functions, and the wrappers of the cases.\<close>

definition Envelope_OneofFuncs where
  "Envelope_OneofFuncs lib = (Envelope_OneofMarshaler lib, Envelope_OneofUnmarshaler lib,
     Envelope_OneofSizer lib, [Envelope_Ping None, Envelope_Packet None])"

definition Envelope_Reset :: "envelope \<Rightarrow> envelope" where
  "Envelope_Reset m = \<lparr>EType = None\<rparr>"

definition MessagePing_Reset :: "message_ping \<Rightarrow> message_ping" where
  "MessagePing_Reset m = \<lparr>Timestamp = 0, LocalAddr = [], LocalPrivateAddr = [], IP = [], DC = []\<rparr>"

definition MessagePacket_Reset :: "message_packet \<Rightarrow> message_packet" where
  "MessagePacket_Reset m = \<lparr>Payload = []\<rparr>"

text \<open>A message that is reset looks to every getter as no message at all.\<close>

lemma reset_is_nil:
  "Envelope_GetType (Some (Envelope_Reset e)) = Envelope_GetType None"
  "MessagePing_GetTimestamp (Some (MessagePing_Reset p)) = MessagePing_GetTimestamp None"
  "MessagePing_GetLocalAddr (Some (MessagePing_Reset p)) = MessagePing_GetLocalAddr None"
  "MessagePing_GetLocalPrivateAddr (Some (MessagePing_Reset p)) = MessagePing_GetLocalPrivateAddr None"
  "MessagePing_GetIP (Some (MessagePing_Reset p)) = MessagePing_GetIP None"
  "MessagePing_GetDC (Some (MessagePing_Reset p)) = MessagePing_GetDC None"
  "MessagePacket_GetPayload (Some (MessagePacket_Reset q)) = MessagePacket_GetPayload None"
  by (simp_all add: getter_defs Envelope_Reset_def MessagePing_Reset_def MessagePacket_Reset_def)

text \<open>
  What the runtime documents: a varint below 128 is its one byte, \<open>SizeVarint\<close> is the length
  of \<open>EncodeVarint\<close>, a length-delimited message is the varint of its size and as many bytes,
  and \<open>DecodeMessage\<close> reads back what \<open>EncodeMessage\<close> wrote.
\<close>

definition proto_lib_ok :: "proto_lib \<Rightarrow> bool" where
  "proto_lib_ok lib \<longleftrightarrow>
     (\<forall>v. length (EncodeVarint lib v) = SizeVarint lib v) \<and>
     (\<forall>v. v < 128 \<longrightarrow> EncodeVarint lib v = [ucast v]) \<and>
     (\<forall>x bs. EncodePing lib x = Inr bs \<longrightarrow>
        (\<exists>body. bs = EncodeVarint lib (of_nat (SizePing lib x)) @ body
              \<and> length body = SizePing lib x)) \<and>
     (\<forall>x bs. EncodePacket lib x = Inr bs \<longrightarrow>
        (\<exists>body. bs = EncodeVarint lib (of_nat (SizePacket lib x)) @ body
              \<and> length body = SizePacket lib x)) \<and>
     (\<forall>x bs rest. EncodePing lib (Some x) = Inr bs \<longrightarrow> DecodePing lib (bs @ rest) = (None, x, rest)) \<and>
     (\<forall>x bs rest. EncodePacket lib (Some x) = Inr bs \<longrightarrow>
        DecodePacket lib (bs @ rest) = (None, x, rest))"

lemma proto_lib_okD:
  assumes "proto_lib_ok lib"
  shows "length (EncodeVarint lib v) = SizeVarint lib v"
    and "v < 128 \<Longrightarrow> EncodeVarint lib v = [ucast v]"
    and "EncodePing lib x = Inr bs \<Longrightarrow>
      length bs = SizeVarint lib (of_nat (SizePing lib x)) + SizePing lib x"
    and "EncodePacket lib y = Inr bs \<Longrightarrow>
      length bs = SizeVarint lib (of_nat (SizePacket lib y)) + SizePacket lib y"
    and "EncodePing lib (Some px) = Inr bs \<Longrightarrow> DecodePing lib (bs @ rest) = (None, px, rest)"
    and "EncodePacket lib (Some py) = Inr bs \<Longrightarrow> DecodePacket lib (bs @ rest) = (None, py, rest)"
  using assms unfolding proto_lib_ok_def by (auto, fastforce+)

section \<open>Whole envelopes\<close>

text \<open>
  \<open>proto.Marshal\<close> returns bytes and an error, \<open>proto.Unmarshal\<close> fails or fills the envelope.
\<close>

record codec =
  proto_Marshal :: "envelope \<Rightarrow> bytes \<times> go_error option"
  proto_Unmarshal :: "bytes \<Rightarrow> go_error + envelope"

definition ascii :: "string \<Rightarrow> bool" where
  "ascii s \<longleftrightarrow> (\<forall>c \<in> set s. (of_char c :: nat) < 128)"

definition ping_ascii :: "message_ping \<Rightarrow> bool" where
  "ping_ascii p \<longleftrightarrow>
     ascii (LocalAddr p) \<and> ascii (LocalPrivateAddr p) \<and> ascii (IP p) \<and> ascii (DC p)"

text \<open>Envelopes without nil inner pointers whose strings are ASCII, hence valid UTF-8.\<close>

fun wire_type :: "envelope_type \<Rightarrow> bool" where
  "wire_type (Envelope_Ping (Some p)) = ping_ascii p"
| "wire_type (Envelope_Packet (Some k)) = True"
| "wire_type _ = False"

definition wire_envelope :: "envelope \<Rightarrow> bool" where
  "wire_envelope e \<longleftrightarrow> (case EType e of None \<Rightarrow> True | Some t \<Rightarrow> wire_type t)"

definition codec_ok :: "codec \<Rightarrow> bool" where
  "codec_ok c \<longleftrightarrow> (\<forall>e. wire_envelope e \<longrightarrow>
     snd (proto_Marshal c e) = None \<and> proto_Unmarshal c (fst (proto_Marshal c e)) = Inr e)"

lemma codec_okD:
  "codec_ok c \<Longrightarrow> wire_envelope e \<Longrightarrow> proto_Unmarshal c (fst (proto_Marshal c e)) = Inr e"
  by (simp add: codec_ok_def)

section \<open>Sizes and round trips of the oneof\<close>

text \<open>The bytes the oneof encoder appends, after the buffer's own, are as many as its sizer says.\<close>

lemma oneof_size:
  assumes lib: "proto_lib_ok lib" and ok: "Envelope_OneofMarshaler lib m b = (None, b')"
  shows "length b' = length b + Envelope_OneofSizer lib m"
proof (cases "EType m")
  case None
  with ok show ?thesis by (simp add: Envelope_OneofMarshaler_def Envelope_OneofSizer_def)
next
  case (Some t)
  have tag: "EncodeVarint lib 10 = [10]" "EncodeVarint lib 18 = [18]"
    using proto_lib_okD(2) [OF lib] by simp_all
  show ?thesis
    using ok Some tag
    by (cases t)
      (auto simp: Envelope_OneofMarshaler_def Envelope_OneofSizer_def WireBytes_def Let_def
        proto_lib_okD(3) [OF lib] proto_lib_okD(4) [OF lib] split: sum.splits)
qed

end
