(* ===== verification/ProtoRuntime.thy ===== *)
theory ProtoRuntime
  imports Protocol
begin

text \<open>
  The rest of \<open>protocol/protocol.pb.go\<close>: the methods of the three messages that hand over to the
  protobuf runtime, the registrations, and the descriptor. The runtime's table of a message type is
  the record \<open>message_info\<close>; what its operations do is a hypothesis where it is used.
\<close>

section \<open>The methods that hand over to the runtime\<close>

record 'm message_info =
  mi_Unmarshal :: "'m \<Rightarrow> bytes \<Rightarrow> go_error option \<times> 'm"
  mi_Marshal :: "bytes \<Rightarrow> 'm \<Rightarrow> bool \<Rightarrow> bytes \<times> go_error option"
  mi_Merge :: "'m \<Rightarrow> 'm \<Rightarrow> 'm"
  mi_Size :: "'m \<Rightarrow> int"
  mi_DiscardUnknown :: "'m \<Rightarrow> 'm"
  CompactTextString :: "'m \<Rightarrow> string"

text \<open>The runtime as the generated code sees it: one table per message type.\<close>

record runtime =
  messageInfo_Envelope :: "envelope message_info"
  messageInfo_MessagePing :: "message_ping message_info"
  messageInfo_MessagePacket :: "message_packet message_info"

definition Envelope_String :: "runtime \<Rightarrow> envelope \<Rightarrow> string" where
  "Envelope_String rt m = CompactTextString (messageInfo_Envelope rt) m"

definition Envelope_XXX_Unmarshal :: "runtime \<Rightarrow> envelope \<Rightarrow> bytes \<Rightarrow> go_error option \<times> envelope" where
  "Envelope_XXX_Unmarshal rt m b = mi_Unmarshal (messageInfo_Envelope rt) m b"

definition Envelope_XXX_Marshal :: "runtime \<Rightarrow> envelope \<Rightarrow> bytes \<Rightarrow> bool \<Rightarrow> bytes \<times> go_error option" where
  "Envelope_XXX_Marshal rt m b deterministic = mi_Marshal (messageInfo_Envelope rt) b m deterministic"

definition Envelope_XXX_Merge :: "runtime \<Rightarrow> envelope \<Rightarrow> envelope \<Rightarrow> envelope" where
  "Envelope_XXX_Merge rt m src = mi_Merge (messageInfo_Envelope rt) m src"

definition Envelope_XXX_Size :: "runtime \<Rightarrow> envelope \<Rightarrow> int" where
  "Envelope_XXX_Size rt m = mi_Size (messageInfo_Envelope rt) m"

definition Envelope_XXX_DiscardUnknown :: "runtime \<Rightarrow> envelope \<Rightarrow> envelope" where
  "Envelope_XXX_DiscardUnknown rt m = mi_DiscardUnknown (messageInfo_Envelope rt) m"

definition MessagePing_String :: "runtime \<Rightarrow> message_ping \<Rightarrow> string" where
  "MessagePing_String rt m = CompactTextString (messageInfo_MessagePing rt) m"

definition MessagePing_XXX_Unmarshal :: "runtime \<Rightarrow> message_ping \<Rightarrow> bytes \<Rightarrow> go_error option \<times> message_ping" where
  "MessagePing_XXX_Unmarshal rt m b = mi_Unmarshal (messageInfo_MessagePing rt) m b"

definition MessagePing_XXX_Marshal :: "runtime \<Rightarrow> message_ping \<Rightarrow> bytes \<Rightarrow> bool \<Rightarrow> bytes \<times> go_error option" where
  "MessagePing_XXX_Marshal rt m b deterministic = mi_Marshal (messageInfo_MessagePing rt) b m deterministic"

definition MessagePing_XXX_Merge :: "runtime \<Rightarrow> message_ping \<Rightarrow> message_ping \<Rightarrow> message_ping" where
  "MessagePing_XXX_Merge rt m src = mi_Merge (messageInfo_MessagePing rt) m src"

definition MessagePing_XXX_Size :: "runtime \<Rightarrow> message_ping \<Rightarrow> int" where
  "MessagePing_XXX_Size rt m = mi_Size (messageInfo_MessagePing rt) m"

definition MessagePing_XXX_DiscardUnknown :: "runtime \<Rightarrow> message_ping \<Rightarrow> message_ping" where
  "MessagePing_XXX_DiscardUnknown rt m = mi_DiscardUnknown (messageInfo_MessagePing rt) m"

definition MessagePacket_String :: "runtime \<Rightarrow> message_packet \<Rightarrow> string" where
  "MessagePacket_String rt m = CompactTextString (messageInfo_MessagePacket rt) m"

definition MessagePacket_XXX_Unmarshal :: "runtime \<Rightarrow> message_packet \<Rightarrow> bytes \<Rightarrow> go_error option \<times> message_packet" where
  "MessagePacket_XXX_Unmarshal rt m b = mi_Unmarshal (messageInfo_MessagePacket rt) m b"

definition MessagePacket_XXX_Marshal :: "runtime \<Rightarrow> message_packet \<Rightarrow> bytes \<Rightarrow> bool \<Rightarrow> bytes \<times> go_error option" where
  "MessagePacket_XXX_Marshal rt m b deterministic = mi_Marshal (messageInfo_MessagePacket rt) b m deterministic"

definition MessagePacket_XXX_Merge :: "runtime \<Rightarrow> message_packet \<Rightarrow> message_packet \<Rightarrow> message_packet" where
  "MessagePacket_XXX_Merge rt m src = mi_Merge (messageInfo_MessagePacket rt) m src"

definition MessagePacket_XXX_Size :: "runtime \<Rightarrow> message_packet \<Rightarrow> int" where
  "MessagePacket_XXX_Size rt m = mi_Size (messageInfo_MessagePacket rt) m"

definition MessagePacket_XXX_DiscardUnknown :: "runtime \<Rightarrow> message_packet \<Rightarrow> message_packet" where
  "MessagePacket_XXX_DiscardUnknown rt m = mi_DiscardUnknown (messageInfo_MessagePacket rt) m"

section \<open>The descriptor and the registrations\<close>

definition fileDescriptor :: bytes where
  "fileDescriptor =
    [0x1f, 0x8b, 0x08, 0x00, 0x00, 0x00, 0x00, 0x00, 0x02, 0xff, 0xe2, 0xe2, 0x2b, 0x28, 0xca, 0x2f,
     0xc9, 0x4f, 0xce, 0xcf, 0xd1, 0x03, 0x33, 0x94, 0x12, 0xb8, 0x38, 0x5c, 0xf3, 0xca, 0x52, 0x73,
     0xf2, 0x0b, 0x52, 0x85, 0x94, 0xb8, 0x58, 0x0a, 0x32, 0xf3, 0xd2, 0x25, 0x18, 0x15, 0x18, 0x35,
     0xb8, 0x8d, 0x78, 0xf4, 0x7c, 0x53, 0x8b, 0x8b, 0x13, 0xd3, 0x53, 0x03, 0x32, 0xf3, 0xd2, 0x3d,
     0x18, 0x82, 0xc0, 0x72, 0x42, 0x1a, 0x5c, 0x6c, 0x05, 0x89, 0xc9, 0xd9, 0xa9, 0x25, 0x12, 0x4c,
     0x60, 0x55, 0x7c, 0x70, 0x55, 0x60, 0x51, 0x0f, 0x86, 0x20, 0xa8, 0xbc, 0x13, 0x1b, 0x17, 0x4b,
     0x49, 0x65, 0x41, 0xaa, 0xd2, 0x54, 0x46, 0x2e, 0x6e, 0x24, 0x93, 0x84, 0x64, 0xb8, 0x38, 0x43,
     0x32, 0x73, 0x53, 0x8b, 0x4b, 0x12, 0x73, 0x0b, 0xc0, 0x56, 0x31, 0x07, 0x21, 0x04, 0x40, 0xb2,
     0x3e, 0xf9, 0xc9, 0x89, 0x39, 0x8e, 0x29, 0x29, 0x45, 0x60, 0x2b, 0x38, 0x83, 0x10, 0x02, 0x42,
     0x5a, 0x5c, 0x02, 0x60, 0x4e, 0x40, 0x51, 0x66, 0x59, 0x62, 0x49, 0x2a, 0x58, 0x11, 0x33, 0x58,
     0x11, 0x86, 0xb8, 0x10, 0x1f, 0x17, 0x93, 0x67, 0x80, 0x04, 0x0b, 0x58, 0x96, 0xc9, 0x33, 0x00,
     0xc4, 0x77, 0x71, 0x96, 0x60, 0x85, 0xf0, 0x5d, 0x9c, 0x95, 0x34, 0xb9, 0x78, 0x51, 0x9c, 0x2e,
     0x24, 0xc1, 0xc5, 0x5e, 0x90, 0x58, 0x99, 0x93, 0x9f, 0x98, 0x02, 0x76, 0x16, 0x4f, 0x10, 0x8c,
     0xeb, 0x24, 0x1c, 0x25, 0x98, 0x9b, 0x5a, 0x9c, 0x91, 0x94, 0x59, 0x94, 0xa2, 0x0f, 0x0b, 0xbf,
     0x24, 0x36, 0x30, 0xcb, 0x18, 0x10, 0x00, 0x00, 0xff, 0xff, 0x2f, 0x7d, 0x15, 0x9a, 0x52, 0x01,
     0x00, 0x00]"

definition Envelope_Descriptor :: "bytes \<times> nat list" where
  "Envelope_Descriptor = (fileDescriptor, [0])"

definition MessagePing_Descriptor :: "bytes \<times> nat list" where
  "MessagePing_Descriptor = (fileDescriptor, [1])"

definition MessagePacket_Descriptor :: "bytes \<times> nat list" where
  "MessagePacket_Descriptor = (fileDescriptor, [2])"

datatype registration = RegisterType string | RegisterFile string bytes

definition init_types :: "registration list" where
  "init_types = [RegisterType ''Envelope'', RegisterType ''MessagePing'', RegisterType ''MessagePacket'']"

definition init_file :: "registration list" where
  "init_file = [RegisterFile ''protocol.proto'' fileDescriptor]"

text \<open>The descriptor has the size its comment gives and is a gzip member (magic number, deflate) of
  338 bytes; the index each \<open>Descriptor\<close> returns is the place of its type in the registrations.\<close>

lemma descriptor_form:
  "length fileDescriptor = 242"
  "take 3 fileDescriptor = [0x1f, 0x8b, 8]"
  "of_le16 (take 2 (drop 238 fileDescriptor)) = 338"
  by (simp_all add: fileDescriptor_def of_le16_def)

lemma descriptor_indices:
  "map (\<lambda>d. init_types ! hd (snd d)) [Envelope_Descriptor, MessagePing_Descriptor, MessagePacket_Descriptor] = init_types"
  by (simp add: Envelope_Descriptor_def MessagePing_Descriptor_def MessagePacket_Descriptor_def init_types_def)

section \<open>The codec the program uses\<close>

text \<open>
  What the runtime documents of \<open>proto.Marshal\<close> and \<open>proto.Unmarshal\<close>: the first is the message's
  \<open>XXX_Marshal\<close> onto an empty buffer, the second resets the message and then fills it with
  \<open>XXX_Unmarshal\<close>. And what it documents of a table: decoding into a reset message what was
  encoded gives the message back, and \<open>Size\<close> is the length of the encoding.
\<close>

definition runtime_codec :: "runtime \<Rightarrow> codec" where
  "runtime_codec rt = \<lparr>
     proto_Marshal = (\<lambda>e. Envelope_XXX_Marshal rt e [] False),
     proto_Unmarshal = (\<lambda>bs. case Envelope_XXX_Unmarshal rt (Envelope_Reset \<lparr>EType = None\<rparr>) bs of
        (None, e) \<Rightarrow> Inr e | (Some err, _) \<Rightarrow> Inl err)\<rparr>"

definition info_ok :: "('m \<Rightarrow> bool) \<Rightarrow> 'm \<Rightarrow> 'm message_info \<Rightarrow> bool" where
  "info_ok wire blank info \<longleftrightarrow> (\<forall>m b d. wire m \<longrightarrow> (\<exists>bs. mi_Marshal info b m d = (b @ bs, None)
     \<and> int (length bs) = mi_Size info m \<and> mi_Unmarshal info blank bs = (None, m)))"

text \<open>With such a table the codec of the program is as \<open>codec_ok\<close> asks.\<close>

lemma runtime_codec_ok:
  assumes "info_ok wire_envelope \<lparr>EType = None\<rparr> (messageInfo_Envelope rt)"
  shows "codec_ok (runtime_codec rt)"
  unfolding codec_ok_def
proof (intro allI impI)
  fix e assume "wire_envelope e"
  then obtain bs where "mi_Marshal (messageInfo_Envelope rt) [] e False = ([] @ bs, None)"
    "mi_Unmarshal (messageInfo_Envelope rt) \<lparr>EType = None\<rparr> bs = (None, e)"
    using assms unfolding info_ok_def by metis
  then show "snd (proto_Marshal (runtime_codec rt) e) = None \<and>
      proto_Unmarshal (runtime_codec rt) (fst (proto_Marshal (runtime_codec rt) e)) = Inr e"
    by (simp add: runtime_codec_def Envelope_XXX_Marshal_def Envelope_XXX_Unmarshal_def Envelope_Reset_def)
qed

end
