(* ===== verification/Crypto.thy ===== *)
theory Crypto
  imports GoIO
begin

text \<open>
  \<open>utils/hash.go\<close> and \<open>transport/crypto.go\<close>: the digests and the AEAD built from a key string.
  The cryptographic primitives are the record \<open>crypto_lib\<close>; the code relies on the digest sizes,
  on the key sizes AES accepts, and on opening what was sealed (\<open>crypto_ok\<close>).
\<close>

record aead =
  NonceSize :: nat
  Seal :: "bytes \<Rightarrow> bytes \<Rightarrow> bytes"
  Open :: "bytes \<Rightarrow> bytes \<Rightarrow> bytes option"

record crypto_lib =
  lib_md5 :: "bytes \<Rightarrow> bytes"
  lib_sha1 :: "bytes \<Rightarrow> bytes"
  lib_sha256 :: "bytes \<Rightarrow> bytes"
  lib_gcm :: "bytes \<Rightarrow> aead"

definition SHA256 :: "crypto_lib \<Rightarrow> bytes \<Rightarrow> bytes" where
  "SHA256 lib inp = lib_sha256 lib inp"

definition SHA1 :: "crypto_lib \<Rightarrow> bytes \<Rightarrow> bytes" where
  "SHA1 lib inp = lib_sha1 lib inp"

definition MD5 :: "crypto_lib \<Rightarrow> bytes \<Rightarrow> bytes" where
  "MD5 lib inp = lib_md5 lib inp"

text \<open>\<open>utils.POE\<close>: panic on a non-nil error.\<close>

definition POE :: "go_error option \<Rightarrow> unit outcome" where
  "POE err = (case err of None \<Rightarrow> Ok () | Some e \<Rightarrow> Panic (error_string e))"

text \<open>\<open>aes.NewCipher\<close> takes keys of 16, 24 or 32 bytes; \<open>cipher.NewGCM\<close> takes any AES block.\<close>

definition aes_NewCipher :: "bytes \<Rightarrow> go_error + bytes" where
  "aes_NewCipher k =
     (if length k \<in> {16, 24, 32} then Inr k
      else Inl (Extern ''crypto/aes: invalid key size''))"

definition makeAES128GCM :: "crypto_lib \<Rightarrow> string \<Rightarrow> go_error + aead" where
  "makeAES128GCM lib key =
     (let bkey = MD5 lib (bytes_of_string key) in
      case aes_NewCipher bkey of Inl err \<Rightarrow> Inl err | Inr block \<Rightarrow> Inr (lib_gcm lib block))"

definition makeAES256GCM :: "crypto_lib \<Rightarrow> string \<Rightarrow> go_error + aead" where
  "makeAES256GCM lib key =
     (let bkey = SHA256 lib (bytes_of_string key) in
      case aes_NewCipher bkey of Inl err \<Rightarrow> Inl err | Inr block \<Rightarrow> Inr (lib_gcm lib block))"

text \<open>
  What the AEAD documents: 16 bytes of overhead, opening what was sealed under the same nonce
  gives the plaintext back, and nothing else opens.
\<close>

definition aead_ok :: "aead \<Rightarrow> bool" where
  "aead_ok a \<longleftrightarrow>
     (\<forall>n d. length n = NonceSize a \<longrightarrow>
        length (Seal a n d) = length d + 16 \<and> Open a n (Seal a n d) = Some d) \<and>
     (\<forall>n c d. length n = NonceSize a \<longrightarrow> Open a n c = Some d \<longrightarrow> c = Seal a n d)"

definition crypto_ok :: "crypto_lib \<Rightarrow> bool" where
  "crypto_ok lib \<longleftrightarrow>
     (\<forall>x. length (lib_md5 lib x) = 16) \<and> (\<forall>x. length (lib_sha256 lib x) = 32) \<and>
     (\<forall>k. length k \<in> {16, 24, 32} \<longrightarrow> aead_ok (lib_gcm lib k))"

lemma aead_okD:
  assumes "aead_ok a" and "length n = NonceSize a"
  shows "length (Seal a n d) = length d + 16" and "Open a n (Seal a n d) = Some d"
    and "Open a n c = Some d \<Longrightarrow> c = Seal a n d"
  using assms unfolding aead_ok_def by blast+

text \<open>Under the documented digest sizes, building the AEAD never fails, for any key.\<close>

lemma makeAES_total:
  assumes "crypto_ok lib"
  shows "\<exists>a. makeAES128GCM lib key = Inr a \<and> aead_ok a"
    and "\<exists>a. makeAES256GCM lib key = Inr a \<and> aead_ok a"
  using assms
  by (auto simp: crypto_ok_def makeAES128GCM_def makeAES256GCM_def aes_NewCipher_def
      MD5_def SHA256_def Let_def)

end
