(* ===== verification/Frame.thy ===== *)
theory Frame
  imports Crypto
begin

text \<open>
  The transport's frame format as a specification: one byte that says whether the frame is
  sealed, the body's length as 16 little-endian bits, the body, and the nonce of a sealed frame.
  The two implementations, in \<open>server_conn.go\<close> and \<open>client_conn.go\<close>, are modelled in their own
  theories and shown equal to this one. The locale \<open>frame_codec\<close> is the contract between the
  writing end and the reading end of a connection: frames come out in the order they went in.
\<close>

section \<open>The format\<close>

definition frame_body :: "aead option \<Rightarrow> bytes \<Rightarrow> bytes \<Rightarrow> bytes" where
  "frame_body a nonce data = (case a of None \<Rightarrow> data | Some a \<Rightarrow> Seal a nonce data)"

definition frame :: "aead option \<Rightarrow> bytes \<Rightarrow> bytes \<Rightarrow> bytes" where
  "frame a nonce data =
     (let body = frame_body a nonce data in
      [if a = None then 0 else 1] @ le16 (of_nat (length body)) @ body
        @ (if a = None then [] else nonce))"

definition encode_frame :: "aead option \<Rightarrow> bytes \<Rightarrow> (reader, bytes) go" where
  "encode_frame a data = (case a of
     None \<Rightarrow> go_return (frame None [] data)
   | Some g \<Rightarrow> go_bind (read_full (NonceSize g)) (\<lambda>nonce. go_return (frame a nonce data)))"

text \<open>\<open>auth_err\<close> is the error reported for a body that does not open.\<close>

definition decode_frame :: "go_error \<Rightarrow> aead option \<Rightarrow> (reader, bytes) go" where
  "decode_frame auth_err a =
     go_bind (read_full 1) (\<lambda>secure.
     go_bind (read_full 2) (\<lambda>len.
     go_bind (read_full (unat (of_le16 len))) (\<lambda>body.
       if hd secure = 0 then go_return body
       else (case a of
         None \<Rightarrow> go_panic ''invalid memory address or nil pointer dereference''
       | Some g \<Rightarrow>
         go_bind (read_full (NonceSize g)) (\<lambda>nonce.
           case Open g nonce body of
             None \<Rightarrow> go_fail auth_err
           | Some plain \<Rightarrow> go_return plain)))))"

section \<open>Repeated reads\<close>

inductive reads :: "('s, 'a) go \<Rightarrow> 's \<Rightarrow> 'a list \<Rightarrow> 's \<Rightarrow> bool" for p where
  reads_Nil: "reads p r [] r"
| reads_Cons: "p r = (Ok x, r1) \<Longrightarrow> reads p r1 xs r2 \<Longrightarrow> reads p r (x # xs) r2"

inductive_simps reads_Nil_simp [simp]: "reads p r [] r'"
inductive_simps reads_Cons_simp: "reads p r (x # xs) r'"

lemma reads_append: "reads p r xs r1 \<Longrightarrow> reads p r1 ys r2 \<Longrightarrow> reads p r (xs @ ys) r2"
  by (induction rule: reads.induct) (auto intro: reads.intros)

lemma reads_det:
  "reads p r xs r1 \<Longrightarrow> reads p r ys r2 \<Longrightarrow> length xs = length ys \<Longrightarrow> xs = ys \<and> r1 = r2"
proof (induction arbitrary: ys rule: reads.induct)
  case (reads_Nil r)
  then show ?case by simp
next
  case (reads_Cons r x r1 xs r2)
  then show ?case by (cases ys) (auto simp: reads_Cons_simp)
qed

section \<open>The contract between the two ends\<close>

locale frame_codec =
  fixes dec :: "'c \<Rightarrow> reader \<Rightarrow> bytes outcome \<times> reader"
    and frm :: "'c \<Rightarrow> bytes \<Rightarrow> bytes \<Rightarrow> bytes"
    and fits :: "'c \<Rightarrow> bytes \<Rightarrow> bytes \<Rightarrow> bool"
  assumes parser: "stream_reader (dec c)"
    and roundtrip: "fits c n d \<Longrightarrow>
      dec c \<lparr>rd_data = frm c n d @ rest, rd_end = e\<rparr> = (Ok d, \<lparr>rd_data = rest, rd_end = e\<rparr>)"
    and progress: "dec c r = (Ok d, r') \<Longrightarrow> length (rd_data r') < length (rd_data r)"
begin

lemma frames_in_order:
  assumes "\<forall>(n, d) \<in> set nds. fits c n d"
  shows "reads (dec c) \<lparr>rd_data = concat (map (\<lambda>(n, d). frm c n d) nds) @ rest, rd_end = e\<rparr>
           (map snd nds) \<lparr>rd_data = rest, rd_end = e\<rparr>"
  using assms
proof (induction nds)
  case Nil
  then show ?case by (simp add: reads.intros)
next
  case (Cons nd nds)
  obtain n d where nd: "nd = (n, d)" by fastforce
  with Cons.prems have "fits c n d" by simp
  then have "dec c \<lparr>rd_data = frm c n d @ concat (map (\<lambda>(n, d). frm c n d) nds) @ rest, rd_end = e\<rparr>
    = (Ok d, \<lparr>rd_data = concat (map (\<lambda>(n, d). frm c n d) nds) @ rest, rd_end = e\<rparr>)"
    by (rule roundtrip)
  with Cons nd show ?case by (auto intro: reads.reads_Cons)
qed

text \<open>At most as many messages come out as the stream has bytes.\<close>

lemma reads_bounded:
  "reads (dec c) r ds r' \<Longrightarrow> length ds + length (rd_data r') \<le> length (rd_data r)"
proof (induction rule: reads.induct)
  case (reads_Nil r)
  then show ?case by simp
next
  case (reads_Cons r x r1 xs r2)
  then show ?case using progress [of c r x r1] by simp
qed

text \<open>What is delivered from a stream is a prefix of what is delivered when more bytes follow.\<close>

lemma reads_extends:
  "reads (dec c) r ds r' \<Longrightarrow>
   reads (dec c) (r\<lparr>rd_data := rd_data r @ ext\<rparr>) ds (r'\<lparr>rd_data := rd_data r' @ ext\<rparr>)"
proof (induction rule: reads.induct)
  case (reads_Nil r)
  then show ?case by simp
next
  case (reads_Cons r x r1 xs r2)
  from stream_reader.extends [OF parser reads_Cons.hyps(1), of ext] reads_Cons.IH
  show ?case by (auto intro: reads.reads_Cons)
qed

end

section \<open>The format satisfies the contract\<close>

definition frame_fits :: "aead option \<Rightarrow> bytes \<Rightarrow> bytes \<Rightarrow> bool" where
  "frame_fits a nonce data \<longleftrightarrow> (case a of
     None \<Rightarrow> length data < 65536
   | Some g \<Rightarrow> aead_ok g \<and> length nonce = NonceSize g \<and> length data + 16 < 65536)"

lemma frame_fits_body: "frame_fits a n d \<Longrightarrow> length (frame_body a n d) < 65536"
  by (auto simp: frame_fits_def frame_body_def aead_okD(1) split: option.splits)

lemma unat_le16_len: "n < 65536 \<Longrightarrow> unat (of_nat n :: u16) = n"
  by (simp add: unat_of_nat)

lemma decode_frame_parser: "stream_reader (decode_frame e a)"
  unfolding decode_frame_def
  by (intro stream_reader_intros)
    (auto intro!: stream_reader_intros split: option.splits)

lemma decode_frame_frame:
  assumes fits: "frame_fits a n d"
  shows "decode_frame err a \<lparr>rd_data = frame a n d @ rest, rd_end = e\<rparr>
    = (Ok d, \<lparr>rd_data = rest, rd_end = e\<rparr>)"
proof (cases a)
  case None
  with fits show ?thesis
    using read_full_append [of "[0]" 1] frame_fits_body [OF fits]
    by (simp add: decode_frame_def frame_def frame_body_def go_simps Let_def unat_le16_len)
next
  case (Some g)
  with fits have len: "length n = NonceSize g" and ok: "aead_ok g"
    by (simp_all add: frame_fits_def)
  with Some show ?thesis
    using read_full_append [of "[1]" 1] frame_fits_body [OF fits]
    by (simp add: decode_frame_def frame_def frame_body_def go_simps Let_def unat_le16_len
        aead_okD(2) [OF ok len])
qed

lemma decode_frame_OkD:
  assumes "decode_frame err a r = (Ok d, r')"
  shows "\<exists>b len body. length len = 2 \<and> length body = unat (of_le16 len) \<and>
    (b = 0 \<and> body = d \<and> rd_data r = [b] @ len @ body @ rd_data r' \<or>
     b \<noteq> 0 \<and> (\<exists>g n. a = Some g \<and> length n = NonceSize g \<and> Open g n body = Some d
       \<and> rd_data r = [b] @ len @ body @ n @ rd_data r'))"
proof -
  from assms obtain s r1 l r2 body r3 where
    rd: "read_full 1 r = (Ok s, r1)" "read_full 2 r1 = (Ok l, r2)"
      "read_full (unat (of_le16 l)) r2 = (Ok body, r3)"
    and k: "(if hd s = 0 then go_return body else (case a of
         None \<Rightarrow> go_panic ''invalid memory address or nil pointer dereference''
       | Some g \<Rightarrow> go_bind (read_full (NonceSize g)) (\<lambda>nonce.
           case Open g nonce body of None \<Rightarrow> go_fail err
           | Some plain \<Rightarrow> go_return plain))) r3 = (Ok d, r')"
    unfolding decode_frame_def by (elim go_bind_OkE) (rule that; assumption)
  note D = read_full_OkD [OF rd(1)] read_full_OkD [OF rd(2)] read_full_OkD [OF rd(3)]
  from D(3) obtain b where s: "s = [b]" by (auto simp: length_Suc_conv)
  show ?thesis
  proof (cases "b = 0")
    case True
    with k s have "body = d" "r3 = r'" by (simp_all add: go_return_def)
    with True s D show ?thesis by (intro exI [of _ b] exI [of _ l] exI [of _ body]) simp
  next
    case False
    with k s obtain g n r4 where a: "a = Some g"
      and n: "read_full (NonceSize g) r3 = (Ok n, r4)"
      and op: "(case Open g n body of None \<Rightarrow> go_fail err
           | Some plain \<Rightarrow> go_return plain) r4 = (Ok d, r')"
      by (auto simp: go_panic_def split: option.splits elim: go_bind_OkE)
    from op have "Open g n body = Some d" "r4 = r'"
      by (auto simp: go_basic_defs split: option.splits)
    with False s D a read_full_OkD [OF n] show ?thesis
      by (intro exI [of _ b] exI [of _ l] exI [of _ body]) auto
  qed
qed
lemma decode_frame_progress:
  assumes "decode_frame err a r = (Ok d, r')"
  shows "length (rd_data r') < length (rd_data r)"
proof (rule go_bind_progress [OF assms [unfolded decode_frame_def]])
  show "length (rd_data r1) < length (rd_data r)" if "read_full 1 r = (Ok x, r1)" for x r1
    using read_full_progress [of 0 r x r1] that by simp
qed (intro stream_reader_intros, auto intro!: stream_reader_intros split: option.splits)

interpretation spec_codec: frame_codec "decode_frame err" frame frame_fits for err
  by (rule frame_codec.intro)
    (fact decode_frame_parser decode_frame_frame decode_frame_progress)+

section \<open>The contract of the writing end\<close>

definition nonce_len :: "aead option \<Rightarrow> nat" where
  "nonce_len a = (case a of None \<Rightarrow> 0 | Some g \<Rightarrow> NonceSize g)"

text \<open>Writing message after message, until one write fails.\<close>

fun write_seq :: "(bytes \<Rightarrow> ('s, unit) go) \<Rightarrow> bytes list \<Rightarrow> ('s, unit) go" where
  "write_seq wr [] s = (Ok (), s)"
| "write_seq wr (d # ds) s = go_bind (wr d) (\<lambda>_. write_seq wr ds) s"

lemma frame_None_nonce: "frame None n d = frame None [] d"
  by (simp add: frame_def frame_body_def)

text \<open>An encoded frame is \<open>frame\<close> under the nonce drawn from the entropy source.\<close>

lemma encode_frame_Ok:
  assumes "nonce_len a \<le> length (rd_data r)"
  shows "encode_frame a d r = (Ok (frame a (take (nonce_len a) (rd_data r)) d),
           r\<lparr>rd_data := drop (nonce_len a) (rd_data r)\<rparr>)"
  using assms
  by (cases a) (simp_all add: encode_frame_def nonce_len_def go_simps read_full_def go_bind_def)

locale frame_writer =
  fixes wr :: "bytes \<Rightarrow> 's \<times> reader \<Rightarrow> unit outcome \<times> 's \<times> reader"
    and out :: "'s \<Rightarrow> bytes"
    and ctx :: "'s \<Rightarrow> aead option"
    and ready :: "'s \<Rightarrow> bool"
  assumes write_frame: "ready s \<Longrightarrow> nonce_len (ctx s) \<le> length (rd_data r) \<Longrightarrow>
     \<exists>s'. wr d (s, r) = (Ok (), (s', r\<lparr>rd_data := drop (nonce_len (ctx s)) (rd_data r)\<rparr>))
       \<and> out s' = out s @ frame (ctx s) (take (nonce_len (ctx s)) (rd_data r)) d
       \<and> ctx s' = ctx s \<and> ready s'"
begin

lemma write_seq_frames:
  assumes "ready s" and "length ds * nonce_len (ctx s) \<le> length (rd_data r)"
  shows "\<exists>s' r' ns. write_seq wr ds (s, r) = (Ok (), (s', r'))
     \<and> length ns = length ds \<and> (\<forall>n \<in> set ns. length n = nonce_len (ctx s))
     \<and> out s' = out s @ concat (map (\<lambda>(n, d). frame (ctx s) n d) (zip ns ds))
     \<and> ctx s' = ctx s \<and> ready s'"
  using assms
proof (induction ds arbitrary: s r)
  case Nil
  then show ?case by auto
next
  case (Cons d ds)
  let ?k = "nonce_len (ctx s)" and ?n = "take (nonce_len (ctx s)) (rd_data r)"
  from Cons.prems have k: "?k \<le> length (rd_data r)" by simp
  from write_frame [OF Cons.prems(1) k] obtain s1
    where s1: "wr d (s, r) = (Ok (), (s1, r\<lparr>rd_data := drop ?k (rd_data r)\<rparr>))"
      "out s1 = out s @ frame (ctx s) ?n d" "ctx s1 = ctx s" "ready s1"
    by blast
  have "length ds * nonce_len (ctx s1) \<le> length (rd_data (r\<lparr>rd_data := drop ?k (rd_data r)\<rparr>))"
    using Cons.prems(2) s1(3) by simp
  from Cons.IH [OF s1(4) this] s1(3) obtain s2 r2 ns
    where ih: "write_seq wr ds (s1, r\<lparr>rd_data := drop ?k (rd_data r)\<rparr>) = (Ok (), (s2, r2))"
      "length ns = length ds" "\<forall>n \<in> set ns. length n = ?k"
      "out s2 = out s1 @ concat (map (\<lambda>(n, d). frame (ctx s) n d) (zip ns ds))"
      "ctx s2 = ctx s1" "ready s2"
    by auto
  have "write_seq wr (d # ds) (s, r) = (Ok (), (s2, r2))"
    using s1(1) ih(1) by (simp add: go_bind_def)
  with s1 ih k show ?case
    by (intro exI [of _ s2] exI [of _ r2] exI [of _ "?n # ns"]) simp
qed

end

end
