(* ===== verification/GoNet.thy ===== *)
theory GoNet
  imports GoIO
begin

text \<open>
  The parts of Go's \<open>strconv\<close>, \<open>strings\<close> and \<open>net\<close> packages the program uses: decimal and
  hexadecimal text, splitting, IP addresses as byte slices with their textual form, and
  \<open>net.ParseCIDR\<close>. Parsing an IPv6 literal is an argument of \<open>parse_cidr\<close>. Main result: the dotted
  text of an IPv4 address parses back to it, so equal texts mean equal addresses.
\<close>

section \<open>Text\<close>

definition digit_char :: "nat \<Rightarrow> char" where
  "digit_char n = char_of (48 + n)"

fun nat_text :: "nat \<Rightarrow> string" where
  "nat_text n = (if n < 10 then [digit_char n] else nat_text (n div 10) @ [digit_char (n mod 10)])"

declare nat_text.simps [simp del]

definition itoa :: "int \<Rightarrow> string" where
  "itoa i = (if i < 0 then ''-'' @ nat_text (nat (- i)) else nat_text (nat i))"

definition hex_char :: "nat \<Rightarrow> char" where
  "hex_char n = (if n < 10 then char_of (48 + n) else char_of (87 + n))"

fun hex_text :: "nat \<Rightarrow> string" where
  "hex_text n = (if n < 16 then [hex_char n] else hex_text (n div 16) @ [hex_char (n mod 16)])"

declare hex_text.simps [simp del]

fun str_contains :: "string \<Rightarrow> string \<Rightarrow> bool" where
  "str_contains sub [] = (sub = [])"
| "str_contains sub (c # cs) = (take (length sub) (c # cs) = sub \<or> str_contains sub cs)"

text \<open>\<open>strings.Split\<close> with a one-byte separator.\<close>

fun str_split :: "char \<Rightarrow> string \<Rightarrow> string list" where
  "str_split sep [] = [[]]"
| "str_split sep (c # cs) =
     (if c = sep then [] # str_split sep cs
      else (case str_split sep cs of x # xs \<Rightarrow> (c # x) # xs | [] \<Rightarrow> [[c]]))"

fun str_join :: "string \<Rightarrow> string list \<Rightarrow> string" where
  "str_join sep [] = []"
| "str_join sep [x] = x"
| "str_join sep (x # y # xs) = x @ sep @ str_join sep (y # xs)"

lemma str_split_not_Nil [simp]: "str_split sep s \<noteq> []"
  by (induction s) (auto split: list.splits)

lemma str_split_free: "sep \<notin> set s \<Longrightarrow> str_split sep s = [s]"
  by (induction s) auto

lemma str_split_Cons:
  "sep \<notin> set x \<Longrightarrow> str_split sep (x @ sep # rest) = x # str_split sep rest"
  by (induction x) auto

definition join_host_port :: "string \<Rightarrow> string \<Rightarrow> string" where
  "join_host_port host port =
     (if CHR '':'' \<in> set host then ''['' @ host @ '']:'' @ port else host @ '':'' @ port)"

section \<open>IP addresses\<close>

text \<open>A \<open>net.IP\<close> is a byte slice; the nil slice is the empty list.\<close>

definition v4_in_v6 :: "bytes \<Rightarrow> bytes" where
  "v4_in_v6 ip = replicate 10 0 @ [255, 255] @ ip"

definition ip_to4 :: "bytes \<Rightarrow> bytes option" where
  "ip_to4 ip =
     (if length ip = 4 then Some ip
      else if length ip = 16 \<and> take 12 ip = replicate 10 0 @ [255, 255] then Some (drop 12 ip)
      else None)"

definition ip_to16 :: "bytes \<Rightarrow> bytes option" where
  "ip_to16 ip =
     (if length ip = 4 then Some (v4_in_v6 ip) else if length ip = 16 then Some ip else None)"

definition dotted :: "bytes \<Rightarrow> string" where
  "dotted bs = str_join ''.'' (map (\<lambda>b. nat_text (unat b)) bs)"

text \<open>IPv6 text: eight groups, the longest run of at least two zero groups written \<open>::\<close>.\<close>

fun ip_groups :: "bytes \<Rightarrow> nat list" where
  "ip_groups (a # b # bs) = (unat a * 256 + unat b) # ip_groups bs"
| "ip_groups _ = []"

definition zero_run :: "nat list \<Rightarrow> nat" where
  "zero_run gs = length (takeWhile (\<lambda>g. g = 0) gs)"

text \<open>The scan for the run \<open>(e0, e1)\<close>: the first longest one, \<open>(0, 0)\<close> when there is none.\<close>

fun find_run :: "nat \<Rightarrow> nat \<Rightarrow> nat list \<Rightarrow> nat \<times> nat \<Rightarrow> nat \<times> nat" where
  "find_run 0 i gs e = e"
| "find_run (Suc fuel) i gs (e0, e1) =
     (if length gs \<le> i then (e0, e1)
      else let z = zero_run (drop i gs) in
        if 0 < z \<and> e1 - e0 < z then find_run fuel (i + z + 1) gs (i, i + z)
        else find_run fuel (i + 1) gs (e0, e1))"

definition ipv6_text :: "bytes \<Rightarrow> string" where
  "ipv6_text ip = (let gs = ip_groups ip; (e0, e1) = find_run 8 0 gs (0, 0);
                       txt = (\<lambda>xs. str_join '':'' (map hex_text xs)) in
     (if e1 - e0 \<le> 1 then txt gs else txt (take e0 gs) @ ''::'' @ txt (drop e1 gs)))"

definition ip_string :: "bytes \<Rightarrow> string" where
  "ip_string ip =
     (if ip = [] then ''<nil>''
      else case ip_to4 ip of
        Some p4 \<Rightarrow> dotted p4
      | None \<Rightarrow>
          if length ip \<noteq> 16
          then ''?'' @ concat (map (\<lambda>b. [hex_char (unat b div 16), hex_char (unat b mod 16)]) ip)
          else ipv6_text ip)"

section \<open>Parsing\<close>

definition is_digit :: "char \<Rightarrow> bool" where
  "is_digit c \<longleftrightarrow> 48 \<le> (of_char c :: nat) \<and> (of_char c :: nat) \<le> 57"

definition dtoi_big :: nat where
  "dtoi_big = 16777215"

text \<open>\<open>dtoi\<close>: the number, how many characters it takes, and whether it is one.\<close>

fun dtoi_loop :: "nat \<Rightarrow> nat \<Rightarrow> string \<Rightarrow> nat \<times> nat \<times> bool" where
  "dtoi_loop n i [] = (n, i, 0 < i)"
| "dtoi_loop n i (c # cs) =
     (if is_digit c
      then let n' = n * 10 + (of_char c - 48) in
        if dtoi_big \<le> n' then (dtoi_big, i, False) else dtoi_loop n' (Suc i) cs
      else (if i = 0 then (0, 0, False) else (n, i, True)))"

definition dtoi :: "string \<Rightarrow> nat \<times> nat \<times> bool" where
  "dtoi s = dtoi_loop 0 0 s"

fun parse_octets :: "nat \<Rightarrow> bool \<Rightarrow> string \<Rightarrow> bytes option" where
  "parse_octets 0 first s = (if s = [] then Some [] else None)"
| "parse_octets (Suc k) first s =
     (if s = [] \<or> (\<not> first \<and> hd s \<noteq> CHR ''.'') then None
      else let s' = (if first then s else tl s); (n, c, ok) = dtoi s' in
        if \<not> ok \<or> 255 < n \<or> (1 < c \<and> hd s' = CHR ''0'') then None
        else map_option (\<lambda>bs. of_nat n # bs) (parse_octets k False (drop c s')))"

definition parse_ipv4 :: "string \<Rightarrow> bytes option" where
  "parse_ipv4 s = map_option v4_in_v6 (parse_octets 4 True s)"

definition cidr_mask :: "nat \<Rightarrow> nat \<Rightarrow> bytes" where
  "cidr_mask n len = map (\<lambda>i. if 8 * (i + 1) \<le> n then 255
     else if n \<le> 8 * i then 0 else NOT (drop_bit (n - 8 * i) 255)) [0..<len]"

definition parse_cidr :: "(string \<Rightarrow> bytes option) \<Rightarrow> string \<Rightarrow> go_error + (bytes \<times> bytes)" where
  "parse_cidr parse_ipv6 s =
     (let bad = Inl (Extern (''invalid CIDR address: '' @ s)) in
      if CHR ''/'' \<notin> set s then bad
      else let addr = takeWhile (\<lambda>c. c \<noteq> CHR ''/'') s;
               mask = tl (dropWhile (\<lambda>c. c \<noteq> CHR ''/'') s);
               (iplen, ip) = (case parse_ipv4 addr of
                  Some ip \<Rightarrow> (4, Some ip) | None \<Rightarrow> (16, parse_ipv6 addr));
               (n, i, ok) = dtoi mask in
        case ip of None \<Rightarrow> bad
        | Some ip \<Rightarrow> if \<not> ok \<or> i \<noteq> length mask \<or> 8 * iplen < n then bad
                   else Inr (ip, cidr_mask n iplen))"

section \<open>Decimal text reads back\<close>

lemma of_char_digit_char [simp]: "d < 10 \<Longrightarrow> (of_char (digit_char d) :: nat) = 48 + d"
  by (simp add: digit_char_def)

lemma digit_char_0: "digit_char 0 = CHR ''0''"
proof -
  have "(of_char (digit_char 0) :: nat) = of_char CHR ''0''" by simp
  then show ?thesis by (simp only: of_char_eq_iff)
qed

lemma is_digit_digit_char [simp]: "d < 10 \<Longrightarrow> is_digit (digit_char d)"
  by (simp add: is_digit_def)

lemma nat_text_not_Nil [simp]: "nat_text n \<noteq> []"
  by (subst nat_text.simps) simp

lemma nat_text_digits: "c \<in> set (nat_text n) \<Longrightarrow> is_digit c"
proof (induction n rule: nat_text.induct)
  case (1 n)
  then show ?case by (subst (asm) nat_text.simps) (auto split: if_splits)
qed

lemma dtoi_loop_nat_text:
  "n < dtoi_big \<Longrightarrow> dtoi_loop 0 0 (nat_text n @ rest) = dtoi_loop n (length (nat_text n)) rest"
proof (induction n arbitrary: rest rule: nat_text.induct)
  case (1 n)
  show ?case
  proof (cases "n < 10")
    case True
    then show ?thesis
      using "1.prems" by (simp add: nat_text.simps [of n])
  next
    case False
    then have nt: "nat_text n = nat_text (n div 10) @ [digit_char (n mod 10)]"
      by (simp add: nat_text.simps [of n])
    have "n div 10 < dtoi_big" using "1.prems" by simp
    with False "1.IH" show ?thesis
      using "1.prems" by (simp add: nt Let_def)
  qed
qed

definition starts_digit :: "string \<Rightarrow> bool" where
  "starts_digit s \<longleftrightarrow> s \<noteq> [] \<and> is_digit (hd s)"

lemma dtoi_nat_text:
  assumes "n < dtoi_big" and "\<not> starts_digit rest"
  shows "dtoi (nat_text n @ rest) = (n, length (nat_text n), True)"
  using assms dtoi_loop_nat_text [of n rest]
  by (cases rest) (simp_all add: dtoi_def starts_digit_def)

lemma nat_text_leading_zero: "1 < length (nat_text n) \<Longrightarrow> hd (nat_text n) \<noteq> CHR ''0''"
proof (induction n rule: nat_text.induct)
  case (1 n)
  then have ge: "\<not> n < 10" by (subst (asm) nat_text.simps) (auto split: if_splits)
  then have nt: "nat_text n = nat_text (n div 10) @ [digit_char (n mod 10)]"
    by (simp add: nat_text.simps [of n])
  show ?case
  proof (cases "n div 10 < 10")
    case True
    have "digit_char (n div 10) \<noteq> CHR ''0''"
    proof
      assume "digit_char (n div 10) = CHR ''0''"
      then have "(of_char (digit_char (n div 10)) :: nat) = of_char CHR ''0''" by simp
      with True ge show False by simp
    qed
    with True nt show ?thesis by (simp add: nat_text.simps [of "n div 10"])
  next
    case False
    then have "1 < length (nat_text (n div 10))"
      by (simp add: nat_text.simps [of "n div 10"])
    with "1.IH" ge nt show ?thesis by simp
  qed
qed

lemma dot_not_digit [simp]: "\<not> is_digit CHR ''.''"
  by (simp add: is_digit_def)

lemma parse_octet_first:
  assumes "\<not> starts_digit rest"
  shows "parse_octets (Suc k) True (nat_text (unat (b :: u8)) @ rest)
    = map_option (\<lambda>bs. b # bs) (parse_octets k False rest)"
proof -
  have le: "unat b \<le> 255" using unat_u8_less [of b] by linarith
  then have "unat b < dtoi_big" unfolding dtoi_big_def by linarith
  then have "dtoi (nat_text (unat b) @ rest) = (unat b, length (nat_text (unat b)), True)"
    using assms by (rule dtoi_nat_text)
  with le show ?thesis
    using nat_text_leading_zero [of "unat b"] by (auto simp: Let_def)
qed

lemma parse_octet_next:
  assumes "\<not> starts_digit rest"
  shows "parse_octets (Suc k) False (''.'' @ nat_text (unat (b :: u8)) @ rest)
    = map_option (\<lambda>bs. b # bs) (parse_octets k False rest)"
  using parse_octet_first [OF assms, of k b] by simp

lemma parse_octets_dotted:
  "parse_octets 4 True (dotted [a, b, c, d]) = Some [a, b, c, d]"
proof -
  have four: "(4 :: nat) = Suc (Suc (Suc (Suc 0)))" by simp
  have "dotted [a, b, c, d] =
      nat_text (unat a) @ (''.'' @ nat_text (unat b) @ (''.'' @ nat_text (unat c) @
        (''.'' @ nat_text (unat d) @ [])))"
    by (simp add: dotted_def)
  moreover have nd: "\<not> starts_digit (''.'' @ s)" "\<not> starts_digit []" for s
    by (simp_all add: starts_digit_def)
  ultimately show ?thesis
    unfolding four
    by (simp only: parse_octet_first parse_octet_next nd not_False_eq_True
        parse_octets.simps(1) simp_thms if_True option.map)
qed

lemma parse_ipv4_dotted:
  assumes "length ip = 4"
  shows "parse_ipv4 (dotted ip) = Some (v4_in_v6 ip)"
proof -
  obtain a b c d where "ip = [a, b, c, d]"
    using assms by (auto simp: length_Suc_conv eval_nat_numeral)
  then show ?thesis by (simp add: parse_ipv4_def parse_octets_dotted)
qed

section \<open>Facts about addresses\<close>

lemma ip_to4_v4_in_v6 [simp]: "length ip = 4 \<Longrightarrow> ip_to4 (v4_in_v6 ip) = Some ip"
  by (simp add: ip_to4_def v4_in_v6_def)

lemma ip_to4_length4 [simp]: "length ip = 4 \<Longrightarrow> ip_to4 ip = Some ip"
  by (simp add: ip_to4_def)

lemma ip_string_4: "length ip = 4 \<Longrightarrow> ip_string ip = dotted ip"
  by (auto simp: ip_string_def)

lemma ip_string_v4_in_v6 [simp]: "length ip = 4 \<Longrightarrow> ip_string (v4_in_v6 ip) = dotted ip"
  by (simp add: ip_string_def) (simp add: v4_in_v6_def)

lemma dotted_inj:
  assumes "length x = 4" and "length y = 4"
  shows "dotted x = dotted y \<longleftrightarrow> x = y"
proof
  assume "dotted x = dotted y"
  then have "Some (v4_in_v6 x) = Some (v4_in_v6 y)"
    using parse_ipv4_dotted [OF assms(1)] parse_ipv4_dotted [OF assms(2)] by metis
  then show "x = y" by (simp only: v4_in_v6_def option.inject append_same_eq same_append_eq)
qed simp

lemma slash_not_digit [simp]: "\<not> is_digit CHR ''/''"
  by (simp add: is_digit_def)

lemma dotted_chars:
  assumes "c \<in> set (dotted ip)"
  shows "c = CHR ''.'' \<or> is_digit c"
proof -
  have join: "\<forall>x \<in> set xs. \<forall>c \<in> set x. is_digit c \<Longrightarrow> c \<in> set (str_join ''.'' xs)
      \<Longrightarrow> c = CHR ''.'' \<or> is_digit c" for xs
    by (induction "''.''" xs rule: str_join.induct) auto
  show ?thesis
    using assms unfolding dotted_def by (rule join [rotated]) (auto dest: nat_text_digits)
qed

text \<open>The textual form of an IPv4 address with its prefix length parses.\<close>

lemma parse_cidr_dotted:
  assumes ip: "length ip = 4" and n: "n \<le> 32"
  shows "parse_cidr p6 (dotted ip @ ''/'' @ nat_text n) = Inr (v4_in_v6 ip, cidr_mask n 4)"
proof -
  have free: "CHR ''/'' \<notin> set (dotted ip)"
    using dotted_chars [of "CHR ''/''" ip] by auto
  have addr: "takeWhile (\<lambda>c. c \<noteq> CHR ''/'') (dotted ip @ ''/'' @ nat_text n) = dotted ip"
    using free by (subst takeWhile_append2) auto
  have msk: "dropWhile (\<lambda>c. c \<noteq> CHR ''/'') (dotted ip @ ''/'' @ nat_text n) = ''/'' @ nat_text n"
    using free by (subst dropWhile_append2) auto
  have "dtoi (nat_text n @ []) = (n, length (nat_text n), True)"
    using n by (intro dtoi_nat_text) (simp_all add: dtoi_big_def starts_digit_def)
  with n show ?thesis
    unfolding parse_cidr_def addr msk by (simp add: parse_ipv4_dotted [OF ip])
qed

lemma length_cidr_mask [simp]: "length (cidr_mask n len) = len"
  by (simp add: cidr_mask_def)

end
