(* ===== verification/Iface.thy ===== *)
theory Iface
  imports GoNet
begin

text \<open>
  \<open>iface/packet_ip.go\<close> and \<open>iface/iface.go\<close>: IP packets as byte slices and the TUN interface.
  A slice is its backing array, from its first byte to its capacity, and its length; reslicing
  \<open>p[i:j]\<close> is bounded by the capacity. The TUN device (\<open>songgao/water\<close>) and the commands run
  through \<open>os/exec\<close> are the environment \<open>sys_env\<close>; the commands run are recorded.
\<close>

section \<open>Packets\<close>

record packet_ip =
  pk_arr :: bytes
  pk_len :: nat

definition pk_wf :: "packet_ip \<Rightarrow> bool" where
  "pk_wf p \<longleftrightarrow> pk_len p \<le> length (pk_arr p)"

definition pk_bytes :: "packet_ip \<Rightarrow> bytes" where
  "pk_bytes p = take (pk_len p) (pk_arr p)"

definition NewPacketIP :: "int \<Rightarrow> packet_ip outcome" where
  "NewPacketIP sz =
     (if sz < 0 then Panic ''runtime error: makeslice: len out of range''
      else Ok \<lparr>pk_arr = replicate (nat sz) 0, pk_len = nat sz\<rparr>)"

definition pk_slice :: "packet_ip \<Rightarrow> nat \<Rightarrow> nat \<Rightarrow> bytes outcome" where
  "pk_slice p i j =
     (if i \<le> j \<and> j \<le> length (pk_arr p) then Ok (take (j - i) (drop i (pk_arr p)))
      else Panic ''runtime error: slice bounds out of range'')"

definition GetSourceIP :: "packet_ip \<Rightarrow> bytes outcome" where
  "GetSourceIP p = pk_slice p 12 16"

definition GetDestinationIP :: "packet_ip \<Rightarrow> bytes outcome" where
  "GetDestinationIP p = pk_slice p 16 20"

lemma GetSourceIP_cases:
  "GetSourceIP p =
     (if 16 \<le> length (pk_arr p) then Ok (take 4 (drop 12 (pk_arr p)))
      else Panic ''runtime error: slice bounds out of range'')"
  by (simp add: GetSourceIP_def pk_slice_def)

lemma GetDestinationIP_cases:
  "GetDestinationIP p =
     (if 20 \<le> length (pk_arr p) then Ok (take 4 (drop 16 (pk_arr p)))
      else Panic ''runtime error: slice bounds out of range'')"
  by (simp add: GetDestinationIP_def pk_slice_def)

lemma GetDestinationIP_length: "GetDestinationIP p = Ok d \<Longrightarrow> length d = 4"
  by (auto simp: GetDestinationIP_cases split: if_splits)

section \<open>The interface\<close>

record sys_env =
  env_goos :: string
  env_parse_ipv6 :: "string \<Rightarrow> bytes option"
  env_water_New :: "go_error + string"
  env_exec :: "string list \<Rightarrow> string \<times> go_error option"

record iface =
  if_name :: string
  if_ip :: string
  if_mtu :: int
  if_ifce :: "string option"

definition Iface_New :: "string \<Rightarrow> string \<Rightarrow> int \<Rightarrow> iface" where
  "Iface_New name ip mtu = \<lparr>if_name = name, if_ip = ip, if_mtu = mtu, if_ifce = None\<rparr>"

text \<open>\<open>Name\<close> dereferences the device; on a nil device it panics.\<close>

definition Iface_Name :: "iface \<Rightarrow> string outcome" where
  "Iface_Name i = (case if_ifce i of
     Some n \<Rightarrow> Ok n | None \<Rightarrow> Panic ''invalid memory address or nil pointer dereference'')"

definition AddSysRoute :: "sys_env \<Rightarrow> bytes \<Rightarrow> (string list list, unit) go" where
  "AddSysRoute env ip cmds =
     (let ipdot = str_split CHR ''.'' (ip_string ip);
          subnet = str_join ''.'' (butlast ipdot) @ ''.0'';
          cmd = [''route'', ''add'', ''-net'', subnet, ip_string ip];
          (output, err) = env_exec env cmd in
      case err of
        Some e \<Rightarrow> (Panic (''err: '' @ error_string e @ '' '' @ output), cmds @ [cmd])
      | None \<Rightarrow> (Ok (), cmds @ [cmd]))"

text \<open>\<open>mask[0]\<close> to \<open>mask[3]\<close>: a mask has 4 or 16 bytes.\<close>

definition netmask_text :: "bytes \<Rightarrow> string" where
  "netmask_text msk = dotted (take 4 msk)"

definition Iface_Start :: "sys_env \<Rightarrow> iface \<times> string list list \<Rightarrow> unit outcome \<times> iface \<times> string list list" where
  "Iface_Start env st = (case st of (i, cmds) \<Rightarrow>
     case parse_cidr (env_parse_ipv6 env) (if_ip i) of
       Inl err \<Rightarrow> (Err err, i, cmds)
     | Inr (ip, msk) \<Rightarrow>
       (case env_water_New env of
          Inl err \<Rightarrow> (Err err, i, cmds)
        | Inr name \<Rightarrow>
          let i = i\<lparr>if_ifce := Some name\<rparr>;
              netmask = netmask_text msk;
              cmd = (if env_goos env = ''darwin''
                     then [''ifconfig'', name, ip_string ip, ip_string ip, ''netmask'', netmask,
                           ''mtu'', itoa (if_mtu i), ''up'']
                     else [''ifconfig'', name, ip_string ip, ''netmask'', netmask,
                           ''mtu'', itoa (if_mtu i), ''up'']);
              (output, err) = env_exec env cmd in
          (case err of
             Some e \<Rightarrow> (Err (Errorf (''err: '' @ error_string e @ '' '' @ output)), i, cmds @ [cmd])
           | None \<Rightarrow>
               if env_goos env = ''darwin''
               then (case AddSysRoute env ip (cmds @ [cmd]) of (r, cmds') \<Rightarrow> (r, i, cmds'))
               else (Ok (), i, cmds @ [cmd]))))"

text \<open>
  Reading a packet from the device fills the slice from its start, at most its length, and leaves
  the bytes behind as they were; writing hands the slice's bytes to the device.
\<close>

definition Iface_Read :: "bytes \<Rightarrow> packet_ip \<Rightarrow> nat \<times> packet_ip" where
  "Iface_Read frame p =
     (let n = min (length frame) (pk_len p) in
      (n, p\<lparr>pk_arr := take n frame @ drop n (pk_arr p)\<rparr>))"

definition Iface_Write :: "packet_ip \<Rightarrow> bytes list \<Rightarrow> bytes list" where
  "Iface_Write p tun = tun @ [pk_bytes p]"

lemma Iface_Read_wf: "pk_wf p \<Longrightarrow> pk_wf (snd (Iface_Read frame p))"
  by (auto simp: Iface_Read_def pk_wf_def Let_def)

lemma Iface_Read_len [simp]: "pk_len (snd (Iface_Read frame p)) = pk_len p"
  by (simp add: Iface_Read_def Let_def)

text \<open>The subnet of a dotted address: its last number becomes 0.\<close>

lemma nat_text_dot_free: "CHR ''.'' \<notin> set (nat_text n)"
  using nat_text_digits [of "CHR ''.''" n] by auto

lemma split_dotted:
  "str_split CHR ''.'' (dotted [a, b, c, d])
     = map (\<lambda>x. nat_text (unat x)) [a, b, c, d]"
  by (simp add: dotted_def str_split_Cons str_split_free nat_text_dot_free)

lemma subnet_dotted:
  "str_join ''.'' (butlast (str_split CHR ''.'' (dotted [a, b, c, d]))) @ ''.0''
     = dotted [a, b, c, 0]"
  unfolding split_dotted by (simp add: dotted_def nat_text.simps [of 0] digit_char_0)

end
