(* ===== verification/ServerConn.thy ===== *)
theory ServerConn
  imports Frame Protocol Iface
begin

text \<open>
  \<open>transport/server_conn.go\<close>: one client connection on the server. This theory has the record,
  the operations and the two goroutines' bodies as functions; \<open>ServerConnRun\<close> has their
  interleaving. A stream's outgoing half is a \<open>writer\<close>, its incoming half and the entropy
  source are \<open>reader\<close>s. The 65536-byte read buffer appears by its size, which bounds the slices
  taken of it: its bytes are overwritten by each read before they are looked at.
\<close>

section \<open>The connection\<close>

record server_conn =
  sc_conn :: "writer option"
  sc_key :: string
  sc_buf :: nat
  sc_aesgcm :: "aead option"
  sc_handler :: bool
  sc_writeBuf :: bytes
  sc_chanWrite :: "bytes chan"
  sc_chanClose :: "bool chan"
  sc_isClosed :: bool
  sc_noDelay :: bool

definition NewServerConn :: "writer \<Rightarrow> string \<Rightarrow> bool \<Rightarrow> bool \<Rightarrow> server_conn" where
  "NewServerConn conn key handler noDelay =
     \<lparr>sc_conn = Some conn, sc_key = key, sc_buf = 65536, sc_aesgcm = None, sc_handler = handler,
      sc_writeBuf = [], sc_chanWrite = make_chan 2, sc_chanClose = make_chan 1,
      sc_isClosed = False, sc_noDelay = noDelay\<rparr>"

definition sc_Stop :: "(server_conn, unit) go" where
  "sc_Stop sc = (case chan_send True (sc_chanClose sc) of
     (Ok _, cc) \<Rightarrow>
       (case chan_close (sc_chanWrite sc) of
          (Ok _, cw) \<Rightarrow> (Ok (), sc\<lparr>sc_chanClose := cc, sc_chanWrite := cw\<rparr>)
        | (Panic p, cw) \<Rightarrow> (Panic p, sc\<lparr>sc_chanClose := cc\<rparr>)
        | (_, cw) \<Rightarrow> (Block, sc\<lparr>sc_chanClose := cc\<rparr>))
   | (Panic p, cc) \<Rightarrow> (Panic p, sc)
   | (_, cc) \<Rightarrow> (Block, sc))"

definition sc_crypto :: "crypto_lib \<Rightarrow> server_conn \<Rightarrow> go_error option \<times> server_conn" where
  "sc_crypto lib sc =
     (if sc_key sc = [] then (None, sc)
      else case makeAES128GCM lib (sc_key sc) of
        Inl err \<Rightarrow> (Some err, sc\<lparr>sc_aesgcm := None\<rparr>)
      | Inr a \<Rightarrow> (None, sc\<lparr>sc_aesgcm := Some a\<rparr>))"

section \<open>Reading and writing frames\<close>

text \<open>Calling a method of the nil AEAD panics, as does slicing the buffer past its size.\<close>

definition sc_read :: "server_conn \<Rightarrow> (reader, bytes) go" where
  "sc_read sc =
     go_bind (read_full 1) (\<lambda>secure.
     go_bind (read_full 2) (\<lambda>lenb.
     let dataLen = unat (of_le16 lenb) in
     if sc_buf sc < dataLen then go_panic ''runtime error: slice bounds out of range''
     else
     go_bind (read_full dataLen) (\<lambda>body.
     if hd secure = 0 then go_return body
     else (case sc_aesgcm sc of
         None \<Rightarrow> go_panic ''invalid memory address or nil pointer dereference''
       | Some g \<Rightarrow>
           go_bind (read_full (NonceSize g)) (\<lambda>nonce.
           case Open g nonce body of
             None \<Rightarrow> go_fail ErrCiperNotMatch
           | Some plain \<Rightarrow> go_return plain)))))"

text \<open>
  \<open>writeBuf.WriteTo(conn)\<close>: one write of the whole buffer, which keeps what was not written.
\<close>

definition sc_flush :: "bytes \<Rightarrow> writer \<Rightarrow> (server_conn, unit) go" where
  "sc_flush buf w cc = (case wr_write buf w of (res, w') \<Rightarrow>
     (res, cc\<lparr>sc_conn := Some w',
              sc_writeBuf := drop (length (wr_out w') - length (wr_out w)) buf\<rparr>))"

definition sc_write :: "bytes \<Rightarrow> (server_conn \<times> reader, unit) go" where
  "sc_write data st = (case st of (cc, rand) \<Rightarrow>
     case sc_conn cc of
       None \<Rightarrow> (Err (Errorf ''no connection''), (cc, rand))
     | Some w \<Rightarrow>
       (case sc_aesgcm cc of
          None \<Rightarrow>
            let dataLen = (of_nat (length data) :: u16);
                buf = [0] @ le16 dataLen @ data;
                (res, cc') = sc_flush buf w cc
            in (res, (cc', rand))
        | Some g \<Rightarrow>
            (case read_full (NonceSize g) rand of
               (Ok nonce, rand') \<Rightarrow>
                 let data2 = Seal g nonce data;
                     dataLen = (of_nat (length data2) :: u16);
                     buf = [1] @ le16 dataLen @ data2 @ nonce;
                     (res, cc') = sc_flush buf w cc
                 in (res, (cc', rand'))
             | (Err e, rand') \<Rightarrow> (Err e, (cc\<lparr>sc_writeBuf := [1]\<rparr>, rand'))
             | (Panic p, rand') \<Rightarrow> (Panic p, (cc, rand'))
             | (Block, rand') \<Rightarrow> (Block, (cc, rand')))))"

section \<open>Queueing data\<close>

text \<open>\<open>Write\<close> recovers the panic of a send on the closed channel: the data is dropped.\<close>

definition sc_Write :: "bytes \<Rightarrow> (server_conn, unit) go" where
  "sc_Write data cc = (case chan_send data (sc_chanWrite cc) of
     (Ok _, c) \<Rightarrow> (Ok (), cc\<lparr>sc_chanWrite := c\<rparr>)
   | (Panic _, c) \<Rightarrow> (Ok (), cc)
   | (_, c) \<Rightarrow> (Block, cc))"

definition packet_envelope :: "packet_ip \<Rightarrow> envelope" where
  "packet_envelope pkt =
     \<lparr>EType = Some (Envelope_Packet (Some \<lparr>Payload = pk_bytes pkt\<rparr>))\<rparr>"

definition sc_SendPacket :: "codec \<Rightarrow> packet_ip \<Rightarrow> (server_conn, unit) go" where
  "sc_SendPacket c pkt sc = sc_Write (fst (proto_Marshal c (packet_envelope pkt))) sc"

section \<open>The writing goroutine\<close>

text \<open>
  One turn of the loop in \<open>writeProcess\<close>, for the \<open>select\<close> case that is taken. \<open>Ok True\<close> goes
  round again, \<open>Ok False\<close> is the return on stop, \<open>Err\<close> the return on a failed write, \<open>Block\<close>
  a case that is not ready. A receive from the closed, empty channel yields the nil slice.
\<close>

datatype wp_case = CaseWrite | CaseClose

definition sc_write_turn :: "wp_case \<Rightarrow> (server_conn \<times> reader, bool) go" where
  "sc_write_turn sel st = (case st of (cc, rand) \<Rightarrow>
     case sel of
       CaseWrite \<Rightarrow>
         (case chan_recv (sc_chanWrite cc) of
            (Ok v, c) \<Rightarrow>
              (let buf = (case v of Some b \<Rightarrow> b | None \<Rightarrow> []) in
               case sc_write buf (cc\<lparr>sc_chanWrite := c\<rparr>, rand) of
                 (Ok _, st') \<Rightarrow> (Ok True, st')
               | (Err e, st') \<Rightarrow> (Err e, st')
               | (Panic p, st') \<Rightarrow> (Panic p, st')
               | (Block, st') \<Rightarrow> (Block, st'))
          | (_, c) \<Rightarrow> (Block, (cc, rand)))
     | CaseClose \<Rightarrow>
         (case chan_recv (sc_chanClose cc) of
            (Ok v, c) \<Rightarrow> (Ok (v \<noteq> Some True), (cc\<lparr>sc_chanClose := c\<rparr>, rand))
          | (_, c) \<Rightarrow> (Block, (cc, rand))))"

text \<open>
  What both goroutines do when they end: \<open>conn.Close()\<close> and \<open>sess.CloseWithError\<close>, after which no
  write of the stream succeeds and its reads fail, and the connection is marked closed.
\<close>

definition sc_shut :: "server_conn \<Rightarrow> server_conn" where
  "sc_shut sc = sc\<lparr>sc_conn := map_option wr_close (sc_conn sc), sc_isClosed := True\<rparr>"

definition sc_cut :: "server_conn \<Rightarrow> bool" where
  "sc_cut sc = (case sc_conn sc of None \<Rightarrow> False | Some w \<Rightarrow> wr_closed w)"

definition sc_write_exit :: "server_conn \<Rightarrow> server_conn" where
  "sc_write_exit cc = sc_shut cc"

lemma sc_shut_simps [simp]:
  "sc_key (sc_shut sc) = sc_key sc" "sc_aesgcm (sc_shut sc) = sc_aesgcm sc"
  "sc_chanWrite (sc_shut sc) = sc_chanWrite sc" "sc_chanClose (sc_shut sc) = sc_chanClose sc"
  "sc_isClosed (sc_shut sc)" "sc_buf (sc_shut sc) = sc_buf sc"
  by (simp_all add: sc_shut_def)

section \<open>The reading goroutine\<close>

text \<open>
  The loop of \<open>readProcess\<close>: every frame read is handed to the handler, if there is one, until a
  read fails or the handler panics. It ends on every stream, as each frame takes bytes off it.
\<close>

lemma sc_read_parser: "stream_reader (sc_read sc)"
  unfolding sc_read_def Let_def
  by (intro stream_reader_intros)
    (auto intro!: stream_reader_intros split: option.splits)

lemma sc_read_progress:
  assumes "sc_read sc r = (Ok d, r')"
  shows "length (rd_data r') < length (rd_data r)"
proof (rule go_bind_progress [OF assms [unfolded sc_read_def]])
  show "length (rd_data r1) < length (rd_data r)" if "read_full 1 r = (Ok x, r1)" for x r1
    using read_full_progress [of 0 r x r1] that by simp
qed (unfold Let_def, intro stream_reader_intros,
    auto intro!: stream_reader_intros split: option.splits)

function sc_read_loop ::
    "(bytes \<Rightarrow> ('st, unit) go) option \<Rightarrow> server_conn \<Rightarrow> reader \<Rightarrow> 'st
      \<Rightarrow> unit outcome \<times> reader \<times> 'st" where
  "sc_read_loop h sc r st = (case sc_read sc r of
     (Ok data, r') \<Rightarrow>
       (case h of
          None \<Rightarrow> sc_read_loop h sc r' st
        | Some f \<Rightarrow>
            (case f data st of
               (Panic p, st') \<Rightarrow> (Panic p, r', st')
             | (Block, st') \<Rightarrow> (Block, r', st')
             | (Err e, st') \<Rightarrow> sc_read_loop h sc r' st'
             | (Ok _, st') \<Rightarrow> sc_read_loop h sc r' st'))
   | (Err e, r') \<Rightarrow> (Err e, r', st)
   | (Panic p, r') \<Rightarrow> (Panic p, r', st)
   | (Block, r') \<Rightarrow> (Block, r', st))"
  by pat_completeness auto
termination
  by (relation "measure (\<lambda>(h, sc, r, st). length (rd_data r))")
    (auto dest: sc_read_progress [OF sym] sc_read_progress)

declare sc_read_loop.simps [simp del]

text \<open>
  \<open>readProcess\<close>: set up the cipher (\<open>POE\<close> panics on an error), run the loop, then, whatever
  happened, run the cleanup, close the stream and the session, and stop the writing goroutine.
  A panic in the body is recovered.
\<close>

definition sc_readProcess ::
    "crypto_lib \<Rightarrow> (bytes \<Rightarrow> ('st, unit) go) option \<Rightarrow> ('st \<Rightarrow> 'st) \<Rightarrow> server_conn \<Rightarrow> reader \<Rightarrow> 'st
      \<Rightarrow> unit outcome \<times> server_conn \<times> reader \<times> 'st" where
  "sc_readProcess lib h cleanup sc r st =
     (let (err, sc1) = sc_crypto lib sc;
          (exit, r1, st1) = (case POE err of
             Ok _ \<Rightarrow> sc_read_loop h sc1 r st
           | _ \<Rightarrow> (POE err, r, st)) in
      if exit = Block then (Block, sc1, r1, st1)
      else let st2 = cleanup st1;
               (res, sc2) = sc_Stop (sc_shut sc1) in
           (res, sc2, r1, st2))"

section \<open>Agreement with the frame format\<close>

definition sc_buf_ok :: "server_conn \<Rightarrow> bool" where
  "sc_buf_ok sc \<longleftrightarrow> 65535 \<le> sc_buf sc"

lemma NewServerConn_buf_ok [simp]: "sc_buf_ok (NewServerConn w key h nd)"
  by (simp add: sc_buf_ok_def NewServerConn_def)

lemma sc_buf_ok_crypto: "sc_buf_ok sc \<Longrightarrow> sc_buf_ok (snd (sc_crypto lib sc))"
  by (auto simp: sc_buf_ok_def sc_crypto_def split: sum.splits)

lemma unat_u16_le: "unat (w :: u16) \<le> 65535"
  using unsigned_less [of w, where ?'a = nat] by simp

text \<open>With the buffer \<open>NewServerConn\<close> allocates, no length field makes the read panic.\<close>

lemma sc_read_spec:
  assumes "sc_buf_ok sc"
  shows "sc_read sc = decode_frame ErrCiperNotMatch (sc_aesgcm sc)"
proof -
  have "\<not> sc_buf sc < unat (w :: u16)" for w
    using assms unat_u16_le [of w] unfolding sc_buf_ok_def by linarith
  then show ?thesis by (simp add: sc_read_def decode_frame_def Let_def)
qed

lemma sc_write_spec:
  "sc_conn cc = Some w \<Longrightarrow>
   sc_write data (cc, rand) = (case encode_frame (sc_aesgcm cc) data rand of
     (Ok buf, rand') \<Rightarrow> (case sc_flush buf w cc of (res, cc') \<Rightarrow> (res, (cc', rand')))
   | (Err e, rand') \<Rightarrow> (Err e, (cc\<lparr>sc_writeBuf := [1]\<rparr>, rand'))
   | (Panic p, rand') \<Rightarrow> (Panic p, (cc, rand'))
   | (Block, rand') \<Rightarrow> (Block, (cc, rand')))"
  by (auto simp: sc_write_def encode_frame_def frame_def frame_body_def go_basic_defs
      go_bind_def Let_def split: option.splits prod.splits outcome.splits)

definition sc_fits :: "server_conn \<Rightarrow> bytes \<Rightarrow> bytes \<Rightarrow> bool" where
  "sc_fits sc nonce data \<longleftrightarrow> sc_buf_ok sc \<and> frame_fits (sc_aesgcm sc) nonce data"

interpretation srv_codec: frame_codec sc_read "\<lambda>sc. frame (sc_aesgcm sc)" sc_fits
proof (rule frame_codec.intro)
  show "stream_reader (sc_read sc)" for sc by (rule sc_read_parser)
  show "sc_read sc \<lparr>rd_data = frame (sc_aesgcm sc) n d @ rest, rd_end = e\<rparr>
      = (Ok d, \<lparr>rd_data = rest, rd_end = e\<rparr>)" if "sc_fits sc n d" for sc n d rest e
    using that by (simp add: sc_fits_def sc_read_spec spec_codec.roundtrip)
  show "length (rd_data r') < length (rd_data r)" if "sc_read sc r = (Ok d, r')" for sc r d r'
    using that by (rule sc_read_progress)
qed

text \<open>Over a stream whose writes succeed, \<open>write\<close> appends one frame and draws one nonce.\<close>

definition sc_ready :: "server_conn \<Rightarrow> bool" where
  "sc_ready sc \<longleftrightarrow> (case sc_conn sc of None \<Rightarrow> False | Some w \<Rightarrow> reliable w)"

definition sc_out :: "server_conn \<Rightarrow> bytes" where
  "sc_out sc = (case sc_conn sc of None \<Rightarrow> [] | Some w \<Rightarrow> wr_out w)"

interpretation srv_writer: frame_writer sc_write sc_out sc_aesgcm sc_ready
proof
  fix s d and r :: reader
  assume "sc_ready s" and k: "nonce_len (sc_aesgcm s) \<le> length (rd_data r)"
  then obtain w where w: "sc_conn s = Some w" "reliable w"
    by (auto simp: sc_ready_def split: option.splits)
  then show "\<exists>s'. sc_write d (s, r)
        = (Ok (), s', r\<lparr>rd_data := drop (nonce_len (sc_aesgcm s)) (rd_data r)\<rparr>)
      \<and> sc_out s' = sc_out s @ frame (sc_aesgcm s) (take (nonce_len (sc_aesgcm s)) (rd_data r)) d
      \<and> sc_aesgcm s' = sc_aesgcm s \<and> sc_ready s'"
    by (simp add: sc_write_spec encode_frame_Ok [OF k] sc_flush_def wr_write_reliable
        sc_out_def sc_ready_def reliable_def)
qed

text \<open>The handler run over a list of messages, until it panics or blocks.\<close>

fun deliver :: "(bytes \<Rightarrow> ('st, unit) go) \<Rightarrow> bytes list \<Rightarrow> 'st \<Rightarrow> unit outcome \<times> 'st" where
  "deliver f [] st = (Ok (), st)"
| "deliver f (d # ds) st = (case f d st of
     (Panic p, st') \<Rightarrow> (Panic p, st')
   | (Block, st') \<Rightarrow> (Block, st')
   | (_, st') \<Rightarrow> deliver f ds st')"

lemma sc_read_loop_reads:
  assumes "reads (sc_read sc) r ds r1" and "deliver f ds st = (Ok (), st1)"
  shows "sc_read_loop (Some f) sc r st = sc_read_loop (Some f) sc r1 st1"
  using assms
proof (induction arbitrary: st rule: reads.induct)
  case (reads_Nil r)
  then show ?case by simp
next
  case (reads_Cons r x r1 xs r2)
  from reads_Cons.prems obtain o1 st2 where f: "f x st = (o1, st2)"
    and o1: "\<forall>p. o1 \<noteq> Panic p" "o1 \<noteq> Block" and del: "deliver f xs st2 = (Ok (), st1)"
    by (auto split: prod.splits outcome.splits)
  have "sc_read_loop (Some f) sc r st = sc_read_loop (Some f) sc r1 st2"
    using f o1 reads_Cons.hyps(1)
    by (cases o1) (simp_all add: sc_read_loop.simps [of _ _ r])
  then show ?case using reads_Cons.IH [OF del] by simp
qed

lemma sc_read_loop_stops:
  assumes "sc_read sc r = (Err e, r')"
  shows "sc_read_loop h sc r st = (Err e, r', st)"
  using assms by (subst sc_read_loop.simps) simp

end
