(* ===== verification/Config.thy ===== *)
theory Config
  imports Prelude
begin

text \<open>
  \<open>config/config.go\<close>: the configuration and the global pointer to it, nil (\<open>None\<close>) until
  \<open>InitConfig\<close> runs.
\<close>

record config =
  Cfg_Key :: string
  Cfg_RemoteAddrs :: string
  Cfg_Listen :: string
  Cfg_TransportThreads :: int
  Cfg_Ip :: string
  Cfg_Mtu :: int
  Cfg_ServerMode :: bool
  Cfg_NoDelay :: bool

definition InitConfig :: "config \<Rightarrow> config option \<Rightarrow> config option" where
  "InitConfig cfg global = Some cfg"

definition GetInstance :: "config option \<Rightarrow> config option" where
  "GetInstance global = global"

lemma GetInstance_InitConfig [simp]: "GetInstance (InitConfig cfg g) = Some cfg"
  by (simp add: GetInstance_def InitConfig_def)

end
