(* ===== verification/Server.thy ===== *)
theory Server
  imports ServerConn Config
begin

text \<open>
  \<open>transport/server.go\<close>: the server's two connection tables, from the address a client announces
  to the connection and back, and the accept loop. Connections are pointers into a heap. The
  tables' contract towards the application is the locale \<open>conn_table\<close>.
\<close>

section \<open>The contract of a connection table\<close>

text \<open>
  Registering does not replace an entry, dropping an address removes exactly that entry, and
  removing a connection only removes entries that lead to it.
\<close>

locale conn_table =
  fixes lookup :: "'t \<Rightarrow> 'a \<Rightarrow> 'c option"
    and register :: "'a \<Rightarrow> 'c \<Rightarrow> 't \<Rightarrow> 't"
    and drop_addr :: "'a \<Rightarrow> 't \<Rightarrow> 't"
    and drop_conn :: "'c \<Rightarrow> 't \<Rightarrow> 't"
    and inv :: "'t \<Rightarrow> bool"
  assumes lookup_register: "inv t \<Longrightarrow>
      lookup (register a c t) = (if lookup t a = None then (lookup t)(a \<mapsto> c) else lookup t)"
    and lookup_drop_addr: "inv t \<Longrightarrow> lookup (drop_addr a t) = (lookup t)(a := None)"
    and lookup_drop_conn: "inv t \<Longrightarrow> lookup (drop_conn c t) a = lookup t a \<or>
      (lookup t a = Some c \<and> lookup (drop_conn c t) a = None)"
    and inv_register: "inv t \<Longrightarrow> inv (register a c t)"
    and inv_drop_addr: "inv t \<Longrightarrow> inv (drop_addr a t)"
    and inv_drop_conn: "inv t \<Longrightarrow> inv (drop_conn c t)"
begin

lemma lookup_drops:
  "inv t \<Longrightarrow> lookup (fold drop_addr as t) = (\<lambda>a. if a \<in> set as then None else lookup t a)"
proof (induction as arbitrary: t)
  case Nil
  then show ?case by simp
next
  case (Cons b as)
  then have "lookup (fold drop_addr as (drop_addr b t))
      = (\<lambda>a. if a \<in> set as then None else lookup (drop_addr b t) a)"
    by (simp add: inv_drop_addr)
  with Cons.prems show ?case by (auto simp: lookup_drop_addr)
qed

text \<open>A second registration of an address is ignored, whichever connection it names.\<close>

lemma register_first_wins:
  "inv t \<Longrightarrow> lookup t a = None \<Longrightarrow> lookup (register a c' (register a c t)) a = Some c"
  by (simp add: lookup_register inv_register)

text \<open>No operation makes an address lead to a connection other than the one registered.\<close>

lemma register_frame: "inv t \<Longrightarrow> b \<noteq> a \<Longrightarrow> lookup (register a c t) b = lookup t b"
  by (simp add: lookup_register)

lemma drop_conn_sound:
  "inv t \<Longrightarrow> lookup (drop_conn c t) a = Some d \<Longrightarrow> lookup t a = Some d"
  using lookup_drop_conn [of t c a] by auto

end

section \<open>The server\<close>

type_synonym conn_ptr = nat

type_synonym conn_heap = "conn_ptr \<Rightarrow> server_conn"

record server =
  srv_publicAddr :: string
  srv_key :: string
  srv_handler :: bool
  srv_Conns :: "(string \<times> conn_ptr) list"
  srv_ConnsReverse :: "(conn_ptr \<times> string) list"

definition NewServer :: "string \<Rightarrow> bool \<Rightarrow> string \<Rightarrow> server" where
  "NewServer publicAddr handler key =
     \<lparr>srv_publicAddr = publicAddr, srv_key = key, srv_handler = handler,
      srv_Conns = [], srv_ConnsReverse = []\<rparr>"

definition GetConnsByAddr :: "string \<Rightarrow> server \<Rightarrow> conn_ptr option" where
  "GetConnsByAddr dst s = map_of (srv_Conns s) dst"

definition DeleteDeadConn :: "string \<Rightarrow> server \<Rightarrow> server" where
  "DeleteDeadConn dst s =
     (case map_of (srv_Conns s) dst of
        Some conn \<Rightarrow> s\<lparr>srv_Conns := AList.delete dst (srv_Conns s),
                       srv_ConnsReverse := AList.delete conn (srv_ConnsReverse s)\<rparr>
      | None \<Rightarrow> s)"

text \<open>
  \<open>SetConns\<close>: an address already in the table keeps its connection, unless that one has no
  stream, in which case it is stopped and the entry deleted. The new connection may be nil.
\<close>

definition SetConns :: "string \<Rightarrow> conn_ptr option \<Rightarrow> (server \<times> conn_heap, unit) go" where
  "SetConns dst serverConn st = (case st of (s, h) \<Rightarrow>
     case map_of (srv_Conns s) dst of
       None \<Rightarrow>
         (case serverConn of
            None \<Rightarrow> (Ok (), (s, h))
          | Some c \<Rightarrow>
              (Ok (), (s\<lparr>srv_Conns := AList.update dst c (srv_Conns s),
                        srv_ConnsReverse := AList.update c dst (srv_ConnsReverse s)\<rparr>, h)))
     | Some v \<Rightarrow>
         if sc_conn (h v) = None
         then (case sc_Stop (h v) of
                 (Ok _, v') \<Rightarrow>
                   (Ok (), (s\<lparr>srv_Conns := AList.delete dst (srv_Conns s)\<rparr>, h(v := v')))
               | (res, v') \<Rightarrow> (res, (s, h(v := v'))))
         else (Ok (), (s, h)))"

definition RemoveConnByConnPointer :: "conn_ptr \<Rightarrow> server \<Rightarrow> server" where
  "RemoveConnByConnPointer conn s =
     (let s' = (case map_of (srv_ConnsReverse s) conn of
                  Some dst \<Rightarrow> s\<lparr>srv_Conns := AList.delete dst (srv_Conns s)\<rparr>
                | None \<Rightarrow> s) in
      s'\<lparr>srv_ConnsReverse := AList.delete conn (srv_ConnsReverse s')\<rparr>)"

section \<open>Accepting connections\<close>

text \<open>
  What the listener delivers: an error of \<open>Accept\<close>, which ends \<open>listen\<close>; an error of
  \<open>AcceptStream\<close>, after which it goes on; or a stream, for which a connection is allocated and
  its two goroutines are started. The result lists the connections started.
\<close>

datatype accept_event = AcceptError go_error | StreamError go_error | Stream writer

fun listen_loop :: "server \<Rightarrow> bool \<Rightarrow> accept_event list \<Rightarrow> conn_heap \<Rightarrow> conn_ptr \<Rightarrow> conn_ptr list
      \<Rightarrow> go_error option \<times> conn_heap \<times> conn_ptr \<times> conn_ptr list" where
  "listen_loop s noDelay [] h next started = (None, h, next, started)"
| "listen_loop s noDelay (AcceptError e # evs) h next started = (Some e, h, next, started)"
| "listen_loop s noDelay (StreamError e # evs) h next started =
     listen_loop s noDelay evs h next started"
| "listen_loop s noDelay (Stream w # evs) h next started =
     listen_loop s noDelay evs
       (h(next := NewServerConn w (srv_key s) (srv_handler s) noDelay)) (Suc next)
       (started @ [next])"

text \<open>
  \<open>generateTLSConfig\<close>: a key, a certificate signed with it, both in PEM form, and the pair of them;
  any failure panics. The standard library's part is the record \<open>tls_lib\<close>, whose results may differ
  from call to call.
\<close>

record tls_lib =
  rsa_GenerateKey :: "go_error + bytes"
  x509_CreateCertificate :: "bytes \<Rightarrow> go_error + bytes"
  pem_key :: "bytes \<Rightarrow> bytes"
  pem_cert :: "bytes \<Rightarrow> bytes"
  tls_X509KeyPair :: "bytes \<Rightarrow> bytes \<Rightarrow> go_error + bytes"

record tls_config =
  tls_Certificates :: "bytes list"
  tls_NextProtos :: "string list"

definition generateTLSConfig :: "tls_lib \<Rightarrow> tls_config outcome" where
  "generateTLSConfig tls = (case rsa_GenerateKey tls of
     Inl err \<Rightarrow> Panic (error_string err)
   | Inr key \<Rightarrow> (case x509_CreateCertificate tls key of
       Inl err \<Rightarrow> Panic (error_string err)
     | Inr certDER \<Rightarrow> (case tls_X509KeyPair tls (pem_cert tls certDER) (pem_key tls key) of
         Inl err \<Rightarrow> Panic (error_string err)
       | Inr tlsCert \<Rightarrow>
           Ok \<lparr>tls_Certificates = [tlsCert], tls_NextProtos = [''quic-echo-example'']\<rparr>)))"

text \<open>
  \<open>listen\<close> for one life of a listener, which \<open>quic.ListenAddr\<close> creates or fails to create for the TLS
  configuration, and the loop of \<open>StartListen\<close>, which listens again after an error and after a
  regular end; a panic ends it, and is recovered. A listener is what it delivers.
\<close>

type_synonym listener = "go_error + accept_event list"

definition srv_listen :: "server \<Rightarrow> bool \<Rightarrow> tls_lib \<Rightarrow> (tls_config \<Rightarrow> listener) \<Rightarrow> conn_heap \<Rightarrow> conn_ptr
      \<Rightarrow> conn_ptr list \<Rightarrow> go_error option outcome \<times> conn_heap \<times> conn_ptr \<times> conn_ptr list" where
  "srv_listen s noDelay tls ListenAddr h next started = (case generateTLSConfig tls of
     Ok cfg \<Rightarrow> (case ListenAddr cfg of
       Inl err \<Rightarrow> (Ok (Some (Errorf (''Server::Listen::net listen tcp err: '' @ error_string err))), h, next, started)
     | Inr evs \<Rightarrow> (case listen_loop s noDelay evs h next started of
         (err, h', next', started') \<Rightarrow> (Ok err, h', next', started')))
   | Panic p \<Rightarrow> (Panic p, h, next, started)
   | Err e \<Rightarrow> (Err e, h, next, started)
   | Block \<Rightarrow> (Block, h, next, started))"

fun StartListen :: "server \<Rightarrow> bool \<Rightarrow> (tls_lib \<times> (tls_config \<Rightarrow> listener)) list \<Rightarrow> conn_heap \<Rightarrow> conn_ptr
      \<Rightarrow> conn_ptr list \<Rightarrow> conn_heap \<times> conn_ptr \<times> conn_ptr list" where
  "StartListen s noDelay [] h next started = (h, next, started)"
| "StartListen s noDelay ((tls, ListenAddr) # ls) h next started =
     (case srv_listen s noDelay tls ListenAddr h next started of
        (Ok _, h', next', started') \<Rightarrow> StartListen s noDelay ls h' next' started'
      | (_, h', next', started') \<Rightarrow> (h', next', started'))"

text \<open>\<open>Start\<close>: whether the goroutine that listens is started.\<close>

definition srv_Start :: "config \<Rightarrow> bool" where
  "srv_Start cfg = Cfg_ServerMode cfg"

section \<open>Well-formed tables\<close>

text \<open>
  Both tables have distinct keys, and the reverse entry of a connection leads to an address
  that leads back to it. The converse may fail: a connection announced under two addresses has
  two entries in \<open>Conns\<close> and one in \<open>ConnsReverse\<close>.
\<close>

definition srv_inv :: "server \<Rightarrow> bool" where
  "srv_inv s \<longleftrightarrow> gomap (srv_Conns s) \<and> gomap (srv_ConnsReverse s) \<and>
     (\<forall>c d. map_of (srv_ConnsReverse s) c = Some d \<longrightarrow> map_of (srv_Conns s) d = Some c)"

definition srv_exact :: "server \<Rightarrow> bool" where
  "srv_exact s \<longleftrightarrow> srv_inv s \<and>
     (\<forall>c d. map_of (srv_Conns s) d = Some c \<longrightarrow> map_of (srv_ConnsReverse s) c = Some d)"

text \<open>Every registered connection has its stream, as those \<open>listen\<close> creates do.\<close>

definition srv_streams :: "conn_heap \<Rightarrow> server \<Rightarrow> bool" where
  "srv_streams h s \<longleftrightarrow> (\<forall>d c. map_of (srv_Conns s) d = Some c \<longrightarrow> sc_conn (h c) \<noteq> None)"

lemma srv_inv_New [simp]: "srv_inv (NewServer a b k)"
  by (simp add: srv_inv_def NewServer_def)

lemma srv_exact_New [simp]: "srv_exact (NewServer a b k)"
  by (simp add: srv_exact_def) (simp add: NewServer_def)

lemma srv_invI:
  "gomap (srv_Conns s) \<Longrightarrow> gomap (srv_ConnsReverse s) \<Longrightarrow>
   (\<And>c d. map_of (srv_ConnsReverse s) c = Some d \<Longrightarrow> map_of (srv_Conns s) d = Some c) \<Longrightarrow> srv_inv s"
  by (simp add: srv_inv_def)

lemma srv_invD:
  assumes "srv_inv s"
  shows "gomap (srv_Conns s)" and "gomap (srv_ConnsReverse s)"
    and "map_of (srv_ConnsReverse s) c = Some d \<Longrightarrow> map_of (srv_Conns s) d = Some c"
  using assms unfolding srv_inv_def by blast+

lemma RemoveConn_Conns:
  "map_of (srv_Conns (RemoveConnByConnPointer c s)) d =
     (if map_of (srv_ConnsReverse s) c = Some d then None else map_of (srv_Conns s) d)"
  by (simp add: RemoveConnByConnPointer_def Let_def split: option.splits)

lemma RemoveConn_Reverse:
  "map_of (srv_ConnsReverse (RemoveConnByConnPointer c s)) = (map_of (srv_ConnsReverse s))(c := None)"
  by (simp add: RemoveConnByConnPointer_def Let_def split: option.splits)

lemma DeleteDeadConn_Conns:
  "map_of (srv_Conns (DeleteDeadConn d s)) = (map_of (srv_Conns s))(d := None)"
  by (auto simp: DeleteDeadConn_def split: option.splits)

lemma DeleteDeadConn_Reverse:
  "map_of (srv_ConnsReverse (DeleteDeadConn d s)) c =
     (if map_of (srv_Conns s) d = Some c then None else map_of (srv_ConnsReverse s) c)"
  by (auto simp: DeleteDeadConn_def split: option.splits)

lemma srv_inv_DeleteDeadConn:
  assumes inv: "srv_inv s"
  shows "srv_inv (DeleteDeadConn d s)"
proof (rule srv_invI)
  show "gomap (srv_Conns (DeleteDeadConn d s))" "gomap (srv_ConnsReverse (DeleteDeadConn d s))"
    using srv_invD(1,2) [OF inv] by (simp_all add: DeleteDeadConn_def split: option.splits)
  show "map_of (srv_Conns (DeleteDeadConn d s)) d' = Some c"
    if "map_of (srv_ConnsReverse (DeleteDeadConn d s)) c = Some d'" for c d'
    using that srv_invD(3) [OF inv, of c d']
    by (auto simp: DeleteDeadConn_Reverse DeleteDeadConn_Conns split: if_splits)
qed

lemma srv_inv_RemoveConn:
  assumes inv: "srv_inv s"
  shows "srv_inv (RemoveConnByConnPointer c s)"
proof (rule srv_invI)
  show "gomap (srv_Conns (RemoveConnByConnPointer c s))"
    "gomap (srv_ConnsReverse (RemoveConnByConnPointer c s))"
    using srv_invD(1,2) [OF inv]
    by (simp_all add: RemoveConnByConnPointer_def Let_def split: option.splits)
  show "map_of (srv_Conns (RemoveConnByConnPointer c s)) d = Some c'"
    if "map_of (srv_ConnsReverse (RemoveConnByConnPointer c s)) c' = Some d" for c' d
    using that srv_invD(3) [OF inv, of c' d] srv_invD(3) [OF inv, of c d]
    by (auto simp: RemoveConn_Reverse RemoveConn_Conns split: if_splits)
qed

text \<open>With their streams in place, \<open>SetConns\<close> never stops a connection: it registers or ignores.\<close>

lemma SetConns_streams:
  assumes "srv_streams h s"
  shows "SetConns d (Some c) (s, h) = (Ok (), (case map_of (srv_Conns s) d of
      None \<Rightarrow> s\<lparr>srv_Conns := AList.update d c (srv_Conns s),
                srv_ConnsReverse := AList.update c d (srv_ConnsReverse s)\<rparr>
    | Some v \<Rightarrow> s, h))"
proof (cases "map_of (srv_Conns s) d")
  case (Some v)
  then obtain w where "sc_conn (h v) = Some w" using assms unfolding srv_streams_def by blast
  with Some show ?thesis by (simp add: SetConns_def)
qed (simp add: SetConns_def)

lemma srv_inv_SetConns:
  assumes inv: "srv_inv s" and str: "srv_streams h s"
  shows "srv_inv (fst (snd (SetConns d (Some c) (s, h))))"
proof (cases "map_of (srv_Conns s) d")
  case None
  have "map_of (srv_Conns s) d' = Some c'" if "map_of (srv_ConnsReverse s) c' = Some d'" for c' d'
    using that by (rule srv_invD(3) [OF inv])
  with None srv_invD(1,2) [OF inv] show ?thesis
    by (auto simp: SetConns_streams [OF str] intro!: srv_invI split: if_splits)
qed (simp add: SetConns_streams [OF str] inv)

lemma GetConnsByAddr_DeleteDeadConn:
  "GetConnsByAddr a (DeleteDeadConn d s) = (if a = d then None else GetConnsByAddr a s)"
  by (auto simp: GetConnsByAddr_def DeleteDeadConn_def split: option.splits)

text \<open>The tables with a heap in which every connection has its stream satisfy the contract.\<close>

definition full_heap :: "conn_heap \<Rightarrow> bool" where
  "full_heap h \<longleftrightarrow> (\<forall>c. sc_conn (h c) \<noteq> None)"

lemma full_heap_streams: "full_heap h \<Longrightarrow> srv_streams h s"
  by (simp add: full_heap_def srv_streams_def)

interpretation srv_table: conn_table
  "\<lambda>(s, h) a. GetConnsByAddr a s"
  "\<lambda>a c st. snd (SetConns a (Some c) st)"
  "\<lambda>a (s, h). (DeleteDeadConn a s, h)"
  "\<lambda>c (s, h). (RemoveConnByConnPointer c s, h)"
  "\<lambda>(s, h). srv_inv s \<and> full_heap h"
proof (unfold_locales, goal_cases)
  case (1 t a c)
  then show ?case
    by (cases t) (auto simp: SetConns_streams full_heap_streams GetConnsByAddr_def
        split: option.splits)
next
  case (2 t a)
  then show ?case by (cases t) (auto simp: GetConnsByAddr_DeleteDeadConn)
next
  case (3 t c a)
  then show ?case
    by (cases t) (auto simp: GetConnsByAddr_def RemoveConn_Conns dest: srv_invD(3))
next
  case (4 t a c)
  then show ?case
    by (cases t) (auto simp: srv_inv_SetConns full_heap_streams SetConns_streams
        dest: srv_inv_SetConns [OF _ full_heap_streams] split: prod.splits)
next
  case (5 t a)
  then show ?case by (cases t) (simp add: srv_inv_DeleteDeadConn)
next
  case (6 t c)
  then show ?case by (cases t) (simp add: srv_inv_RemoveConn)
qed

section \<open>Exact tables\<close>

text \<open>
  While every connection is announced under one address only, the two tables are inverse to each
  other, and removing a connection leaves no entry that leads to it.
\<close>

lemma srv_exactD: "srv_exact s \<Longrightarrow> map_of (srv_Conns s) d = Some c \<Longrightarrow> map_of (srv_ConnsReverse s) c = Some d"
  unfolding srv_exact_def by blast

lemma srv_exactI:
  "srv_inv s \<Longrightarrow>
   (\<And>c d. map_of (srv_Conns s) d = Some c \<Longrightarrow> map_of (srv_ConnsReverse s) c = Some d) \<Longrightarrow> srv_exact s"
  unfolding srv_exact_def by blast

lemma srv_exact_inv: "srv_exact s \<Longrightarrow> srv_inv s"
  unfolding srv_exact_def by blast

lemma srv_exact_inj:
  "srv_exact s \<Longrightarrow> map_of (srv_Conns s) d = Some c \<Longrightarrow> map_of (srv_Conns s) d' = Some c \<Longrightarrow> d = d'"
  using srv_exactD [of s d c] srv_exactD [of s d' c] by simp

lemma srv_exact_SetConns:
  assumes ex: "srv_exact s" and str: "srv_streams h s"
    and one: "\<And>d'. map_of (srv_Conns s) d' = Some c \<Longrightarrow> d' = d"
  shows "srv_exact (fst (snd (SetConns d (Some c) (s, h))))"
proof (rule srv_exactI)
  show "srv_inv (fst (snd (SetConns d (Some c) (s, h))))"
    using srv_exact_inv [OF ex] str by (rule srv_inv_SetConns)
  fix c' d'
  assume old: "map_of (srv_Conns (fst (snd (SetConns d (Some c) (s, h))))) d' = Some c'"
  show "map_of (srv_ConnsReverse (fst (snd (SetConns d (Some c) (s, h))))) c' = Some d'"
  proof (cases "map_of (srv_Conns s) d = None \<and> d' \<noteq> d")
    case True
    with old have d': "map_of (srv_Conns s) d' = Some c'"
      by (simp add: SetConns_streams [OF str])
    then have "c' \<noteq> c" using one True by blast
    with d' True show ?thesis by (simp add: SetConns_streams [OF str] srv_exactD [OF ex])
  next
    case False
    with old srv_exactD [OF ex] show ?thesis
      by (cases "map_of (srv_Conns s) d") (simp_all add: SetConns_streams [OF str])
  qed
qed

lemma srv_exact_DeleteDeadConn:
  assumes ex: "srv_exact s"
  shows "srv_exact (DeleteDeadConn d s)"
proof (rule srv_exactI)
  show "srv_inv (DeleteDeadConn d s)" by (intro srv_inv_DeleteDeadConn srv_exact_inv ex)
  show "map_of (srv_ConnsReverse (DeleteDeadConn d s)) c = Some d'"
    if "map_of (srv_Conns (DeleteDeadConn d s)) d' = Some c" for c d'
    using that srv_exact_inj [OF ex, of d c d'] srv_exactD [OF ex, of d' c]
    by (auto simp: DeleteDeadConn_Conns DeleteDeadConn_Reverse split: if_splits)
qed

lemma srv_exact_RemoveConn:
  assumes ex: "srv_exact s"
  shows "srv_exact (RemoveConnByConnPointer c s)"
proof (rule srv_exactI)
  show "srv_inv (RemoveConnByConnPointer c s)" by (intro srv_inv_RemoveConn srv_exact_inv ex)
  show "map_of (srv_ConnsReverse (RemoveConnByConnPointer c s)) c' = Some d"
    if "map_of (srv_Conns (RemoveConnByConnPointer c s)) d = Some c'" for c' d
    using that srv_exactD [OF ex, of d c']
    by (auto simp: RemoveConn_Conns RemoveConn_Reverse split: if_splits)
qed

lemma RemoveConn_exact:
  assumes "srv_exact s"
  shows "GetConnsByAddr a (RemoveConnByConnPointer c s) \<noteq> Some c"
  using srv_exactD [OF assms, of a c] by (auto simp: GetConnsByAddr_def RemoveConn_Conns)

text \<open>The accept loop gives every connection it starts the server's key, its stream, and a place of
  its own on the heap.\<close>

definition fresh_conn :: "server \<Rightarrow> server_conn \<Rightarrow> bool" where
  "fresh_conn s c \<longleftrightarrow> sc_key c = srv_key s \<and> sc_conn c \<noteq> None \<and> sc_buf_ok c \<and> \<not> sc_isClosed c"

lemma fresh_conn_New [simp]: "fresh_conn s (NewServerConn w (srv_key s) h nd)"
  by (simp add: fresh_conn_def) (simp add: NewServerConn_def)

lemma listen_loop_fresh:
  assumes "listen_loop s nd evs h n st = (r, h', n', st')" and "\<forall>p \<in> set st. p < n" and "distinct st"
  shows "distinct st' \<and> (\<forall>p \<in> set st'. p < n') \<and> n \<le> n' \<and> (\<forall>p < n. h' p = h p)
    \<and> (\<forall>p. n \<le> p \<longrightarrow> p < n' \<longrightarrow> fresh_conn s (h' p))"
  using assms
proof (induction s nd evs h n st rule: listen_loop.induct)
  case (4 s nd w evs h n st)
  let ?c = "NewServerConn w (srv_key s) (srv_handler s) nd"
  have step: "listen_loop s nd evs (h(n := ?c)) (Suc n) (st @ [n]) = (r, h', n', st')"
    using "4.prems"(1) by (simp only: listen_loop.simps)
  have "\<forall>p \<in> set (st @ [n]). p < Suc n" "distinct (st @ [n])"
    using "4.prems"(2,3) by (auto simp: less_Suc_eq)
  from "4.IH" [OF step this] have IH: "distinct st'" "\<forall>p \<in> set st'. p < n'" "Suc n \<le> n'"
      "\<forall>p < Suc n. h' p = (h(n := ?c)) p" "\<forall>p. Suc n \<le> p \<longrightarrow> p < n' \<longrightarrow> fresh_conn s (h' p)"
    by blast+
  have "fresh_conn s (h' p)" if "n \<le> p" "p < n'" for p
    using that IH(4,5) by (cases "p = n") auto
  with IH show ?case by auto
qed simp_all

end
