(* ===== verification/ClientConn.thy ===== *)
theory ClientConn
  imports Frame Protocol Iface
begin

text \<open>
  \<open>transport/client_conn.go\<close>: one of the client's connections to the server: connecting, framing,
  queueing data on the unbuffered channel, the bodies of the reading and of the writing
  goroutine, and the text of the local port. \<open>ClientConnRun\<close> has the goroutines' interleaving.
  \<open>quic.DialAddr\<close> and \<open>OpenStreamSync\<close> are the argument \<open>dial\<close> of \<open>cc_tryConnect\<close>: an error, or a
  session, known by its local address, and then an error or a stream.
\<close>

record client_conn =
  cc_remoteAddr :: string
  cc_key :: string
  cc_conn :: "writer option"
  cc_session :: "string option"
  cc_index :: int
  cc_aesgcm :: "aead option"
  cc_chanWrite :: "bytes chan option"
  cc_chanClose :: "bool chan"
  cc_connected :: bool
  cc_buf :: bytes
  cc_readBuf :: nat
  cc_handler :: bool
  cc_noDelay :: bool

definition NewClientConn :: "string \<Rightarrow> string \<Rightarrow> int \<Rightarrow> bool \<Rightarrow> client_conn" where
  "NewClientConn remoteAddr key index noDelay =
     \<lparr>cc_remoteAddr = remoteAddr, cc_key = key, cc_conn = None, cc_session = None,
      cc_index = index, cc_aesgcm = None, cc_chanWrite = Some (make_chan 0),
      cc_chanClose = make_chan 0, cc_connected = False, cc_buf = [], cc_readBuf = 65536,
      cc_handler = False, cc_noDelay = noDelay\<rparr>"

definition cc_SetHander :: "bool \<Rightarrow> client_conn \<Rightarrow> client_conn" where
  "cc_SetHander handler cc = cc\<lparr>cc_handler := handler\<rparr>"

definition cc_IsConnected :: "client_conn \<Rightarrow> bool" where
  "cc_IsConnected cc = cc_connected cc"

definition cc_setConnected :: "bool \<Rightarrow> client_conn \<Rightarrow> client_conn" where
  "cc_setConnected v cc = cc\<lparr>cc_connected := v\<rparr>"

section \<open>Connecting\<close>

type_synonym dial_result = "go_error + (string \<times> (go_error + writer))"

definition cc_tryConnect :: "dial_result \<Rightarrow> (client_conn, unit) go" where
  "cc_tryConnect dial cc =
     (if cc_IsConnected cc then (Ok (), cc)
      else case dial of
        Inl err \<Rightarrow> (Err err, cc)
      | Inr (session, stream) \<Rightarrow>
          let cc = cc\<lparr>cc_session := Some session\<rparr> in
          (case stream of
             Inl err \<Rightarrow> (Err err, cc\<lparr>cc_conn := None\<rparr>)
           | Inr w \<Rightarrow> (Ok (), cc\<lparr>cc_conn := Some w\<rparr>)))"

definition cc_crypto :: "crypto_lib \<Rightarrow> client_conn \<Rightarrow> go_error option \<times> client_conn" where
  "cc_crypto lib cc =
     (if cc_key cc = [] then (None, cc)
      else case makeAES128GCM lib (cc_key cc) of
        Inl err \<Rightarrow> (Some err, cc\<lparr>cc_aesgcm := None\<rparr>)
      | Inr a \<Rightarrow> (None, cc\<lparr>cc_aesgcm := Some a\<rparr>))"

text \<open>\<open>InitConn\<close> recovers the panic of \<open>POE\<close> and then returns nil.\<close>

definition cc_InitConn :: "crypto_lib \<Rightarrow> dial_result \<Rightarrow> (client_conn, unit) go" where
  "cc_InitConn lib dial cc =
     (let (err, cc1) = cc_crypto lib cc in
      case POE err of
        Ok _ \<Rightarrow>
          (case cc_tryConnect dial cc1 of
             (Err e, cc2) \<Rightarrow> (Err e, cc2)
           | (_, cc2) \<Rightarrow> (Ok (), cc_setConnected True cc2))
      | _ \<Rightarrow> (Ok (), cc1))"

section \<open>Frames\<close>

definition cc_flush :: "bytes \<Rightarrow> writer \<Rightarrow> (client_conn, unit) go" where
  "cc_flush buf w cc = (case wr_write buf w of (res, w') \<Rightarrow>
     (res, cc\<lparr>cc_conn := Some w',
              cc_buf := drop (length (wr_out w') - length (wr_out w)) buf\<rparr>))"

definition cc_write :: "bytes \<Rightarrow> (client_conn \<times> reader, unit) go" where
  "cc_write data st = (case st of (cc, rand) \<Rightarrow>
     case cc_conn cc of
       None \<Rightarrow> (Err (Errorf ''no connection''), (cc, rand))
     | Some w \<Rightarrow>
       (case cc_aesgcm cc of
          None \<Rightarrow>
            let dataLen = (of_nat (length data) :: u16);
                buf = [0] @ le16 dataLen @ data;
                (res, cc') = cc_flush buf w cc
            in (res, (cc', rand))
        | Some g \<Rightarrow>
            (case read_full (NonceSize g) rand of
               (Ok nonce, rand') \<Rightarrow>
                 let data2 = Seal g nonce data;
                     dataLen = (of_nat (length data2) :: u16);
                     buf = [1] @ le16 dataLen @ data2 @ nonce;
                     (res, cc') = cc_flush buf w cc
                 in (res, (cc', rand'))
             | (Err e, rand') \<Rightarrow> (Err e, (cc\<lparr>cc_buf := [1]\<rparr>, rand'))
             | (Panic p, rand') \<Rightarrow> (Panic p, (cc, rand'))
             | (Block, rand') \<Rightarrow> (Block, (cc, rand')))))"

text \<open>The error of an AEAD that does not open, as \<open>crypto/cipher\<close> words it.\<close>

definition errOpen :: go_error where
  "errOpen = Extern ''cipher: message authentication failed''"

definition cc_read :: "client_conn \<Rightarrow> (reader, bytes) go" where
  "cc_read cc =
     go_bind (read_full 1) (\<lambda>secure.
     go_bind (read_full 2) (\<lambda>lenb.
     let dataLen = unat (of_le16 lenb) in
     if cc_readBuf cc < dataLen then go_panic ''runtime error: slice bounds out of range''
     else
     go_bind (read_full dataLen) (\<lambda>body.
     if hd secure = 0 then go_return body
     else (case cc_aesgcm cc of
         None \<Rightarrow> go_panic ''invalid memory address or nil pointer dereference''
       | Some g \<Rightarrow>
           go_bind (read_full (NonceSize g)) (\<lambda>nonce.
           case Open g nonce body of
             None \<Rightarrow> go_fail errOpen
           | Some plain \<Rightarrow> go_return plain)))))"

section \<open>Queueing data\<close>

text \<open>
  A nil connection, or one without a channel, drops the data. The channel is unbuffered: the
  sender waits (\<open>Block\<close>) until the writing goroutine receives.
\<close>

definition cc_Write :: "bytes \<Rightarrow> (client_conn option, unit) go" where
  "cc_Write data this = (case this of
     None \<Rightarrow> (Ok (), this)
   | Some cc \<Rightarrow> (case cc_chanWrite cc of
       None \<Rightarrow> (Ok (), this)
     | Some ch \<Rightarrow> (case chan_send data ch of
         (res, ch') \<Rightarrow> (res, Some (cc\<lparr>cc_chanWrite := Some ch'\<rparr>)))))"

section \<open>Closing\<close>

text \<open>
  What both goroutines do at their end: \<open>conn.Close()\<close> and \<open>session.CloseWithError\<close>, after which no
  write of the stream succeeds and its reads fail, and \<open>setConnected(false)\<close>. The reading
  goroutine skips a nil stream; the writing one calls the method of nil, in its deferred function,
  where the panic is not recovered.
\<close>

definition cc_shut :: "client_conn \<Rightarrow> client_conn" where
  "cc_shut cc = cc_setConnected False (cc\<lparr>cc_conn := map_option wr_close (cc_conn cc)\<rparr>)"

definition cc_cut :: "client_conn \<Rightarrow> bool" where
  "cc_cut cc = (case cc_conn cc of None \<Rightarrow> False | Some w \<Rightarrow> wr_closed w)"

definition cc_write_exit :: "(client_conn, unit) go" where
  "cc_write_exit cc = (case cc_conn cc of
     None \<Rightarrow> (Panic ''invalid memory address or nil pointer dereference'', cc_setConnected False cc)
   | Some w \<Rightarrow> (Ok (), cc_shut cc))"

section \<open>The writing goroutine\<close>

text \<open>One turn of its loop; both \<open>select\<close> cases are receives from unbuffered channels, so what is
  received is what a waiting sender offers. \<open>Ok False\<close> is the return on close.\<close>

datatype ccw_case = CcClose | CcWrite bytes

definition cc_write_turn :: "ccw_case \<Rightarrow> (client_conn \<times> reader, bool) go" where
  "cc_write_turn sel st = (case sel of
     CcClose \<Rightarrow> (Ok False, st)
   | CcWrite buf \<Rightarrow> (case cc_write buf st of
       (Ok _, st') \<Rightarrow> (Ok True, st')
     | (Err e, st') \<Rightarrow> (Err e, st')
     | (Panic p, st') \<Rightarrow> (Panic p, st')
     | (Block, st') \<Rightarrow> (Block, st')))"

section \<open>The reading goroutine\<close>

lemma cc_read_parser: "stream_reader (cc_read cc)"
  unfolding cc_read_def Let_def
  by (intro stream_reader_intros)
    (auto intro!: stream_reader_intros split: option.splits)

lemma cc_read_progress:
  assumes "cc_read cc r = (Ok d, r')"
  shows "length (rd_data r') < length (rd_data r)"
proof (rule go_bind_progress [OF assms [unfolded cc_read_def]])
  show "length (rd_data r1) < length (rd_data r)" if "read_full 1 r = (Ok x, r1)" for x r1
    using read_full_progress [of 0 r x r1] that by simp
qed (unfold Let_def, intro stream_reader_intros,
    auto intro!: stream_reader_intros split: option.splits)

function cc_read_loop ::
    "(bytes \<Rightarrow> ('st, unit) go) option \<Rightarrow> client_conn \<Rightarrow> reader \<Rightarrow> 'st
      \<Rightarrow> unit outcome \<times> reader \<times> 'st" where
  "cc_read_loop h cc r st = (case cc_read cc r of
     (Ok data, r') \<Rightarrow>
       (case h of
          None \<Rightarrow> cc_read_loop h cc r' st
        | Some f \<Rightarrow>
            (case f data st of
               (Panic p, st') \<Rightarrow> (Panic p, r', st')
             | (Block, st') \<Rightarrow> (Block, r', st')
             | (Err e, st') \<Rightarrow> cc_read_loop h cc r' st'
             | (Ok _, st') \<Rightarrow> cc_read_loop h cc r' st'))
   | (Err e, r') \<Rightarrow> (Err e, r', st)
   | (Panic p, r') \<Rightarrow> (Panic p, r', st)
   | (Block, r') \<Rightarrow> (Block, r', st))"
  by pat_completeness auto
termination
  by (relation "measure (\<lambda>(h, cc, r, st). length (rd_data r))")
    (auto dest: cc_read_progress [OF sym] cc_read_progress)

declare cc_read_loop.simps [simp del]

text \<open>
  \<open>readProcess\<close> recovers a panic, its own or the handler's, and then returns nil, its result
  being unnamed; an error of a read is returned. A read of a nil stream panics. Either way the connection is closed and marked
  disconnected.
\<close>

definition cc_readProcess ::
    "crypto_lib \<Rightarrow> (bytes \<Rightarrow> ('st, unit) go) option \<Rightarrow> client_conn \<Rightarrow> reader \<Rightarrow> 'st
      \<Rightarrow> unit outcome \<times> client_conn \<times> reader \<times> 'st" where
  "cc_readProcess lib h cc r st =
     (let (err, cc1) = cc_crypto lib cc;
          (exit, r1, st1) = (case POE err of
             Ok _ \<Rightarrow>
               (if cc_conn cc1 = None then (Panic ''invalid memory address or nil pointer dereference'', r, st)
                else cc_read_loop h cc1 r st)
           | _ \<Rightarrow> (POE err, r, st)) in
      case exit of
        Block \<Rightarrow> (Block, cc1, r1, st1)
      | Err e \<Rightarrow> (Err e, cc_shut cc1, r1, st1)
      | _ \<Rightarrow> (Ok (), cc_shut cc1, r1, st1))"

section \<open>The local port\<close>

text \<open>
  \<open>strings.Split\<close> of the local address at colons, then element 3; the guard admits three parts,
  and indexing them at 3 panics as well.
\<close>

definition cc_GetConnPort :: "client_conn \<Rightarrow> string outcome" where
  "cc_GetConnPort cc = (case cc_session cc of
     None \<Rightarrow> Panic ''invalid memory address or nil pointer dereference''
   | Some fullWithPort \<Rightarrow>
       let addrPair = str_split CHR '':'' fullWithPort in
       if length addrPair < 3 then Panic ''fail to get local tcp port''
       else if length addrPair < 4 then Panic ''runtime error: index out of range [3] with length 3''
       else Ok (addrPair ! 3))"

section \<open>Agreement with the frame format\<close>

definition cc_buf_ok :: "client_conn \<Rightarrow> bool" where
  "cc_buf_ok cc \<longleftrightarrow> 65535 \<le> cc_readBuf cc"

lemma cc_read_spec:
  assumes "cc_buf_ok cc"
  shows "cc_read cc = decode_frame errOpen (cc_aesgcm cc)"
proof -
  have "unat (w :: u16) \<le> 65535" for w
    using unsigned_less [of w, where ?'a = nat] by simp
  with assms have "\<not> cc_readBuf cc < unat (w :: u16)" for w
    unfolding cc_buf_ok_def not_less by (rule order_trans [rotated])
  then show ?thesis by (simp add: cc_read_def decode_frame_def Let_def)
qed

lemma cc_write_spec:
  "cc_conn cc = Some w \<Longrightarrow>
   cc_write data (cc, rand) = (case encode_frame (cc_aesgcm cc) data rand of
     (Ok buf, rand') \<Rightarrow> (case cc_flush buf w cc of (res, cc') \<Rightarrow> (res, (cc', rand')))
   | (Err e, rand') \<Rightarrow> (Err e, (cc\<lparr>cc_buf := [1]\<rparr>, rand'))
   | (Panic p, rand') \<Rightarrow> (Panic p, (cc, rand'))
   | (Block, rand') \<Rightarrow> (Block, (cc, rand')))"
  by (auto simp: cc_write_def encode_frame_def frame_def frame_body_def go_basic_defs
      go_bind_def Let_def split: option.splits prod.splits outcome.splits)

definition cc_fits :: "client_conn \<Rightarrow> bytes \<Rightarrow> bytes \<Rightarrow> bool" where
  "cc_fits cc nonce data \<longleftrightarrow> cc_buf_ok cc \<and> frame_fits (cc_aesgcm cc) nonce data"

interpretation cli_codec: frame_codec cc_read "\<lambda>cc. frame (cc_aesgcm cc)" cc_fits
proof (rule frame_codec.intro)
  show "stream_reader (cc_read cc)" for cc by (rule cc_read_parser)
  show "cc_read cc \<lparr>rd_data = frame (cc_aesgcm cc) n d @ rest, rd_end = e\<rparr>
      = (Ok d, \<lparr>rd_data = rest, rd_end = e\<rparr>)" if "cc_fits cc n d" for cc n d rest e
    using that by (simp add: cc_fits_def cc_read_spec spec_codec.roundtrip)
  show "length (rd_data r') < length (rd_data r)" if "cc_read cc r = (Ok d, r')" for cc r d r'
    using that by (rule cc_read_progress)
qed

text \<open>Over a stream whose writes succeed, \<open>write\<close> appends one frame and draws one nonce.\<close>

definition cc_ready :: "client_conn \<Rightarrow> bool" where
  "cc_ready cc \<longleftrightarrow> (case cc_conn cc of None \<Rightarrow> False | Some w \<Rightarrow> reliable w)"

definition cc_out :: "client_conn \<Rightarrow> bytes" where
  "cc_out cc = (case cc_conn cc of None \<Rightarrow> [] | Some w \<Rightarrow> wr_out w)"

interpretation cli_writer: frame_writer cc_write cc_out cc_aesgcm cc_ready
proof
  fix s d and r :: reader
  assume "cc_ready s" and k: "nonce_len (cc_aesgcm s) \<le> length (rd_data r)"
  then obtain w where w: "cc_conn s = Some w" "reliable w"
    by (auto simp: cc_ready_def split: option.splits)
  then show "\<exists>s'. cc_write d (s, r)
        = (Ok (), s', r\<lparr>rd_data := drop (nonce_len (cc_aesgcm s)) (rd_data r)\<rparr>)
      \<and> cc_out s' = cc_out s @ frame (cc_aesgcm s) (take (nonce_len (cc_aesgcm s)) (rd_data r)) d
      \<and> cc_aesgcm s' = cc_aesgcm s \<and> cc_ready s'"
    by (simp add: cc_write_spec encode_frame_Ok [OF k] cc_flush_def wr_write_reliable
        cc_out_def cc_ready_def reliable_def)
qed

text \<open>The loop never returns nil by itself: it ends by an error, a panic, or a blocked handler.\<close>

lemma cc_read_loop_not_Ok: "cc_read_loop h cc r st \<noteq> (Ok (), r', st')"
proof (induction h cc r st rule: cc_read_loop.induct)
  case (1 h cc r st)
  note unfold = cc_read_loop.simps [of _ cc r st]
  obtain o1 r1 where rd: "cc_read cc r = (o1, r1)" by fastforce
  show ?case
  proof (cases o1)
    case (Ok data)
    show ?thesis
    proof (cases h)
      case None
      with "1.IH"(1) rd Ok show ?thesis by (simp add: unfold)
    next
      case (Some f)
      obtain o2 st2 where f: "f data st = (o2, st2)" by fastforce
      with "1.IH"(2,3) rd Ok Some show ?thesis by (cases o2) (simp_all add: unfold)
    qed
  qed (simp_all add: unfold rd)
qed

end
