(* ===== verification/Client.thy ===== *)
theory Client
  imports ClientConn Config "HOL-Library.Signed_Division"
begin

text \<open>
  \<open>transport/client.go\<close>: the client's connections, the round-robin choice of the one that takes
  the next message, and the pings. \<open>serial\<close> is a 64-bit counter that wraps; Go's \<open>%\<close> truncates
  towards zero (\<open>smod\<close>). A send on a connection's unbuffered channel is complete when the writing
  goroutine takes it; \<open>cl_sent\<close> records the completed sends, each with the connection's index.
\<close>

record client =
  cl_remoteAddr :: string
  cl_key :: string
  cl_threads :: int
  cl_conns :: "client_conn option list"
  cl_serial :: "64 word"
  cl_handler :: bool
  cl_wg :: int
  cl_sent :: "(nat \<times> bytes) list"

definition NewClient :: "string \<Rightarrow> string \<Rightarrow> int \<Rightarrow> bool \<Rightarrow> client" where
  "NewClient remoteAddr key threads handler =
     \<lparr>cl_remoteAddr = remoteAddr, cl_key = key, cl_threads = threads, cl_conns = [],
      cl_serial = 0, cl_handler = handler, cl_wg = 0, cl_sent = []\<rparr>"

section \<open>Starting\<close>

text \<open>The wait for the connection: up to ten looks at its flag, half a second apart.\<close>

fun poll_connected :: "nat \<Rightarrow> client_conn \<Rightarrow> bool" where
  "poll_connected 0 conn = False"
| "poll_connected (Suc n) conn = (if cc_IsConnected conn then True else poll_connected n conn)"

text \<open>
  One turn of the loop in \<open>Start\<close>: the wait group counts the connection, and a connection that
  is not up by then leaves its slot nil and is uncounted.
\<close>

definition start_conn ::
    "crypto_lib \<Rightarrow> bool \<Rightarrow> (nat \<Rightarrow> dial_result) \<Rightarrow> nat \<Rightarrow> client \<Rightarrow> client" where
  "start_conn lib noDelay dial i c =
     (let c = c\<lparr>cl_wg := cl_wg c + 1\<rparr>;
          conn = NewClientConn (cl_remoteAddr c) (cl_key c) (int i) noDelay;
          conn = cc_SetHander (cl_handler c) conn;
          (_, conn) = cc_InitConn lib (dial i) conn in
      if poll_connected 10 conn then c\<lparr>cl_conns := (cl_conns c)[i := Some conn]\<rparr>
      else c\<lparr>cl_wg := cl_wg c - 1\<rparr>)"

definition client_Start ::
    "crypto_lib \<Rightarrow> bool \<Rightarrow> (nat \<Rightarrow> dial_result) \<Rightarrow> (client, unit) go" where
  "client_Start lib noDelay dial c =
     (if cl_threads c < 0 then (Panic ''runtime error: makeslice: len out of range'', c)
      else let n = nat (cl_threads c);
               c = c\<lparr>cl_conns := replicate n None\<rparr> in
           (Ok (), fold (start_conn lib noDelay dial) [0..<n] c))"

section \<open>Sending\<close>

text \<open>The index of the next connection: a division by zero and an index out of range panic.\<close>

definition client_pick :: "(client, nat) go" where
  "client_pick c =
     (let serial = cl_serial c + 1;
          c = c\<lparr>cl_serial := serial\<rparr> in
      if cl_threads c = 0 then (Panic ''runtime error: integer divide by zero'', c)
      else let next = sint serial smod cl_threads c in
        if 0 \<le> next \<and> next < int (length (cl_conns c)) then (Ok (nat next), c)
        else (Panic ''runtime error: index out of range'', c))"

text \<open>
  \<open>conn.Write(data)\<close> on the connection at an index: nil connections drop the data; on the others
  the send waits for the writing goroutine and is then complete.
\<close>

definition conn_Write_at :: "nat \<Rightarrow> bytes \<Rightarrow> (client, unit) go" where
  "conn_Write_at i data c = (case cc_Write data (cl_conns c ! i) of
     (Block, _) \<Rightarrow> (Ok (), c\<lparr>cl_sent := cl_sent c @ [(i, data)]\<rparr>)
   | (Panic p, _) \<Rightarrow> (Panic p, c)
   | (_, _) \<Rightarrow> (Ok (), c))"

definition client_Write :: "bytes \<Rightarrow> (client, unit) go" where
  "client_Write data = go_bind client_pick (\<lambda>i. conn_Write_at i data)"

definition client_WriteNow :: "bytes \<Rightarrow> (client, unit) go" where
  "client_WriteNow data c =
     (if cl_threads c = 1
      then (if cl_conns c = [] then (Panic ''runtime error: index out of range'', c)
            else conn_Write_at 0 data c)
      else client_Write data c)"

definition client_SendPacket :: "codec \<Rightarrow> packet_ip \<Rightarrow> (client, unit) go" where
  "client_SendPacket cd pkt =
     client_Write (fst (proto_Marshal cd
       \<lparr>EType = Some (Envelope_Packet (Some \<lparr>Payload = pk_bytes pkt\<rparr>))\<rparr>))"

section \<open>Pings\<close>

text \<open>\<open>ip:port\<close>, with the interface address as configured, its prefix length included.\<close>

definition GetTunLocalAddrWithPortOnConn :: "config \<Rightarrow> client_conn \<Rightarrow> string outcome" where
  "GetTunLocalAddrWithPortOnConn cfg conn = (case cc_GetConnPort conn of
     Ok port \<Rightarrow> Ok (Cfg_Ip cfg @ '':'' @ port)
   | Err e \<Rightarrow> Err e | Panic p \<Rightarrow> Panic p | Block \<Rightarrow> Block)"

definition ping_envelope :: "64 word \<Rightarrow> string \<Rightarrow> bytes \<Rightarrow> envelope" where
  "ping_envelope now localAddr ip =
     \<lparr>EType = Some (Envelope_Ping (Some
        \<lparr>Timestamp = now, LocalAddr = localAddr, LocalPrivateAddr = ''not_use'',
         IP = ip_string ip, DC = ''client''\<rparr>))\<rparr>"

text \<open>
  \<open>SendPing\<close>: the address announced is that of the connection given; the message goes through
  the round-robin \<open>Write\<close>.
\<close>

definition SendPing ::
    "codec \<Rightarrow> (string \<Rightarrow> bytes option) \<Rightarrow> config \<Rightarrow> 64 word \<Rightarrow> client_conn \<Rightarrow> (client, unit) go" where
  "SendPing cd p6 cfg now conn c = (case parse_cidr p6 (Cfg_Ip cfg) of
     Inl err \<Rightarrow> (Panic (error_string err), c)
   | Inr (ip, _) \<Rightarrow> (case GetTunLocalAddrWithPortOnConn cfg conn of
       Ok localAddr \<Rightarrow>
         (case proto_Marshal cd (ping_envelope now localAddr ip) of
            (data, Some err) \<Rightarrow> (Panic (error_string err), c)
          | (data, None) \<Rightarrow> client_Write data c)
     | Err e \<Rightarrow> (Err e, c)
     | Panic p \<Rightarrow> (Panic p, c)
     | Block \<Rightarrow> (Block, c)))"

fun SendAllPing_loop ::
    "codec \<Rightarrow> (string \<Rightarrow> bytes option) \<Rightarrow> config \<Rightarrow> 64 word \<Rightarrow> client_conn option list
      \<Rightarrow> (client, unit) go" where
  "SendAllPing_loop cd p6 cfg now [] c = (Ok (), c)"
| "SendAllPing_loop cd p6 cfg now (None # vs) c = SendAllPing_loop cd p6 cfg now vs c"
| "SendAllPing_loop cd p6 cfg now (Some v # vs) c =
     go_bind (SendPing cd p6 cfg now v) (\<lambda>_. SendAllPing_loop cd p6 cfg now vs) c"

definition SendAllPing ::
    "codec \<Rightarrow> (string \<Rightarrow> bytes option) \<Rightarrow> config \<Rightarrow> 64 word \<Rightarrow> (client, unit) go" where
  "SendAllPing cd p6 cfg now c = SendAllPing_loop cd p6 cfg now (cl_conns c) c"

text \<open>
  \<open>ping\<close>: a round of pings at once and one per tick, at the given times; a panic is recovered and
  ends it, otherwise it waits for the next tick. The goroutine \<open>Start\<close> leaves behind runs \<open>ping\<close>
  again whenever it ends; each list of times belongs to one life of the ticker.
\<close>

fun ping_rounds :: "codec \<Rightarrow> (string \<Rightarrow> bytes option) \<Rightarrow> config \<Rightarrow> 64 word list \<Rightarrow> (client, unit) go" where
  "ping_rounds cd p6 cfg [] c = (Block, c)"
| "ping_rounds cd p6 cfg (now # nows) c =
     go_bind (SendAllPing cd p6 cfg now) (\<lambda>_. ping_rounds cd p6 cfg nows) c"

definition client_ping ::
    "codec \<Rightarrow> (string \<Rightarrow> bytes option) \<Rightarrow> config \<Rightarrow> 64 word list \<Rightarrow> (client, unit) go" where
  "client_ping cd p6 cfg nows c = (case ping_rounds cd p6 cfg nows c of
     (Panic p, c') \<Rightarrow> (Ok (), c')
   | (res, c') \<Rightarrow> (res, c'))"

fun ping_forever ::
    "codec \<Rightarrow> (string \<Rightarrow> bytes option) \<Rightarrow> config \<Rightarrow> 64 word list list \<Rightarrow> (client, unit) go" where
  "ping_forever cd p6 cfg [] c = (Block, c)"
| "ping_forever cd p6 cfg (nows # lives) c = (case client_ping cd p6 cfg nows c of
     (Ok _, c') \<Rightarrow> ping_forever cd p6 cfg lives c'
   | (res, c') \<Rightarrow> (res, c'))"

section \<open>Stopping and waiting\<close>

text \<open>A look at a nil connection dereferences it; otherwise the number of connections up.\<close>

fun count_connected :: "client_conn option list \<Rightarrow> int outcome" where
  "count_connected [] = Ok 0"
| "count_connected (None # cs) = Panic ''invalid memory address or nil pointer dereference''"
| "count_connected (Some conn # cs) = (case count_connected cs of
     Ok n \<Rightarrow> Ok (if cc_IsConnected conn then n + 1 else n) | r \<Rightarrow> r)"

text \<open>\<open>ConnectWait\<close> for one turn: whether it returns now.\<close>

definition ConnectWait_turn :: "client \<Rightarrow> bool outcome" where
  "ConnectWait_turn c = (case count_connected (cl_conns c) of
     Ok n \<Rightarrow> Ok (n = cl_threads c)
   | Panic p \<Rightarrow> Panic p | Err e \<Rightarrow> Err e | Block \<Rightarrow> Block)"

text \<open>
  \<open>Stop\<close> closes the connections one after the other; \<open>closes i\<close> says whether the token of the \<open>i\<close>-th
  is taken and its \<open>run\<close> ends, without which \<open>Close\<close> waits forever. Each close counts the wait
  group down; at the end the wait group must be zero.
\<close>

fun close_conns :: "(nat \<Rightarrow> bool) \<Rightarrow> nat \<Rightarrow> client_conn option list \<Rightarrow> (int, unit) go" where
  "close_conns closes i [] wg = (Ok (), wg)"
| "close_conns closes i (None # cs) wg = (Panic ''invalid memory address or nil pointer dereference'', wg)"
| "close_conns closes i (Some conn # cs) wg =
     (if closes i then close_conns closes (Suc i) cs (wg - 1) else (Block, wg))"

definition client_Stop :: "(nat \<Rightarrow> bool) \<Rightarrow> (client, unit) go" where
  "client_Stop closes c = (case close_conns closes 0 (cl_conns c) (cl_wg c) of
     (Ok _, wg) \<Rightarrow> ((if wg = 0 then Ok () else Block), c\<lparr>cl_wg := wg\<rparr>)
   | (res, wg) \<Rightarrow> (res, c\<lparr>cl_wg := wg\<rparr>))"

section \<open>Lemmas\<close>

lemma poll_connected_iff: "poll_connected n conn \<longleftrightarrow> 0 < n \<and> cc_connected conn"
  by (induction n) (simp_all add: cc_IsConnected_def)

lemma cl_threads_start_conn [simp]: "cl_threads (start_conn lib nd dial i c) = cl_threads c"
  by (simp add: start_conn_def Let_def split: prod.splits)

lemma length_start_conn [simp]: "length (cl_conns (start_conn lib nd dial i c)) = length (cl_conns c)"
  by (simp add: start_conn_def Let_def split: prod.splits)

lemma start_conn_fold:
  "length (cl_conns (fold (start_conn lib nd dial) is c)) = length (cl_conns c)
   \<and> cl_threads (fold (start_conn lib nd dial) is c) = cl_threads c"
  by (induction "is" arbitrary: c) simp_all

text \<open>
  After \<open>Start\<close> has treated the first \<open>m\<close> slots: the wait group counts the slots in use, each of
  these holds a connection that is up, under its own index, and the others are nil.
\<close>

definition slots_used :: "client_conn option list \<Rightarrow> int" where
  "slots_used cs = int (length (filter (\<lambda>x. x \<noteq> None) cs))"

definition start_inv :: "nat \<Rightarrow> client \<Rightarrow> bool" where
  "start_inv m c \<longleftrightarrow> cl_wg c = slots_used (cl_conns c) \<and>
     (\<forall>j < length (cl_conns c). case cl_conns c ! j of
        None \<Rightarrow> True
      | Some v \<Rightarrow> j < m \<and> cc_connected v \<and> cc_index v = int j \<and> cc_chanWrite v \<noteq> None)"

lemma slots_used_replicate [simp]: "slots_used (replicate n None) = 0"
  by (simp add: slots_used_def)

lemma slots_used_update:
  assumes "i < length cs" and "cs ! i = None"
  shows "slots_used (cs[i := Some v]) = slots_used cs + 1"
proof -
  have split: "cs = take i cs @ None # drop (Suc i) cs"
    using id_take_nth_drop [OF assms(1)] unfolding assms(2) .
  have "slots_used cs = slots_used (take i cs) + slots_used (drop (Suc i) cs)"
    by (subst split) (simp add: slots_used_def)
  moreover have "slots_used (cs[i := Some v]) = slots_used (take i cs) + slots_used (drop (Suc i) cs) + 1"
    using assms(1) by (simp add: upd_conv_take_nth_drop slots_used_def)
  ultimately show ?thesis by simp
qed

lemma cc_InitConn_keeps:
  "cc_InitConn lib dial cc = (res, cc') \<Longrightarrow>
   cc_index cc' = cc_index cc \<and> cc_chanWrite cc' = cc_chanWrite cc"
  by (auto simp: cc_InitConn_def cc_crypto_def cc_tryConnect_def cc_setConnected_def Let_def POE_def
      split: if_splits sum.splits option.splits prod.splits outcome.splits)

lemma start_conn_inv:
  assumes inv: "start_inv i c" and i: "i < length (cl_conns c)"
  shows "start_inv (Suc i) (start_conn lib nd dial i c)"
proof -
  obtain res conn where conn: "cc_InitConn lib (dial i) (cc_SetHander (cl_handler c)
      (NewClientConn (cl_remoteAddr c) (cl_key c) (int i) nd)) = (res, conn)"
    by fastforce
  have keeps: "cc_index conn = int i" "cc_chanWrite conn \<noteq> None"
    using cc_InitConn_keeps [OF conn] by (simp_all add: cc_SetHander_def NewClientConn_def)
  have eq: "start_conn lib nd dial i c =
      (if cc_connected conn
       then c\<lparr>cl_wg := cl_wg c + 1, cl_conns := (cl_conns c)[i := Some conn]\<rparr> else c)"
    using poll_connected_iff [of 10 conn]
    by (simp add: start_conn_def conn Let_def)
  show ?thesis
  proof (cases "cc_connected conn")
    case True
    have "cl_conns c ! i = None"
      using inv i unfolding start_inv_def by (fastforce split: option.splits)
    with True inv i keeps show ?thesis
      unfolding eq start_inv_def
      by (auto simp: slots_used_update nth_list_update less_Suc_eq split: option.splits)
  next
    case False
    with inv show ?thesis
      unfolding eq start_inv_def by (auto simp: less_Suc_eq split: option.splits)
  qed
qed

lemma start_loop_inv:
  assumes "start_inv 0 c" and "n \<le> length (cl_conns c)"
  shows "start_inv n (fold (start_conn lib nd dial) [0..<n] c)"
  using assms(2)
proof (induction n)
  case 0
  then show ?case using assms(1) by simp
next
  case (Suc n)
  then show ?case by (simp add: start_conn_inv start_conn_fold)
qed

section \<open>Round robin\<close>

text \<open>The counter's value as an integer, while it does not wrap.\<close>

lemma sint_of_nat_64: "n < 2 ^ 63 \<Longrightarrow> sint (of_nat n :: 64 word) = int n"
  by (simp add: signed_of_nat signed_take_bit_int_eq_self)

definition picks_ok :: "client \<Rightarrow> nat \<Rightarrow> nat \<Rightarrow> bool" where
  "picks_ok c t s \<longleftrightarrow> 0 < t \<and> cl_threads c = int t \<and> length (cl_conns c) = t \<and> cl_serial c = of_nat s"

lemma client_pick_next:
  assumes ok: "picks_ok c t s" and s: "Suc s < 2 ^ 63"
  shows "client_pick c = (Ok (Suc s mod t), c\<lparr>cl_serial := of_nat (Suc s)\<rparr>)"
proof -
  have serial: "cl_serial c + 1 = of_nat (Suc s)" using ok by (simp add: picks_ok_def)
  have "sint (of_nat (Suc s) :: 64 word) smod int t = int (Suc s mod t)"
    using sint_of_nat_64 [OF s] by (simp add: smod_mod_positive zmod_int del: of_nat_Suc)
  then show ?thesis
    using ok unfolding client_pick_def serial Let_def by (simp add: picks_ok_def del: of_nat_Suc)
qed

lemma client_picks:
  assumes "picks_ok c t s" and "s + k < 2 ^ 63"
  shows "reads client_pick c (map (\<lambda>j. (s + j) mod t) [1..<Suc k]) (c\<lparr>cl_serial := of_nat (s + k)\<rparr>)"
  using assms(2)
proof (induction k)
  case 0
  then show ?case using assms(1) by (simp add: picks_ok_def)
next
  case (Suc k)
  let ?c = "c\<lparr>cl_serial := of_nat (s + k)\<rparr>"
  have "picks_ok ?c t (s + k)" using assms(1) by (simp add: picks_ok_def)
  from client_pick_next [OF this] Suc.prems
  have "reads client_pick ?c [(s + Suc k) mod t] (c\<lparr>cl_serial := of_nat (s + Suc k)\<rparr>)"
    by (auto simp: reads_Cons_simp)
  from reads_append [OF Suc.IH this] Suc.prems show ?case by simp
qed

text \<open>Any \<open>t\<close> consecutive numbers have every remainder once.\<close>

lemma consecutive_mod:
  assumes "0 < (t :: nat)"
  shows "distinct (map (\<lambda>j. (s + j) mod t) [1..<Suc t])"
    and "set (map (\<lambda>j. (s + j) mod t) [1..<Suc t]) = {0..<t}"
proof -
  have inj: "inj_on (\<lambda>j. (s + j) mod t) (set [1..<Suc t])"
  proof (rule inj_onI)
    fix i j
    assume i: "i \<in> set [1..<Suc t]" and j: "j \<in> set [1..<Suc t]"
      and eq: "(s + i) mod t = (s + j) mod t"
    have "int t dvd (int i - int j)"
      using eq by (metis add_diff_cancel_left mod_eq_dvd_iff of_nat_add zmod_int)
    moreover have "\<bar>int i - int j\<bar> < int t" using i j by auto
    ultimately have "int i - int j = 0" by (meson zdvd_not_zless abs_ge_self dvd_abs_iff abs_less_iff linorder_neqE_linordered_idom zero_less_abs_iff)
    then show "i = j" by simp
  qed
  then show dist: "distinct (map (\<lambda>j. (s + j) mod t) [1..<Suc t])"
    by (simp add: distinct_map)
  have "set (map (\<lambda>j. (s + j) mod t) [1..<Suc t]) \<subseteq> {0..<t}" using assms by auto
  moreover have "card (set (map (\<lambda>j. (s + j) mod t) [1..<Suc t])) = t"
    using distinct_card [OF dist] by simp
  ultimately show "set (map (\<lambda>j. (s + j) mod t) [1..<Suc t]) = {0..<t}"
    by (intro card_subset_eq) simp_all
qed

section \<open>Sends over connections that are up\<close>

text \<open>Every slot holds a connection with its unbuffered channel: no send is dropped.\<close>

definition conns_open :: "client \<Rightarrow> bool" where
  "conns_open c \<longleftrightarrow> (\<forall>x \<in> set (cl_conns c). \<exists>v. x = Some v \<and> cc_chanWrite v = Some (make_chan 0))"

lemma conn_Write_at_open:
  assumes "conns_open c" and "i < length (cl_conns c)"
  shows "conn_Write_at i d c = (Ok (), c\<lparr>cl_sent := cl_sent c @ [(i, d)]\<rparr>)"
proof -
  from assms obtain v where "cl_conns c ! i = Some v" "cc_chanWrite v = Some (make_chan 0)"
    unfolding conns_open_def by (meson nth_mem)
  then show ?thesis
    by (simp add: conn_Write_at_def cc_Write_def chan_send_def make_chan_def)
qed

lemma client_Write_open:
  assumes ok: "picks_ok c t s" and s: "Suc s < 2 ^ 63" and op: "conns_open c"
  shows "client_Write d c
    = (Ok (), c\<lparr>cl_serial := of_nat (Suc s), cl_sent := cl_sent c @ [(Suc s mod t, d)]\<rparr>)"
proof -
  let ?c = "c\<lparr>cl_serial := of_nat (Suc s)\<rparr>"
  have "conns_open ?c" "Suc s mod t < length (cl_conns ?c)"
    using op ok by (simp_all add: conns_open_def picks_ok_def)
  from conn_Write_at_open [OF this, of d] client_pick_next [OF ok s] show ?thesis
    by (simp add: client_Write_def go_bind_def)
qed

lemma picks_ok_step:
  "picks_ok c t s \<Longrightarrow> picks_ok (c\<lparr>cl_serial := of_nat (Suc s), cl_sent := x\<rparr>) t (Suc s)"
  by (simp add: picks_ok_def)

lemma conns_open_step [simp]:
  "conns_open (c\<lparr>cl_serial := w, cl_sent := x\<rparr>) = conns_open c"
  by (simp add: conns_open_def)

end
