(* ===== verification/App.thy ===== *)
theory App
  imports Server Client
begin

text \<open>
  \<open>qtun/app.go\<close>: the routing table from virtual IP to the addresses of the client connections
  announced for it, the handlers of the messages either side receives, the workers that forward
  packets read from the TUN device, and the periodic cleaning. Every critical section is one
  step. The route table is a Go map of Go sets: a nil inner map and an empty one are both \<open>[]\<close>
  and both mean that the packet is dropped.
\<close>

text \<open>\<open>app_heap\<close> holds the connections by address; an address not allocated yet holds a blank one.
  \<open>app_tun\<close> is what has been written to the TUN device.\<close>

record app =
  app_config :: config
  app_client :: "client option"
  app_routes :: "(string \<times> string list) list"
  app_server :: server
  app_heap :: conn_heap
  app_iface :: "iface option"
  app_tun :: "bytes list"

text \<open>Before \<open>Run\<close> the server is nil; no handler runs by then, and an empty server stands for it.\<close>

definition NewApp :: "config \<Rightarrow> app" where
  "NewApp cfg = \<lparr>app_config = cfg, app_client = None, app_routes = [],
     app_server = NewServer [] False [], app_heap = (\<lambda>_. NewServerConn fresh_writer [] False False),
     app_iface = None, app_tun = []\<rparr>"

text \<open>The connection an address leads to, if it is there and not closed.\<close>

definition live_conn :: "app \<Rightarrow> string \<Rightarrow> conn_ptr option" where
  "live_conn a key = (case GetConnsByAddr key (app_server a) of
     None \<Rightarrow> None
   | Some c \<Rightarrow> if sc_isClosed (app_heap a c) then None else Some c)"

lemma live_conn_routes [simp]: "live_conn (a\<lparr>app_routes := r\<rparr>) = live_conn a"
  by (rule ext) (simp add: live_conn_def split: option.splits)

lemma live_conn_tun [simp]: "live_conn (a\<lparr>app_tun := t\<rparr>) = live_conn a"
  by (rule ext) (simp add: live_conn_def split: option.splits)

section \<open>Messages from the peer\<close>

text \<open>
  The payload of a decoded packet is a slice whose capacity the allocator rounds up:
  \<open>spare n\<close> zero bytes behind \<open>n\<close> bytes.
\<close>

definition payload_packet :: "(nat \<Rightarrow> nat) \<Rightarrow> bytes \<Rightarrow> packet_ip" where
  "payload_packet spare bs =
     \<lparr>pk_arr = bs @ replicate (spare (length bs)) 0, pk_len = length bs\<rparr>"

text \<open>\<open>this.iface.Write\<close>: a nil interface or device panics.\<close>

definition app_tun_write :: "packet_ip \<Rightarrow> (app, unit) go" where
  "app_tun_write pkt a = (case app_iface a of
     None \<Rightarrow> (Panic ''invalid memory address or nil pointer dereference'', a)
   | Some i \<Rightarrow> (case if_ifce i of
       None \<Rightarrow> (Panic ''invalid memory address or nil pointer dereference'', a)
     | Some _ \<Rightarrow> (Ok (), a\<lparr>app_tun := Iface_Write pkt (app_tun a)\<rparr>)))"

text \<open>
  A packet message: both addresses are evaluated for the log line, then the packet is written.
\<close>

definition on_packet :: "packet_ip \<Rightarrow> (app, unit) go" where
  "on_packet pkt a = (case GetSourceIP pkt of
     Ok _ \<Rightarrow> (case GetDestinationIP pkt of
         Ok _ \<Rightarrow> app_tun_write pkt a
       | Panic p \<Rightarrow> (Panic p, a) | Err e \<Rightarrow> (Err e, a) | Block \<Rightarrow> (Block, a))
   | Panic p \<Rightarrow> (Panic p, a) | Err e \<Rightarrow> (Err e, a) | Block \<Rightarrow> (Block, a))"

definition add_route :: "string \<Rightarrow> string \<Rightarrow> (string \<times> string list) list \<Rightarrow> (string \<times> string list) list" where
  "add_route ip localAddr routes = (case map_of routes ip of
     Some conns \<Rightarrow> AList.update ip (set_add localAddr conns) routes
   | None \<Rightarrow> AList.update ip [localAddr] routes)"

definition ServerOnData ::
    "codec \<Rightarrow> (nat \<Rightarrow> nat) \<Rightarrow> conn_ptr \<Rightarrow> bytes \<Rightarrow> (app, unit) go" where
  "ServerOnData cd spare conn buf a = (case proto_Unmarshal cd buf of
     Inl err \<Rightarrow> (Ok (), a)
   | Inr ep \<Rightarrow> (case EType ep of
       None \<Rightarrow> (Ok (), a)
     | Some (Envelope_Ping _) \<Rightarrow>
         (let ping = Envelope_GetPing (Some ep);
              ip = MessagePing_GetIP ping;
              localAddr = MessagePing_GetLocalAddr ping;
              a = a\<lparr>app_routes := add_route ip localAddr (app_routes a)\<rparr> in
          case SetConns localAddr (Some conn) (app_server a, app_heap a) of
            (res, (s, h)) \<Rightarrow> (res, a\<lparr>app_server := s, app_heap := h\<rparr>))
     | Some (Envelope_Packet _) \<Rightarrow>
         on_packet (payload_packet spare
           (MessagePacket_GetPayload (Envelope_GetPacket (Some ep)))) a))"

definition ClientOnData :: "codec \<Rightarrow> (nat \<Rightarrow> nat) \<Rightarrow> bytes \<Rightarrow> (app, unit) go" where
  "ClientOnData cd spare buf a = (case proto_Unmarshal cd buf of
     Inl err \<Rightarrow> (Ok (), a)
   | Inr ep \<Rightarrow> (case EType ep of
       None \<Rightarrow> (Ok (), a)
     | Some (Envelope_Ping _) \<Rightarrow> (Ok (), a)
     | Some (Envelope_Packet _) \<Rightarrow>
         on_packet (payload_packet spare
           (MessagePacket_GetPayload (Envelope_GetPacket (Some ep)))) a))"

section \<open>Packets from the TUN device\<close>

text \<open>
  What becomes of a packet on the server: no route, a route without connections, handed to a
  connection's queue, or waiting for room in it. \<open>rnd\<close> is the random source: \<open>rand.Intn(n)\<close> of
  the \<open>k\<close>-th draw is \<open>rnd k mod n\<close>.
\<close>

datatype fetch_result = NoRoute | NoConns | SentTo conn_ptr | WaitsFor conn_ptr

definition del_route_conn :: "string \<Rightarrow> string \<Rightarrow> (string \<times> string list) list \<Rightarrow> (string \<times> string list) list" where
  "del_route_conn dst key routes = AList.map_entry dst (set_del key) routes"

definition send_to :: "codec \<Rightarrow> packet_ip \<Rightarrow> conn_ptr \<Rightarrow> app \<Rightarrow> fetch_result \<times> app" where
  "send_to cd pkt c a = (case sc_SendPacket cd pkt (app_heap a c) of
     (res, sc') \<Rightarrow> ((if res = Block then WaitsFor c else SentTo c),
                   a\<lparr>app_heap := (app_heap a)(c := sc')\<rparr>))"

lemma map_of_del_route_conn:
  "map_of (del_route_conn dst key routes) d =
     (if d = dst then map_option (set_del key) (map_of routes d) else map_of routes d)"
  by (auto simp: del_route_conn_def AList.map_of_map_entry split: option.splits)

definition route_len :: "string \<Rightarrow> app \<Rightarrow> nat" where
  "route_len dst a = (case map_of (app_routes a) dst of None \<Rightarrow> 0 | Some ks \<Rightarrow> length ks)"

function fetch_server ::
    "codec \<Rightarrow> (nat \<Rightarrow> nat) \<Rightarrow> packet_ip \<Rightarrow> string \<Rightarrow> nat \<Rightarrow> app \<Rightarrow> fetch_result \<times> app" where
  "fetch_server cd rnd pkt dst k a = (case map_of (app_routes a) dst of
     None \<Rightarrow> (NoRoute, a)
   | Some keys \<Rightarrow>
       if keys = [] then (NoConns, a)
       else let key = keys ! (rnd k mod length keys) in
         (case live_conn a key of
            Some c \<Rightarrow> send_to cd pkt c a
          | None \<Rightarrow> fetch_server cd rnd pkt dst (Suc k)
              (a\<lparr>app_routes := del_route_conn dst key (app_routes a),
                 app_server := DeleteDeadConn key (app_server a)\<rparr>)))"
  by pat_completeness auto
termination
  by (relation "measure (\<lambda>(cd, rnd, pkt, dst, k, a). route_len dst a)")
    (auto simp: route_len_def map_of_del_route_conn intro!: length_set_del_less)

declare fetch_server.simps [simp del]

text \<open>
  One turn of a worker: a packet is read into its buffer, whose length is the MTU, and the
  addresses are taken of it; the server routes it, the client sends it. What is sent is the
  whole buffer. The result says what the server did, an error ends the worker; the buffer is
  carried to the next turn. \<open>worker_send\<close> is the part behind the two log lines.
\<close>

definition worker_send ::
    "codec \<Rightarrow> (nat \<Rightarrow> nat) \<Rightarrow> packet_ip \<Rightarrow> string \<Rightarrow> app \<Rightarrow> fetch_result option outcome \<times> app" where
  "worker_send cd rnd pkt dst a =
     (if Cfg_ServerMode (app_config a)
      then (case fetch_server cd rnd pkt dst 0 a of (res, a') \<Rightarrow> (Ok (Some res), a'))
      else (case app_client a of
        None \<Rightarrow> (Panic ''invalid memory address or nil pointer dereference'', a)
      | Some cl \<Rightarrow> (case client_SendPacket cd pkt cl of
          (Ok _, cl') \<Rightarrow> (Ok None, a\<lparr>app_client := Some cl'\<rparr>)
        | (Err e, cl') \<Rightarrow> (Err e, a\<lparr>app_client := Some cl'\<rparr>)
        | (Panic p, cl') \<Rightarrow> (Panic p, a\<lparr>app_client := Some cl'\<rparr>)
        | (Block, cl') \<Rightarrow> (Block, a\<lparr>app_client := Some cl'\<rparr>))))"

definition FetchAndProcessTunPkt_turn ::
    "codec \<Rightarrow> (nat \<Rightarrow> nat) \<Rightarrow> go_error + bytes \<Rightarrow> packet_ip \<Rightarrow> app
      \<Rightarrow> fetch_result option outcome \<times> packet_ip \<times> app" where
  "FetchAndProcessTunPkt_turn cd rnd device pkt a = (case device of
     Inl err \<Rightarrow> (Err err, pkt, a)
   | Inr tunframe \<Rightarrow>
     (let (n, pkt) = Iface_Read tunframe pkt in
      case GetSourceIP pkt of
        Ok src \<Rightarrow> (case GetDestinationIP pkt of
          Ok dst \<Rightarrow> (case worker_send cd rnd pkt (ip_string dst) a of (res, a') \<Rightarrow> (res, pkt, a'))
        | Panic p \<Rightarrow> (Panic p, pkt, a) | Err e \<Rightarrow> (Err e, pkt, a) | Block \<Rightarrow> (Block, pkt, a))
      | Panic p \<Rightarrow> (Panic p, pkt, a) | Err e \<Rightarrow> (Err e, pkt, a) | Block \<Rightarrow> (Block, pkt, a)))"

text \<open>The loop of a worker, over what the device delivers: it ends on an error of the device, waits
  when there is nothing more to read or for room in a queue. Every turn draws its own random
  numbers.\<close>

fun FetchAndProcessTunPkt ::
    "codec \<Rightarrow> (nat \<Rightarrow> nat \<Rightarrow> nat) \<Rightarrow> (go_error + bytes) list \<Rightarrow> packet_ip \<Rightarrow> app
      \<Rightarrow> unit outcome \<times> packet_ip \<times> app" where
  "FetchAndProcessTunPkt cd rnd [] pkt a = (Block, pkt, a)"
| "FetchAndProcessTunPkt cd rnd (d # ds) pkt a =
     (case FetchAndProcessTunPkt_turn cd (rnd (length ds)) d pkt a of
        (Ok (Some (WaitsFor c)), pkt', a') \<Rightarrow> (Block, pkt', a')
      | (Ok _, pkt', a') \<Rightarrow> FetchAndProcessTunPkt cd rnd ds pkt' a'
      | (Err e, pkt', a') \<Rightarrow> (Err e, pkt', a')
      | (Panic p, pkt', a') \<Rightarrow> (Panic p, pkt', a')
      | (Block, pkt', a') \<Rightarrow> (Block, pkt', a'))"

section \<open>Cleaning the routes\<close>

fun clean_conns :: "string \<Rightarrow> string list \<Rightarrow> app \<Rightarrow> app" where
  "clean_conns dst [] a = a"
| "clean_conns dst (c # cs) a = clean_conns dst cs
     (if live_conn a c = None
      then a\<lparr>app_routes := del_route_conn dst c (app_routes a),
             app_server := DeleteDeadConn c (app_server a)\<rparr>
      else a)"

fun clean_routes :: "(string \<times> string list) list \<Rightarrow> app \<Rightarrow> app" where
  "clean_routes [] a = a"
| "clean_routes ((dst, conns) # rs) a = clean_routes rs (clean_conns dst conns a)"

definition CleanRoute_task :: "app \<Rightarrow> app" where
  "CleanRoute_task a = clean_routes (app_routes a) a"

section \<open>What dropping dead entries changes\<close>

text \<open>One step both loops share: the key is dead; its route entry and its table entry go.\<close>

definition drop_dead :: "string \<Rightarrow> string \<Rightarrow> app \<Rightarrow> app" where
  "drop_dead dst key a = a\<lparr>app_routes := del_route_conn dst key (app_routes a),
     app_server := DeleteDeadConn key (app_server a)\<rparr>"

lemma drop_dead_simps [simp]:
  "app_heap (drop_dead dst key a) = app_heap a"
  "app_tun (drop_dead dst key a) = app_tun a"
  "app_config (drop_dead dst key a) = app_config a"
  "app_client (drop_dead dst key a) = app_client a"
  "app_iface (drop_dead dst key a) = app_iface a"
  by (simp_all add: drop_dead_def)

lemma drop_dead_live: "live_conn a key = None \<Longrightarrow> live_conn (drop_dead dst key a) = live_conn a"
  by (rule ext)
    (auto simp: live_conn_def drop_dead_def GetConnsByAddr_DeleteDeadConn split: option.splits)

lemma drop_dead_routes:
  "map_of (app_routes (drop_dead dst key a)) d =
     (if d = dst then map_option (set_del key) (map_of (app_routes a) d) else map_of (app_routes a) d)"
  by (simp add: drop_dead_def map_of_del_route_conn)

lemma drop_dead_inv: "srv_inv (app_server a) \<Longrightarrow> srv_inv (app_server (drop_dead dst key a))"
  by (simp add: drop_dead_def srv_inv_DeleteDeadConn)

lemma fetch_server_unfold:
  "fetch_server cd rnd pkt dst k a = (case map_of (app_routes a) dst of
     None \<Rightarrow> (NoRoute, a)
   | Some keys \<Rightarrow>
       if keys = [] then (NoConns, a)
       else (case live_conn a (keys ! (rnd k mod length keys)) of
            Some c \<Rightarrow> send_to cd pkt c a
          | None \<Rightarrow> fetch_server cd rnd pkt dst (Suc k)
              (drop_dead dst (keys ! (rnd k mod length keys)) a)))"
  by (subst fetch_server.simps) (simp add: drop_dead_def Let_def cong: if_cong option.case_cong)

lemma clean_conns_Cons:
  "clean_conns dst (c # cs) a = clean_conns dst cs (if live_conn a c = None then drop_dead dst c a else a)"
  by (simp add: drop_dead_def)

declare clean_conns.simps(2) [simp del]

lemma clean_conns_live [simp]: "live_conn (clean_conns dst cs a) = live_conn a"
  by (induction cs arbitrary: a) (simp_all add: clean_conns_Cons drop_dead_live)

lemma clean_conns_routes:
  "map_of (app_routes (clean_conns dst cs a)) d =
     (if d = dst
      then map_option (filter (\<lambda>c. c \<in> set cs \<longrightarrow> live_conn a c \<noteq> None)) (map_of (app_routes a) d)
      else map_of (app_routes a) d)"
proof (induction cs arbitrary: a)
  case Nil
  then show ?case by (simp add: option.map_id [unfolded id_def])
next
  case (Cons c cs)
  show ?case
  proof (cases "live_conn a c = None")
    case True
    then show ?thesis
      by (auto simp: clean_conns_Cons Cons.IH drop_dead_live drop_dead_routes set_del_def
          option.map_comp comp_def intro!: option.map_cong0 filter_cong)
  next
    case False
    then show ?thesis
      by (auto simp: clean_conns_Cons Cons.IH intro!: option.map_cong0 filter_cong)
  qed
qed

lemma clean_routes_live [simp]: "live_conn (clean_routes rs a) = live_conn a"
  by (induction rs a rule: clean_routes.induct) simp_all

text \<open>Dropping a list of entries keeps what is live and forgets the entries.\<close>

abbreviation drop_all :: "string \<Rightarrow> string list \<Rightarrow> app \<Rightarrow> app" where
  "drop_all dst ks a \<equiv> fold (drop_dead dst) ks a"

lemma drop_all_simps [simp]:
  "app_heap (drop_all dst ks a) = app_heap a"
  "app_tun (drop_all dst ks a) = app_tun a"
  "app_config (drop_all dst ks a) = app_config a"
  by (induction ks arbitrary: a) simp_all

lemma drop_all_live:
  "\<forall>k \<in> set ks. live_conn a k = None \<Longrightarrow> live_conn (drop_all dst ks a) = live_conn a"
proof (induction ks arbitrary: a)
  case (Cons k ks)
  then have "live_conn (drop_dead dst k a) = live_conn a" by (simp add: drop_dead_live)
  with Cons show ?case by simp
qed simp

lemma drop_all_routes:
  "map_of (app_routes (drop_all dst ks a)) d =
     (if d = dst then map_option (filter (\<lambda>k. k \<notin> set ks)) (map_of (app_routes a) d)
      else map_of (app_routes a) d)"
proof (induction ks arbitrary: a)
  case Nil
  then show ?case by (simp add: option.map_id [unfolded id_def])
next
  case (Cons k ks)
  then show ?case
    by (auto simp: drop_dead_routes option.map_comp comp_def set_del_def
        intro!: option.map_cong0 filter_cong)
qed

lemma drop_all_conns:
  "GetConnsByAddr key (app_server (drop_all dst ks a)) =
     (if key \<in> set ks then None else GetConnsByAddr key (app_server a))"
  by (induction ks arbitrary: a) (simp_all add: drop_dead_def GetConnsByAddr_DeleteDeadConn)

lemma drop_all_inv: "srv_inv (app_server a) \<Longrightarrow> srv_inv (app_server (drop_all dst ks a))"
  by (induction ks arbitrary: a) (simp_all add: drop_dead_inv)

text \<open>What a worker does with a packet: it drops dead entries until it meets a live one.\<close>

lemma fetch_server_result:
  assumes "map_of (app_routes a) dst = Some keys"
  shows "\<exists>ds. set ds \<subseteq> set keys \<and> (\<forall>d \<in> set ds. live_conn a d = None) \<and>
    ((\<exists>key \<in> set keys. \<exists>c. live_conn a key = Some c
        \<and> fetch_server cd rnd pkt dst k a = send_to cd pkt c (drop_all dst ds a))
     \<or> set ds = set keys \<and> fetch_server cd rnd pkt dst k a = (NoConns, drop_all dst ds a))"
  using assms
proof (induction n \<equiv> "length keys" arbitrary: a k keys rule: less_induct)
  case less
  show ?case
  proof (cases "keys = []")
    case True
    with less.prems show ?thesis
      by (intro exI [of _ "[]"]) (simp add: fetch_server_unfold [of _ _ _ _ _ a])
  next
    case False
    define key where "key = keys ! (rnd k mod length keys)"
    have mem: "key \<in> set keys" using False by (simp add: key_def)
    show ?thesis
    proof (cases "live_conn a key")
      case (Some c)
      with less.prems False mem show ?thesis
        by (intro exI [of _ "[]"]) (auto simp: fetch_server_unfold [of _ _ _ _ _ a] key_def)
    next
      case None
      let ?a = "drop_dead dst key a" and ?keys = "set_del key keys"
      have unf: "fetch_server cd rnd pkt dst k a = fetch_server cd rnd pkt dst (Suc k) ?a"
        using less.prems False None by (simp add: fetch_server_unfold [of _ _ _ _ _ a] key_def)
      have live: "live_conn ?a = live_conn a" by (rule drop_dead_live [OF None])
      have "map_of (app_routes ?a) dst = Some ?keys" using less.prems by (simp add: drop_dead_routes)
      from less.hyps [OF length_set_del_less [OF mem] this, where k = "Suc k"] obtain ds
        where ds: "set ds \<subseteq> set ?keys" "\<forall>d \<in> set ds. live_conn a d = None"
          "(\<exists>key \<in> set ?keys. \<exists>c. live_conn a key = Some c
              \<and> fetch_server cd rnd pkt dst (Suc k) ?a = send_to cd pkt c (drop_all dst ds ?a))
           \<or> set ds = set ?keys \<and> fetch_server cd rnd pkt dst (Suc k) ?a = (NoConns, drop_all dst ds ?a)"
        unfolding live by blast
      show ?thesis
        using ds None mem unfolding unf
        by (intro exI [of _ "key # ds"]) auto
    qed
  qed
qed

end
