(* ===== verification/Timer.thy ===== *)
theory Timer
  imports Prelude
begin

text \<open>
  \<open>utils/timer/timer.go\<close>: periodic tasks by interval, in nanoseconds. A task is a state
  transformer; what the running task sees is the list of its timer's ticks and its context's end.
\<close>

record 's timer =
  tm_Timers :: "(int \<times> ('s \<Rightarrow> 's)) list"
  tm_CancelFuncs :: "int list"

definition NewTimer :: "'s timer" where
  "NewTimer = \<lparr>tm_Timers = [], tm_CancelFuncs = []\<rparr>"

definition RegisterTask :: "('s \<Rightarrow> 's) \<Rightarrow> int \<Rightarrow> 's timer \<Rightarrow> 's timer" where
  "RegisterTask fn interval t = t\<lparr>tm_Timers := AList.update interval fn (tm_Timers t)\<rparr>"

datatype task_event = Tick | Done

text \<open>\<open>RunTask\<close> runs the task at once, and again at every tick until the context is done.\<close>

fun run_ticks :: "('s \<Rightarrow> 's) \<Rightarrow> task_event list \<Rightarrow> 's \<Rightarrow> 's" where
  "run_ticks fn [] s = s"
| "run_ticks fn (Done # es) s = s"
| "run_ticks fn (Tick # es) s = run_ticks fn es (fn s)"

definition RunTask :: "('s \<Rightarrow> 's) \<Rightarrow> task_event list \<Rightarrow> 's \<Rightarrow> 's" where
  "RunTask fn es s = run_ticks fn es (fn s)"

text \<open>\<open>Start\<close> starts a goroutine for every task; the result lists them with their intervals. Those of
  an earlier \<open>Start\<close> whose interval is started again lose their cancel function.\<close>

definition Timer_Start :: "'s timer \<Rightarrow> (int \<times> ('s \<Rightarrow> 's)) list \<times> 's timer" where
  "Timer_Start t = (tm_Timers t,
     t\<lparr>tm_CancelFuncs := fold set_add (map fst (tm_Timers t)) (tm_CancelFuncs t)\<rparr>)"

text \<open>\<open>Stop\<close> cancels every task that has a cancel function.\<close>

definition Timer_Stop :: "'s timer \<Rightarrow> int list" where
  "Timer_Stop t = tm_CancelFuncs t"

lemma run_ticks_pow: "run_ticks fn es s = (fn ^^ length (takeWhile (\<lambda>e. e = Tick) es)) s"
  by (induction fn es s rule: run_ticks.induct) (simp_all add: funpow_swap1)

lemma set_fold_set_add: "set (fold set_add xs ys) = set xs \<union> set ys"
  by (induction xs arbitrary: ys) auto

text \<open>A task runs once at the start and then once per tick, and not any more once it has been
  cancelled; a second task with the same interval takes the first one's place; and stopping after
  starting cancels every task that was started.\<close>

theorem task_lifecycle:
  "RunTask fn (replicate n Tick @ Done # es) s = (fn ^^ Suc n) s
   \<and> map_of (tm_Timers (RegisterTask gn i (RegisterTask fn i t))) i = Some gn
   \<and> set (map fst (fst (Timer_Start t))) \<subseteq> set (Timer_Stop (snd (Timer_Start t)))"
  by (simp add: RunTask_def run_ticks_pow RegisterTask_def Timer_Start_def Timer_Stop_def
      set_fold_set_add funpow_swap1 takeWhile_append)

end
