(* ===== verification/MainCmd.thy ===== *)
theory MainCmd
  imports App Timer
begin

text \<open>
  \<open>main.go\<close>, \<open>fileserver/http.go\<close>, \<open>utils/log/log.go\<close> and the rest of \<open>qtun/app.go\<close>: the options,
  what the command starts, and in which order. What it starts is listed as effects: log lines,
  servers of the standard library and goroutines are the environment's.
\<close>

record cmd_opts =
  Opt_Key :: string
  Opt_RemoteAddrs :: string
  Opt_Listen :: string
  Opt_TransportThreads :: int
  Opt_Ip :: string
  Opt_Mtu :: int
  Opt_LogLevel :: string
  Opt_ServerMode :: bool
  Opt_Socks5Port :: int
  Opt_FileServerPort :: int
  Opt_FileDir :: string
  Opt_NoDelay :: bool
  Opt_ProxyOnly :: bool

text \<open>The defaults \<open>Command\<close> binds.\<close>

definition Command_defaults :: cmd_opts where
  "Command_defaults = \<lparr>Opt_Key = ''hello-world'', Opt_RemoteAddrs = ''2.2.2.2:8080'',
     Opt_Listen = ''0.0.0.0:8080'', Opt_TransportThreads = 1, Opt_Ip = ''10.237.0.1/16'',
     Opt_Mtu = 1500, Opt_LogLevel = ''info'', Opt_ServerMode = False, Opt_Socks5Port = 2080,
     Opt_FileServerPort = 6061, Opt_FileDir = ''../static'', Opt_NoDelay = False,
     Opt_ProxyOnly = False\<rparr>"

definition config_of :: "cmd_opts \<Rightarrow> config" where
  "config_of o' = \<lparr>Cfg_Key = Opt_Key o', Cfg_RemoteAddrs = Opt_RemoteAddrs o', Cfg_Listen = Opt_Listen o',
     Cfg_TransportThreads = Opt_TransportThreads o', Cfg_Ip = Opt_Ip o', Cfg_Mtu = Opt_Mtu o',
     Cfg_ServerMode = Opt_ServerMode o', Cfg_NoDelay = Opt_NoDelay o'\<rparr>"

datatype log_level = InfoLevel | DebugLevel

definition InitLog :: "string \<Rightarrow> log_level" where
  "InitLog loglevel =
     (if loglevel = ''info'' then InfoLevel
      else if loglevel = ''debug'' then DebugLevel
      else InfoLevel)"

text \<open>
  What is started: a process, the global log level, a SOCKS5 server on a port, in the foreground
  or as a goroutine, the file server, the QUIC server, the periodic cleaning with its interval,
  the client, the workers on the TUN device, each with its packet buffer's size, the number of
  processors used, the statistics page and the server of the default HTTP routes.
\<close>

datatype effect =
    SetLogLevel log_level
  | Exec "string list"
  | Socks5 string
  | GoSocks5 string
  | GoFileServer string string
  | GoServer string
  | GoClean int
  | StartClient string int
  | GoWorker int int
  | Worker int int
  | SetMaxProcs int
  | RegisterStats
  | GoHttp string

definition fileserver_Start :: "string \<Rightarrow> string \<Rightarrow> effect list" where
  "fileserver_Start dir port = [GoFileServer dir (''0.0.0.0:'' @ port)]"

definition proxy_cmd :: "string list" where
  "proxy_cmd = [''networksetup'', ''-setautoproxyurl'', ''Wi-Fi'', ''http://127.0.0.1:6061/proxy.pac'']"

text \<open>On any other system the command is nil, and running it panics.\<close>

definition SetProxy :: "string \<Rightarrow> unit outcome \<times> effect list" where
  "SetProxy goos =
     (if goos = ''darwin'' then (Ok (), [Exec proxy_cmd])
      else if goos = ''linux'' then (Ok (), [])
      else if goos = ''windows'' then (Ok (), [])
      else (Panic ''invalid memory address or nil pointer dereference'', []))"

definition minute :: int where
  "minute = 60 * 1000000000"

text \<open>\<open>CleanRoute\<close> registers the task under one minute and starts the timer.\<close>

definition App_CleanRoute :: "app timer \<Rightarrow> effect list \<times> app timer" where
  "App_CleanRoute tm = (case Timer_Start (RegisterTask CleanRoute_task minute tm) of
     (tasks, tm') \<Rightarrow> (map (\<lambda>(i, f). GoClean i) tasks, tm'))"

definition StartFetchTunInterface :: "sys_env \<Rightarrow> app \<Rightarrow> unit outcome \<times> effect list \<times> app" where
  "StartFetchTunInterface env a =
     (let cfg = app_config a; i = Iface_New [] (Cfg_Ip cfg) (Cfg_Mtu cfg) in
      case Iface_Start env (i, []) of
        (Ok _, i', cmds) \<Rightarrow> (Ok (), map Exec cmds
            @ map (\<lambda>n. GoWorker (int n) (Cfg_Mtu cfg)) [0..<10] @ [Worker 255 (Cfg_Mtu cfg)],
          a\<lparr>app_iface := Some i'\<rparr>)
      | (res, i', cmds) \<Rightarrow> (res, map Exec cmds, a\<lparr>app_iface := Some i'\<rparr>))"

definition App_Run :: "sys_env \<Rightarrow> app timer \<Rightarrow> app \<Rightarrow> unit outcome \<times> effect list \<times> app" where
  "App_Run env tm a =
     (let cfg = app_config a in
      if Cfg_ServerMode cfg
      then let a = a\<lparr>app_server := NewServer (Cfg_Listen cfg) True (Cfg_Key cfg)\<rparr>;
               (res, es, a') = StartFetchTunInterface env a in
           (res, [GoServer (Cfg_Listen cfg)] @ fst (App_CleanRoute tm) @ es, a')
      else let a = a\<lparr>app_client := Some (NewClient (Cfg_RemoteAddrs cfg) (Cfg_Key cfg) (Cfg_TransportThreads cfg) True)\<rparr> in
        (case SetProxy (env_goos env) of
           (Ok _, ps) \<Rightarrow> (case StartFetchTunInterface env a of
              (res, es, a') \<Rightarrow> (res, [StartClient (Cfg_RemoteAddrs cfg) (Cfg_TransportThreads cfg)] @ ps @ es, a'))
         | (res, ps) \<Rightarrow> (res, [StartClient (Cfg_RemoteAddrs cfg) (Cfg_TransportThreads cfg)] @ ps, a)))"

definition command :: "sys_env \<Rightarrow> cmd_opts \<Rightarrow> unit outcome \<times> effect list" where
  "command env opts =
     (let cfg = config_of opts; level = InitLog (Opt_LogLevel opts); port = itoa (Opt_Socks5Port opts) in
      if Opt_ProxyOnly opts
      then (case SetProxy (env_goos env) of
         (Ok _, ps) \<Rightarrow> (Block, [SetLogLevel level] @ ps @ [Socks5 port])
       | (res, ps) \<Rightarrow> (res, [SetLogLevel level] @ ps))
      else let svc = (if Opt_ServerMode opts then [GoSocks5 port]
                      else fileserver_Start (Opt_FileDir opts) (itoa (Opt_FileServerPort opts)));
               (res, es, a) = App_Run env NewTimer (NewApp cfg) in
        (res, [SetLogLevel level] @ svc @ es))"

text \<open>The command as \<open>gcli\<close> knows it, its help text apart. \<open>gcli\<close> parses the program's arguments: it is a
  parameter, which says with which options the command is run, if it is.\<close>

record cli_command =
  cli_Name :: string
  cli_Aliases :: "string list"
  cli_Opts :: cmd_opts

definition Command :: cli_command where
  "Command = \<lparr>cli_Name = ''qtun'', cli_Aliases = [''qt''], cli_Opts = Command_defaults\<rparr>"

definition Init :: "sys_env \<Rightarrow> int \<Rightarrow> (cli_command \<Rightarrow> cmd_opts option) \<Rightarrow> unit outcome \<times> effect list" where
  "Init env cpus gcli = (case gcli Command of
     None \<Rightarrow> (Ok (), [SetMaxProcs cpus])
   | Some opts \<Rightarrow> (case command env opts of
       (Err e, es) \<Rightarrow> (Ok (), [SetMaxProcs cpus] @ es)
     | (res, es) \<Rightarrow> (res, [SetMaxProcs cpus] @ es)))"

definition pprof :: "effect list" where
  "pprof = [GoHttp ''0.0.0.0:6060'']"

definition sysGui :: "effect list" where
  "sysGui = [RegisterStats, GoHttp ''localhost:6060'']"

definition main :: "sys_env \<Rightarrow> int \<Rightarrow> (cli_command \<Rightarrow> cmd_opts option) \<Rightarrow> unit outcome \<times> effect list" where
  "main env cpus gcli = (case Init env cpus gcli of (res, es) \<Rightarrow> (res, sysGui @ es))"

section \<open>What is started\<close>

lemma App_CleanRoute_New: "fst (App_CleanRoute NewTimer) = [GoClean minute]"
  by (simp add: App_CleanRoute_def Timer_Start_def RegisterTask_def NewTimer_def)

lemma no_socks_fetch: "GoSocks5 port \<notin> set (fst (snd (StartFetchTunInterface env a)))"
  by (auto simp: StartFetchTunInterface_def Let_def split: prod.splits outcome.splits)

lemma no_socks_proxy: "GoSocks5 port \<notin> set (snd (SetProxy goos))"
  by (simp add: SetProxy_def)

lemma no_socks_run: "GoSocks5 port \<notin> set (fst (snd (App_Run env NewTimer a)))"
  using no_socks_fetch [of port env] no_socks_proxy [of port "env_goos env"]
  by (auto simp: App_Run_def Let_def App_CleanRoute_New split_beta split: outcome.splits)

text \<open>The SOCKS5 proxy is open on a server and not on a client: in server mode it runs beside
  the tunnel, in client mode only the file server does, and with the proxy-only option neither
  the QUIC server, nor the client, nor any worker on the TUN device is started.\<close>

theorem command_services:
  "((\<exists>port. GoSocks5 port \<in> set (snd (command env opts))) \<longleftrightarrow> \<not> Opt_ProxyOnly opts \<and> Opt_ServerMode opts)
   \<and> (Opt_ProxyOnly opts \<longrightarrow> set (snd (command env opts)) \<subseteq>
        {SetLogLevel (InitLog (Opt_LogLevel opts)), Exec proxy_cmd, Socks5 (itoa (Opt_Socks5Port opts))})"
proof
  show "(\<exists>port. GoSocks5 port \<in> set (snd (command env opts))) \<longleftrightarrow> \<not> Opt_ProxyOnly opts \<and> Opt_ServerMode opts"
    using no_socks_run [of _ env "NewApp (config_of opts)"] no_socks_proxy [of _ "env_goos env"]
    by (auto simp: command_def Let_def fileserver_Start_def split_beta split: outcome.splits)
  show "Opt_ProxyOnly opts \<longrightarrow> set (snd (command env opts)) \<subseteq>
     {SetLogLevel (InitLog (Opt_LogLevel opts)), Exec proxy_cmd, Socks5 (itoa (Opt_Socks5Port opts))}"
    by (auto simp: command_def Let_def SetProxy_def split: prod.splits outcome.splits if_splits)
qed

lemma no_http: "GoHttp addr \<notin> set (snd (command env opts))"
  by (auto simp: command_def App_Run_def StartFetchTunInterface_def App_CleanRoute_New SetProxy_def fileserver_Start_def
      Let_def split_beta split: outcome.splits if_splits)

text \<open>The statistics page is on the loopback address only, whatever the arguments are, and a run without
  the command starts nothing else.\<close>

theorem main_exposes_locally:
  "{addr. GoHttp addr \<in> set (snd (main env cpus gcli))} = {''localhost:6060''}
   \<and> (gcli Command = None \<longrightarrow> main env cpus gcli = (Ok (), [RegisterStats, GoHttp ''localhost:6060'', SetMaxProcs cpus]))"
proof
  have "GoHttp addr \<notin> set (snd (Init env cpus gcli))" for addr
    by (cases "gcli Command"; cases "command env (the (gcli Command))"; cases "fst (command env (the (gcli Command)))")
      (use no_http [of addr env "the (gcli Command)"] in \<open>simp_all add: Init_def\<close>)
  then show "{addr. GoHttp addr \<in> set (snd (main env cpus gcli))} = {''localhost:6060''}"
    by (auto simp: main_def sysGui_def split_beta)
  show "gcli Command = None \<longrightarrow> main env cpus gcli = (Ok (), [RegisterStats, GoHttp ''localhost:6060'', SetMaxProcs cpus])"
    by (simp add: main_def Init_def sysGui_def)
qed

definition quiet_env :: sys_env where
  "quiet_env = \<lparr>env_goos = ''linux'', env_parse_ipv6 = (\<lambda>_. None), env_water_New = Inr ''tun0'', env_exec = (\<lambda>_. ([], None))\<rparr>"

theorem command_services_witness:
  "set (snd (command quiet_env (Command_defaults\<lparr>Opt_ProxyOnly := True\<rparr>)))
     \<subseteq> {SetLogLevel (InitLog ''info''), Exec proxy_cmd, Socks5 (itoa 2080)}
   \<and> (\<exists>port. GoSocks5 port \<in> set (snd (command quiet_env (Command_defaults\<lparr>Opt_ServerMode := True\<rparr>))))"
  using command_services [of quiet_env "Command_defaults\<lparr>Opt_ProxyOnly := True\<rparr>"]
    command_services [of quiet_env "Command_defaults\<lparr>Opt_ServerMode := True\<rparr>"]
  by (simp add: Command_defaults_def)

end
