(* ===== verification/Fixtures.thy ===== *)
theory Fixtures
  imports Crypto Protocol GoNet Config
begin

text \<open>
  Concrete instances of the model's parameters: a cipher that appends its key as a tag, digests
  that pad or cut to their size, and a codec with a tag byte and terminated strings. They satisfy
  the hypotheses stated of the libraries; the witnesses evaluate with them.
\<close>

section \<open>Cryptography\<close>

definition demo_tag :: "bytes \<Rightarrow> bytes" where
  "demo_tag k = take 16 (k @ replicate 16 0)"

definition demo_aead :: "bytes \<Rightarrow> aead" where
  "demo_aead k =
     \<lparr>NonceSize = 12,
      Seal = (\<lambda>n d. d @ demo_tag k),
      Open = (\<lambda>n c. if 16 \<le> length c \<and> drop (length c - 16) c = demo_tag k
                     then Some (take (length c - 16) c) else None)\<rparr>"

lemma length_demo_tag [simp]: "length (demo_tag k) = 16"
  by (simp add: demo_tag_def)

definition demo_crypto :: crypto_lib where
  "demo_crypto =
     \<lparr>lib_md5 = (\<lambda>x. take 16 (x @ replicate 16 0)), lib_sha1 = (\<lambda>x. take 20 (x @ replicate 20 0)),
      lib_sha256 = (\<lambda>x. take 32 (x @ replicate 32 0)), lib_gcm = demo_aead\<rparr>"

lemma demo_NonceSize [simp]: "NonceSize (demo_aead k) = 12"
  by (simp add: demo_aead_def)

lemma demo_aead_ok [simp]: "aead_ok (demo_aead k)"
  unfolding aead_ok_def
proof (intro conjI allI impI)
  fix n c d
  assume "Open (demo_aead k) n c = Some d"
  then have "d = take (length c - 16) c" and "demo_tag k = drop (length c - 16) c"
    by (auto simp: demo_aead_def split: if_splits)
  then show "c = Seal (demo_aead k) n d" by (simp add: demo_aead_def)
qed (simp_all add: demo_aead_def)

lemma demo_crypto_ok [simp]: "crypto_ok demo_crypto"
  by (auto simp: crypto_ok_def demo_crypto_def min_def)

section \<open>A configuration\<close>

definition demo_config :: "bool \<Rightarrow> config" where
  "demo_config server = \<lparr>Cfg_Key = ''hahaha'', Cfg_RemoteAddrs = ''8.8.8.80:8080'',
     Cfg_Listen = ''0.0.0.0:8080'', Cfg_TransportThreads = 2, Cfg_Ip = ''10.4.4.3/24'',
     Cfg_Mtu = 1500, Cfg_ServerMode = server, Cfg_NoDelay = False\<rparr>"

section \<open>Messages\<close>

definition demo_string :: "string \<Rightarrow> bytes" where
  "demo_string s = bytes_of_string s @ [255]"

definition demo_take :: "bytes \<Rightarrow> string \<times> bytes" where
  "demo_take bs = (string_of_bytes (takeWhile (\<lambda>b. b \<noteq> 255) bs), tl (dropWhile (\<lambda>b. b \<noteq> 255) bs))"

definition demo_number :: "string \<Rightarrow> nat" where
  "demo_number s = foldl (\<lambda>n c. n * 10 + (of_char c - 48)) 0 s"

fun demo_marshal :: "envelope_type option \<Rightarrow> bytes \<times> go_error option" where
  "demo_marshal (Some (Envelope_Ping (Some p))) =
     (if ping_ascii p
      then ([1] @ demo_string (nat_text (unat (Timestamp p))) @ demo_string (LocalAddr p)
              @ demo_string (LocalPrivateAddr p) @ demo_string (IP p) @ demo_string (DC p), None)
      else ([], Some (Extern ''proto: invalid UTF-8'')))"
| "demo_marshal (Some (Envelope_Packet (Some k))) = ([2] @ Payload k, None)"
| "demo_marshal _ = ([], None)"

definition demo_unmarshal_ping :: "bytes \<Rightarrow> message_ping" where
  "demo_unmarshal_ping bs =
     (let (ts, bs) = demo_take bs; (a, bs) = demo_take bs; (b, bs) = demo_take bs;
          (c, bs) = demo_take bs; (d, bs) = demo_take bs in
      \<lparr>Timestamp = of_nat (demo_number ts), LocalAddr = a, LocalPrivateAddr = b, IP = c, DC = d\<rparr>)"

fun demo_unmarshal :: "bytes \<Rightarrow> go_error + envelope" where
  "demo_unmarshal [] = Inr \<lparr>EType = None\<rparr>"
| "demo_unmarshal (b # bs) =
     (if b = 1 then Inr \<lparr>EType = Some (Envelope_Ping (Some (demo_unmarshal_ping bs)))\<rparr>
      else if b = 2 then Inr \<lparr>EType = Some (Envelope_Packet (Some \<lparr>Payload = bs\<rparr>))\<rparr>
      else Inl (Extern ''proto: cannot parse''))"

definition demo_codec :: codec where
  "demo_codec = \<lparr>proto_Marshal = demo_marshal \<circ> EType, proto_Unmarshal = demo_unmarshal\<rparr>"

lemma ascii_bytes: "ascii s \<Longrightarrow> 255 \<notin> set (bytes_of_string s)"
proof -
  have "byte_of_char c \<noteq> 255" if "(of_char c :: nat) < 128" for c
  proof
    assume "byte_of_char c = 255"
    then have "unat (byte_of_char c) = 255" by simp
    with that show False by (simp add: byte_of_char_def)
  qed
  then show "ascii s \<Longrightarrow> ?thesis" by (auto simp: ascii_def bytes_of_string_def)
qed

lemma demo_take_string: "ascii s \<Longrightarrow> demo_take (demo_string s @ rest) = (s, rest)"
  using ascii_bytes [of s]
  by (auto simp: demo_take_def demo_string_def takeWhile_append dropWhile_append)

lemma demo_number_text [simp]: "demo_number (nat_text n) = n"
  unfolding demo_number_def
proof (induction n rule: nat_text.induct)
  case (1 n)
  then show ?case by (cases "n < 10") (simp_all add: nat_text.simps [of n])
qed

lemma ascii_nat_text [simp]: "ascii (nat_text n)"
  unfolding ascii_def using nat_text_digits [of _ n] by (fastforce simp: is_digit_def)

lemma demo_unmarshal_ping_marshal:
  assumes "ping_ascii p"
  shows "demo_unmarshal_ping (demo_string (nat_text (unat (Timestamp p))) @ demo_string (LocalAddr p)
     @ demo_string (LocalPrivateAddr p) @ demo_string (IP p) @ demo_string (DC p)) = p"
  using assms demo_take_string [of _ "[]"]
  by (simp add: demo_unmarshal_ping_def ping_ascii_def Let_def demo_take_string)

section \<open>The runtime's buffer operations\<close>

text \<open>Length-delimited messages of fewer than 128 bytes; longer ones are refused.\<close>

definition demo_varint :: "64 word \<Rightarrow> bytes" where
  "demo_varint v = (if v < 128 then [ucast v] else [255, 255])"

definition demo_encode :: "bytes \<Rightarrow> bool \<Rightarrow> go_error + bytes" where
  "demo_encode body ok =
     (if ok \<and> length body < 128 then Inr (of_nat (length body) # body) else Inl (Extern ''proto: refused''))"

definition demo_ping_body :: "message_ping \<Rightarrow> bytes" where
  "demo_ping_body p = demo_string (nat_text (unat (Timestamp p))) @ demo_string (LocalAddr p)
     @ demo_string (LocalPrivateAddr p) @ demo_string (IP p) @ demo_string (DC p)"

definition opt_ping_body :: "message_ping option \<Rightarrow> bytes" where
  "opt_ping_body x = (case x of None \<Rightarrow> [] | Some p \<Rightarrow> demo_ping_body p)"

definition demo_lib :: proto_lib where
  "demo_lib = \<lparr>EncodeVarint = demo_varint, SizeVarint = (\<lambda>v. length (demo_varint v)),
     SizePing = (\<lambda>x. length (opt_ping_body x)),
     SizePacket = (\<lambda>x. length (MessagePacket_GetPayload x)),
     EncodePing = (\<lambda>x. demo_encode (opt_ping_body x) (case x of None \<Rightarrow> True | Some p \<Rightarrow> ping_ascii p)),
     EncodePacket = (\<lambda>x. demo_encode (MessagePacket_GetPayload x) True),
     DecodePing = (\<lambda>bs. (None, demo_unmarshal_ping (take (unat (hd bs)) (tl bs)), drop (unat (hd bs)) (tl bs))),
     DecodePacket = (\<lambda>bs. (None, \<lparr>Payload = take (unat (hd bs)) (tl bs)\<rparr>, drop (unat (hd bs)) (tl bs)))\<rparr>"

lemma demo_encode_Inr:
  "demo_encode body ok = Inr bs \<longleftrightarrow> ok \<and> length body < 128 \<and> bs = of_nat (length body) # body"
  by (auto simp: demo_encode_def)

lemma demo_varint_length:
  assumes "n < 128"
  shows "demo_varint (of_nat n) = [of_nat n]"
proof -
  have "take_bit 64 n = n" using assms by (simp add: take_bit_nat_eq_self)
  with assms show ?thesis
    by (simp add: demo_varint_def word_less_nat_alt unsigned_of_nat)
qed

lemma demo_encode_ok:
  "demo_encode body ok = Inr bs \<Longrightarrow> bs = demo_varint (of_nat (length body)) @ body"
  by (simp add: demo_encode_Inr demo_varint_length)

lemma demo_decode:
  assumes "demo_encode body ok = Inr bs"
  shows "take (unat (hd (bs @ rest))) (tl (bs @ rest)) = body" "drop (unat (hd (bs @ rest))) (tl (bs @ rest)) = rest"
    "ok"
  using assms by (auto simp: demo_encode_Inr)

lemma demo_ping_body_inv: "ping_ascii p \<Longrightarrow> demo_unmarshal_ping (demo_ping_body p) = p"
  by (simp add: demo_ping_body_def demo_unmarshal_ping_marshal)

lemma demo_lib_simps [simp]:
  "EncodeVarint demo_lib = demo_varint" "SizeVarint demo_lib v = length (demo_varint v)"
  "SizePing demo_lib x = length (opt_ping_body x)"
  "SizePacket demo_lib y = length (MessagePacket_GetPayload y)"
  "EncodePing demo_lib x = demo_encode (opt_ping_body x) (case x of None \<Rightarrow> True | Some p \<Rightarrow> ping_ascii p)"
  "EncodePacket demo_lib y = demo_encode (MessagePacket_GetPayload y) True"
  "DecodePing demo_lib bs = (None, demo_unmarshal_ping (take (unat (hd bs)) (tl bs)), drop (unat (hd bs)) (tl bs))"
  "DecodePacket demo_lib bs = (None, \<lparr>Payload = take (unat (hd bs)) (tl bs)\<rparr>, drop (unat (hd bs)) (tl bs))"
  by (simp_all add: demo_lib_def)

lemma demo_lib_ok [simp]: "proto_lib_ok demo_lib"
  unfolding proto_lib_ok_def
proof (intro conjI allI impI)
  show "EncodeVarint demo_lib v = [ucast v]" if "v < 128" for v
    using that by (simp add: demo_varint_def)
  show "\<exists>body. bs = EncodeVarint demo_lib (of_nat (SizePing demo_lib x)) @ body \<and> length body = SizePing demo_lib x"
    if "EncodePing demo_lib x = Inr bs" for x bs
    using that by (auto dest: demo_encode_ok)
  show "\<exists>body. bs = EncodeVarint demo_lib (of_nat (SizePacket demo_lib x)) @ body \<and> length body = SizePacket demo_lib x"
    if "EncodePacket demo_lib x = Inr bs" for x bs
    using that by (auto dest: demo_encode_ok)
  show "DecodePing demo_lib (bs @ rest) = (None, x, rest)" if "EncodePing demo_lib (Some x) = Inr bs" for x bs rest
    using demo_decode(1,2) [OF that [unfolded demo_lib_simps], of rest] demo_decode(3) [OF that [unfolded demo_lib_simps]]
    by (simp add: opt_ping_body_def demo_ping_body_inv)
  show "DecodePacket demo_lib (bs @ rest) = (None, x, rest)" if "EncodePacket demo_lib (Some x) = Inr bs" for x bs rest
    using demo_decode(1,2) [OF that [unfolded demo_lib_simps], of rest] demo_decode(3) [OF that [unfolded demo_lib_simps]]
    by (simp add: MessagePacket_GetPayload_def)
qed simp

section \<open>The codec\<close>

lemma demo_codec_ok [simp]: "codec_ok demo_codec"
  unfolding codec_ok_def
proof (intro allI impI)
  fix e :: envelope
  assume wire: "wire_envelope e"
  obtain t where e: "e = \<lparr>EType = t\<rparr>" by (cases e)
  show "snd (proto_Marshal demo_codec e) = None
      \<and> proto_Unmarshal demo_codec (fst (proto_Marshal demo_codec e)) = Inr e"
    using wire unfolding e
    by (cases t rule: demo_marshal.cases)
      (auto simp: demo_codec_def wire_envelope_def demo_unmarshal_ping_marshal)
qed

end
