(* ===== verification/AppProps.thy ===== *)
theory AppProps
  imports App Fixtures
begin

text \<open>
  What the application's handlers do to the routes, the connections and the TUN device: routing a
  packet reaches a live connection whenever the route has one and forgets the dead ones it met,
  cleaning keeps exactly the live ones, a ping makes its sender reachable, and a packet message
  is written to the device as it was sent.
\<close>

section \<open>Routing\<close>

definition live_keys :: "app \<Rightarrow> string list \<Rightarrow> string list" where
  "live_keys a ks = filter (\<lambda>k. live_conn a k \<noteq> None) ks"

lemma sc_SendPacket_open: "sc_isClosed (snd (sc_SendPacket cd pkt sc)) = sc_isClosed sc"
  by (auto simp: sc_SendPacket_def sc_Write_def split: prod.splits outcome.splits)

lemma send_to_simps:
  "fst (send_to cd pkt c a) \<in> {SentTo c, WaitsFor c}"
  "app_heap (snd (send_to cd pkt c a)) = (app_heap a)(c := snd (sc_SendPacket cd pkt (app_heap a c)))"
  "app_routes (snd (send_to cd pkt c a)) = app_routes a"
  "app_server (snd (send_to cd pkt c a)) = app_server a"
  by (auto simp: send_to_def split: prod.splits)

lemma send_to_result:
  "fst (send_to cd pkt c a) = (if fst (sc_SendPacket cd pkt (app_heap a c)) = Block then WaitsFor c else SentTo c)"
  by (simp add: send_to_def split: prod.splits)

lemma send_to_live: "live_conn (snd (send_to cd pkt c a)) = live_conn a"
  by (rule ext) (auto simp: live_conn_def send_to_simps sc_SendPacket_open split: option.splits)

lemma filter_dead:
  assumes "\<forall>d \<in> set ds. live_conn a d = None"
  shows "live_keys a (filter (\<lambda>k. k \<notin> set ds) ks) = live_keys a ks"
  using assms unfolding live_keys_def by (auto intro!: filter_cong simp: filter_filter_conj)

lemma fetch_server_live:
  assumes route: "map_of (app_routes a) dst = Some keys" and live: "live_keys a keys \<noteq> []"
  shows "\<exists>key \<in> set keys. \<exists>c keys' a'. live_conn a key = Some c
    \<and> snd (fetch_server cd rnd pkt dst k a) = a'
    \<and> fst (fetch_server cd rnd pkt dst k a)
        = (if fst (sc_SendPacket cd pkt (app_heap a c)) = Block then WaitsFor c else SentTo c)
    \<and> app_heap a' = (app_heap a)(c := snd (sc_SendPacket cd pkt (app_heap a c)))
    \<and> map_of (app_routes a') dst = Some keys' \<and> live_keys a' keys' = live_keys a keys"
proof -
  obtain ds where ds: "set ds \<subseteq> set keys" "\<forall>d \<in> set ds. live_conn a d = None"
    and res: "(\<exists>key \<in> set keys. \<exists>c. live_conn a key = Some c
        \<and> fetch_server cd rnd pkt dst k a = send_to cd pkt c (drop_all dst ds a))
     \<or> set ds = set keys \<and> fetch_server cd rnd pkt dst k a = (NoConns, drop_all dst ds a)"
    using fetch_server_result [OF route] by blast
  have "set ds \<noteq> set keys" using ds(2) live by (auto simp: live_keys_def filter_empty_conv)
  with res obtain key c where key: "key \<in> set keys" "live_conn a key = Some c"
    and eq: "fetch_server cd rnd pkt dst k a = send_to cd pkt c (drop_all dst ds a)" by blast
  have "live_keys (snd (send_to cd pkt c (drop_all dst ds a))) = live_keys a"
    by (rule ext) (simp add: live_keys_def send_to_live drop_all_live [OF ds(2)])
  with key ds(2) show ?thesis
    unfolding eq
    by (intro bexI [of _ key] exI [of _ c] exI [of _ "filter (\<lambda>k. k \<notin> set ds) keys"] exI conjI)
      (use send_to_simps send_to_result in \<open>auto simp: drop_all_routes route filter_dead\<close>)
qed

text \<open>C15. A packet whose route has a live connection is handed to one of the route's live
  connections (queued there, or waiting for room in its queue); no other connection is touched,
  and no live entry of the route is lost, whichever keys the random choice met before.\<close>

theorem route_reaches_live:
  assumes route: "map_of (app_routes a) dst = Some keys" and live: "live_keys a keys \<noteq> []"
  shows "\<exists>key \<in> set keys. \<exists>c keys' a'. live_conn a key = Some c
    \<and> snd (fetch_server cd rnd pkt dst k a) = a'
    \<and> fst (fetch_server cd rnd pkt dst k a) \<in> {SentTo c, WaitsFor c}
    \<and> app_heap a' = (app_heap a)(c := snd (sc_SendPacket cd pkt (app_heap a c)))
    \<and> map_of (app_routes a') dst = Some keys' \<and> live_keys a' keys' = live_keys a keys"
  using fetch_server_live [OF assms, of cd rnd pkt k] by fastforce

text \<open>Two connections announced for one client, the first of them closed.\<close>

definition demo_app :: app where
  "demo_app = (NewApp (demo_config True))\<lparr>
     app_routes := [(''10.4.4.3'', [''10.4.4.3:1'', ''10.4.4.3:2''])],
     app_server := (NewServer ''0.0.0.0:8080'' True ''k'')
        \<lparr>srv_Conns := [(''10.4.4.3:1'', 0), (''10.4.4.3:2'', 1)],
         srv_ConnsReverse := [(0, ''10.4.4.3:1''), (1, ''10.4.4.3:2'')]\<rparr>,
     app_heap := (\<lambda>c. (NewServerConn fresh_writer ''k'' True False)\<lparr>sc_isClosed := (c = 0)\<rparr>),
     app_iface := Some ((Iface_New [] ''10.4.4.2/24'' 1500)\<lparr>if_ifce := Some ''tun0''\<rparr>)\<rparr>"

lemma demo_app_live [simp]:
  "live_conn demo_app ''10.4.4.3:1'' = None" "live_conn demo_app ''10.4.4.3:2'' = Some 1"
  by (simp_all add: demo_app_def live_conn_def GetConnsByAddr_def NewServerConn_def)

lemma demo_app_routes [simp]:
  "app_routes demo_app = [(''10.4.4.3'', [''10.4.4.3:1'', ''10.4.4.3:2''])]"
  by (simp add: demo_app_def)

lemma demo_live_keys [simp]: "live_keys demo_app [''10.4.4.3:1'', ''10.4.4.3:2''] = [''10.4.4.3:2'']"
  by (simp add: live_keys_def)

theorem route_reaches_live_witness:
  "\<exists>key \<in> set [''10.4.4.3:1'', ''10.4.4.3:2'']. \<exists>c keys' a'. live_conn demo_app key = Some c
    \<and> snd (fetch_server demo_codec id \<lparr>pk_arr = replicate 20 0, pk_len = 20\<rparr> ''10.4.4.3'' 0 demo_app) = a'
    \<and> fst (fetch_server demo_codec id \<lparr>pk_arr = replicate 20 0, pk_len = 20\<rparr> ''10.4.4.3'' 0 demo_app)
        \<in> {SentTo c, WaitsFor c}
    \<and> app_heap a' = (app_heap demo_app)(c := snd (sc_SendPacket demo_codec
        \<lparr>pk_arr = replicate 20 0, pk_len = 20\<rparr> (app_heap demo_app c)))
    \<and> map_of (app_routes a') ''10.4.4.3'' = Some keys'
    \<and> live_keys a' keys' = live_keys demo_app [''10.4.4.3:1'', ''10.4.4.3:2'']"
  by (rule route_reaches_live) simp_all

text \<open>A packet whose route has no live connection is dropped: the worker ends, no queue is
  touched, and it leaves an empty route behind, with none of its addresses registered any more;
  the routes of other destinations are untouched.\<close>

theorem route_without_live:
  assumes route: "map_of (app_routes a) dst = Some keys" and dead: "live_keys a keys = []"
  shows "\<exists>a'. fetch_server cd rnd pkt dst k a = (NoConns, a')
    \<and> app_heap a' = app_heap a \<and> map_of (app_routes a') dst = Some []
    \<and> (\<forall>d. d \<noteq> dst \<longrightarrow> map_of (app_routes a') d = map_of (app_routes a) d)
    \<and> (\<forall>key. GetConnsByAddr key (app_server a')
          = (if key \<in> set keys then None else GetConnsByAddr key (app_server a)))"
proof -
  obtain ds where ds: "set ds \<subseteq> set keys"
    and res: "(\<exists>key \<in> set keys. \<exists>c. live_conn a key = Some c
        \<and> fetch_server cd rnd pkt dst k a = send_to cd pkt c (drop_all dst ds a))
     \<or> set ds = set keys \<and> fetch_server cd rnd pkt dst k a = (NoConns, drop_all dst ds a)"
    using fetch_server_result [OF route] by blast
  from dead have "\<forall>key \<in> set keys. live_conn a key = None"
    by (auto simp: live_keys_def filter_empty_conv)
  with res have "set ds = set keys" "fetch_server cd rnd pkt dst k a = (NoConns, drop_all dst ds a)"
    by auto
  then show ?thesis by (simp add: drop_all_routes drop_all_conns route)
qed

theorem route_without_live_witness:
  "\<exists>a'. fetch_server demo_codec id \<lparr>pk_arr = [], pk_len = 0\<rparr> ''10.4.4.9'' 0
        (demo_app\<lparr>app_routes := [(''10.4.4.9'', [''10.4.4.3:1''])]\<rparr>) = (NoConns, a')
    \<and> app_heap a' = app_heap (demo_app\<lparr>app_routes := [(''10.4.4.9'', [''10.4.4.3:1''])]\<rparr>)
    \<and> map_of (app_routes a') ''10.4.4.9'' = Some []
    \<and> (\<forall>d. d \<noteq> ''10.4.4.9'' \<longrightarrow> map_of (app_routes a') d
          = map_of (app_routes (demo_app\<lparr>app_routes := [(''10.4.4.9'', [''10.4.4.3:1''])]\<rparr>)) d)
    \<and> (\<forall>key. GetConnsByAddr key (app_server a') = (if key \<in> set [''10.4.4.3:1''] then None
          else GetConnsByAddr key (app_server (demo_app\<lparr>app_routes := [(''10.4.4.9'', [''10.4.4.3:1''])]\<rparr>))))"
proof -
  let ?a = "demo_app\<lparr>app_routes := [(''10.4.4.9'', [''10.4.4.3:1''])]\<rparr>"
  have "live_keys ?a [''10.4.4.3:1''] = []" by (simp add: live_keys_def)
  then show ?thesis by (intro route_without_live) simp_all
qed

section \<open>Cleaning\<close>

text \<open>C19. Cleaning keeps, in every route, exactly the addresses that lead to a live connection, in
  their order, and changes which addresses are live for none.\<close>

theorem clean_keeps_live:
  assumes "gomap (app_routes a)"
  shows "map_of (app_routes (CleanRoute_task a)) d = map_option (live_keys a) (map_of (app_routes a) d)
    \<and> live_conn (CleanRoute_task a) = live_conn a"
proof -
  have step: "map_of (app_routes (clean_routes rs b)) d =
      map_option (filter (\<lambda>c. \<forall>ks. (d, ks) \<in> set rs \<longrightarrow> c \<in> set ks \<longrightarrow> live_conn b c \<noteq> None))
        (map_of (app_routes b) d)" for rs b
  proof (induction rs b rule: clean_routes.induct)
    case (1 b)
    then show ?case by (simp add: option.map_id [unfolded id_def])
  next
    case (2 dst ks rs b)
    then show ?case
      by (auto simp: clean_conns_routes option.map_comp comp_def intro!: option.map_cong0 filter_cong)
  qed
  have "map_of (app_routes (CleanRoute_task a)) d = map_option (live_keys a) (map_of (app_routes a) d)"
  proof (cases "map_of (app_routes a) d")
    case (Some ks)
    then have "(d, ks') \<in> set (app_routes a) \<longleftrightarrow> ks' = ks" for ks'
      using gomap_map_of_iff [OF assms, of d ks'] by auto
    with Some show ?thesis
      by (auto simp: CleanRoute_task_def step live_keys_def intro!: filter_cong)
  qed (simp add: CleanRoute_task_def step)
  then show ?thesis by (simp add: CleanRoute_task_def)
qed

theorem clean_keeps_live_witness:
  "map_of (app_routes (CleanRoute_task demo_app)) ''10.4.4.3''
     = map_option (live_keys demo_app) (map_of (app_routes demo_app) ''10.4.4.3'')
   \<and> live_conn (CleanRoute_task demo_app) = live_conn demo_app"
  by (rule clean_keeps_live) (simp add: gomap_def)

section \<open>Messages from the peer\<close>

abbreviation ping_message :: "message_ping \<Rightarrow> envelope" where
  "ping_message p \<equiv> \<lparr>EType = Some (Envelope_Ping (Some p))\<rparr>"

lemma ServerOnData_ping:
  assumes "codec_ok cd" and "ping_ascii p"
  shows "ServerOnData cd spare c (fst (proto_Marshal cd (ping_message p))) a =
    (case SetConns (LocalAddr p) (Some c) (app_server a, app_heap a) of
       (res, (s, h)) \<Rightarrow> (res, a\<lparr>app_routes := add_route (IP p) (LocalAddr p) (app_routes a),
                              app_server := s, app_heap := h\<rparr>))"
proof -
  have "wire_envelope (ping_message p)" using assms(2) by (simp add: wire_envelope_def)
  from codec_okD [OF assms(1) this] show ?thesis
    by (simp add: ServerOnData_def getter_defs Let_def cong: prod.case_cong)
qed

lemma map_of_add_route:
  "map_of (add_route ip l routes) d = (if d = ip
     then Some (case map_of routes ip of Some ks \<Rightarrow> set_add l ks | None \<Rightarrow> [l]) else map_of routes d)"
  by (auto simp: add_route_def split: option.splits)

lemma ping_registers:
  assumes "codec_ok cd" "ping_ascii p" and heap: "full_heap (app_heap a)"
    and free: "GetConnsByAddr (LocalAddr p) (app_server a) = None"
    and up: "\<not> sc_isClosed (app_heap a c)"
  shows "\<exists>a' keys. ServerOnData cd spare c (fst (proto_Marshal cd (ping_message p))) a = (Ok (), a')
    \<and> map_of (app_routes a') (IP p) = Some keys \<and> LocalAddr p \<in> set keys
    \<and> set keys = insert (LocalAddr p)
        (case map_of (app_routes a) (IP p) of Some ks \<Rightarrow> set ks | None \<Rightarrow> {})
    \<and> live_conn a' (LocalAddr p) = Some c
    \<and> (\<forall>d. d \<noteq> IP p \<longrightarrow> map_of (app_routes a') d = map_of (app_routes a) d)
    \<and> (\<forall>l. l \<noteq> LocalAddr p \<longrightarrow> live_conn a' l = live_conn a l)"
  using free up unfolding ServerOnData_ping [OF assms(1,2)]
  by (auto simp: SetConns_streams [OF full_heap_streams [OF heap]] GetConnsByAddr_def live_conn_def
      map_of_add_route split: option.splits)

text \<open>A ping makes its sender reachable: once the handler returns, the route of the announced
  virtual address contains the announced connection address, which leads to the connection the
  ping came over, provided no other connection was registered under it; the rest of the route
  table is as before.\<close>

theorem ping_makes_reachable:
  assumes "codec_ok cd" "ping_ascii p" and heap: "full_heap (app_heap a)"
    and free: "GetConnsByAddr (LocalAddr p) (app_server a) = None"
    and up: "\<not> sc_isClosed (app_heap a c)"
  shows "\<exists>a' keys. ServerOnData cd spare c (fst (proto_Marshal cd (ping_message p))) a = (Ok (), a')
    \<and> map_of (app_routes a') (IP p) = Some keys \<and> LocalAddr p \<in> set keys
    \<and> set keys = insert (LocalAddr p)
        (case map_of (app_routes a) (IP p) of Some ks \<Rightarrow> set ks | None \<Rightarrow> {})
    \<and> live_conn a' (LocalAddr p) = Some c
    \<and> (\<forall>d. d \<noteq> IP p \<longrightarrow> map_of (app_routes a') d = map_of (app_routes a) d)
    \<and> (\<forall>l. l \<noteq> LocalAddr p \<longrightarrow> live_conn a' l = live_conn a l)"
  by (rule ping_registers [OF assms])

lemma full_heap_demo [simp]: "full_heap (app_heap demo_app)"
  by (simp add: demo_app_def full_heap_def NewServerConn_def)

definition demo_ping :: message_ping where
  "demo_ping = \<lparr>Timestamp = 0, LocalAddr = ''10.4.4.3/24:7'', LocalPrivateAddr = ''not_use'',
     IP = ''10.4.4.3'', DC = ''client''\<rparr>"

lemma demo_ping_ascii [simp]: "ping_ascii demo_ping"
  by (simp add: ping_ascii_def ascii_def demo_ping_def)

lemma demo_ping_free [simp]: "GetConnsByAddr (LocalAddr demo_ping) (app_server demo_app) = None"
  by (simp add: demo_app_def demo_ping_def GetConnsByAddr_def)

theorem ping_makes_reachable_witness:
  "\<exists>a' keys. ServerOnData demo_codec (\<lambda>_. 0) 5 (fst (proto_Marshal demo_codec (ping_message demo_ping)))
      demo_app = (Ok (), a')
    \<and> map_of (app_routes a') (IP demo_ping) = Some keys \<and> LocalAddr demo_ping \<in> set keys
    \<and> set keys = insert (LocalAddr demo_ping)
        (case map_of (app_routes demo_app) (IP demo_ping) of Some ks \<Rightarrow> set ks | None \<Rightarrow> {})
    \<and> live_conn a' (LocalAddr demo_ping) = Some 5
    \<and> (\<forall>d. d \<noteq> IP demo_ping \<longrightarrow> map_of (app_routes a') d = map_of (app_routes demo_app) d)
    \<and> (\<forall>l. l \<noteq> LocalAddr demo_ping \<longrightarrow> live_conn a' l = live_conn demo_app l)"
  by (rule ping_makes_reachable) (simp_all, simp add: demo_app_def NewServerConn_def)



text \<open>A ping that announces an address already registered, whatever became of the connection
  registered under it, does not replace it: a client that comes back under the same address is
  not reachable through its new connection before the old entry is removed.\<close>

theorem ping_keeps_old_connection:
  assumes "codec_ok cd" "ping_ascii p" and heap: "full_heap (app_heap a)"
    and old: "GetConnsByAddr (LocalAddr p) (app_server a) = Some v"
  shows "\<exists>a'. ServerOnData cd spare c (fst (proto_Marshal cd (ping_message p))) a = (Ok (), a')
    \<and> app_server a' = app_server a \<and> live_conn a' = live_conn a"
  using old unfolding ServerOnData_ping [OF assms(1,2)]
  by (simp add: SetConns_streams [OF full_heap_streams [OF heap]] GetConnsByAddr_def)

theorem ping_keeps_old_connection_witness:
  "\<exists>a'. ServerOnData demo_codec (\<lambda>_. 0) 5
      (fst (proto_Marshal demo_codec (ping_message (demo_ping\<lparr>LocalAddr := ''10.4.4.3:1''\<rparr>)))) demo_app
      = (Ok (), a')
    \<and> app_server a' = app_server demo_app \<and> live_conn a' = live_conn demo_app"
proof (rule ping_keeps_old_connection)
  show "ping_ascii (demo_ping\<lparr>LocalAddr := ''10.4.4.3:1''\<rparr>)"
    by (simp add: ping_ascii_def ascii_def demo_ping_def)
  show "GetConnsByAddr (LocalAddr (demo_ping\<lparr>LocalAddr := ''10.4.4.3:1''\<rparr>)) (app_server demo_app) = Some 0"
    by (simp add: demo_app_def demo_ping_def GetConnsByAddr_def)
qed simp_all

lemma on_packet_payload:
  assumes "app_iface a = Some i" and "if_ifce i \<noteq> None"
  shows "on_packet (payload_packet spare bs) a =
    (if 20 \<le> length bs + spare (length bs) then (Ok (), a\<lparr>app_tun := app_tun a @ [bs]\<rparr>)
     else (Panic ''runtime error: slice bounds out of range'', a))"
  using assms
  by (auto simp: on_packet_def GetSourceIP_cases GetDestinationIP_cases payload_packet_def
      app_tun_write_def Iface_Write_def pk_bytes_def split: option.splits)

lemma OnData_packet:
  assumes "codec_ok cd"
  shows "ServerOnData cd spare c (fst (proto_Marshal cd (packet_envelope pkt))) a
      = on_packet (payload_packet spare (pk_bytes pkt)) a"
    and "ClientOnData cd spare (fst (proto_Marshal cd (packet_envelope pkt))) a
      = on_packet (payload_packet spare (pk_bytes pkt)) a"
  using codec_okD [OF assms, of "packet_envelope pkt"]
  by (simp_all add: ServerOnData_def ClientOnData_def getter_defs Let_def packet_envelope_def
      wire_envelope_def)

text \<open>C33. The tunnel is transparent and its handlers are partial: on either side, a packet message
  whose payload, with the slack its allocation left, reaches 20 bytes is written to the TUN device
  exactly as it was sent; a shorter one panics in the handler and nothing is written.\<close>

theorem packet_to_tun:
  assumes "codec_ok cd" and "app_iface a = Some i" and "if_ifce i \<noteq> None"
    and msg: "msg = fst (proto_Marshal cd (packet_envelope pkt))" and len: "n = length (pk_bytes pkt)"
  shows "ServerOnData cd spare c msg a = ClientOnData cd spare msg a
    \<and> ClientOnData cd spare msg a =
        (if 20 \<le> n + spare n then (Ok (), a\<lparr>app_tun := app_tun a @ [pk_bytes pkt]\<rparr>)
         else (Panic ''runtime error: slice bounds out of range'', a))"
  using OnData_packet [OF assms(1)] on_packet_payload [OF assms(2,3)] unfolding msg len by simp

theorem packet_to_tun_witness:
  "ServerOnData demo_codec (\<lambda>_. 0) 5
      (fst (proto_Marshal demo_codec (packet_envelope \<lparr>pk_arr = replicate 20 1, pk_len = 20\<rparr>))) demo_app
    = ClientOnData demo_codec (\<lambda>_. 0)
        (fst (proto_Marshal demo_codec (packet_envelope \<lparr>pk_arr = replicate 20 1, pk_len = 20\<rparr>))) demo_app
   \<and> ClientOnData demo_codec (\<lambda>_. 0)
        (fst (proto_Marshal demo_codec (packet_envelope \<lparr>pk_arr = replicate 20 1, pk_len = 20\<rparr>))) demo_app
    = (if 20 \<le> 20 + (0 :: nat) then (Ok (), demo_app\<lparr>app_tun := app_tun demo_app
          @ [pk_bytes \<lparr>pk_arr = replicate 20 1, pk_len = 20\<rparr>]\<rparr>)
       else (Panic ''runtime error: slice bounds out of range'', demo_app))"
proof (rule packet_to_tun)
  show "app_iface demo_app = Some ((Iface_New [] ''10.4.4.2/24'' 1500)\<lparr>if_ifce := Some ''tun0''\<rparr>)"
    by (simp add: demo_app_def)
qed (simp_all add: pk_bytes_def)

section \<open>The client's worker\<close>

text \<open>The packet buffer behind a read of the device.\<close>

definition refill :: "bytes \<Rightarrow> packet_ip \<Rightarrow> packet_ip" where
  "refill f p = snd (Iface_Read f p)"

fun refills :: "bytes list \<Rightarrow> packet_ip \<Rightarrow> packet_ip list" where
  "refills [] p = []"
| "refills (f # fs) p = refill f p # refills fs (refill f p)"

lemma refill_simps [simp]:
  "pk_len (refill f p) = pk_len p" "length (pk_arr p) = pk_len p \<Longrightarrow> length (pk_arr (refill f p)) = pk_len p"
  by (auto simp: refill_def Iface_Read_def Let_def)

lemma length_refills [simp]: "length (refills fs p) = length fs"
  by (induction fs arbitrary: p) simp_all

text \<open>A full buffer keeps its length, and the packet read is its front part.\<close>

definition buffer_holds :: "nat \<Rightarrow> bytes \<Rightarrow> bytes \<Rightarrow> bool" where
  "buffer_holds mtu f b \<longleftrightarrow> length b = mtu \<and> take (min (length f) mtu) b = take mtu f"

lemma refill_holds: "length (pk_arr p) = pk_len p \<Longrightarrow> buffer_holds (pk_len p) f (pk_bytes (refill f p))"
  by (auto simp: buffer_holds_def refill_def Iface_Read_def pk_bytes_def Let_def min_def)

lemma refills_hold:
  "length (pk_arr p) = pk_len p \<Longrightarrow>
   list_all2 (buffer_holds (pk_len p)) fs (map pk_bytes (refills fs p))"
  by (induction fs arbitrary: p)
    (auto simp: refill_holds dest: refill_simps(2), metis refill_simps)

text \<open>A packet shorter than the one before it leaves that one's tail in the buffer.\<close>

lemma refill_tail:
  "length f \<le> pk_len p \<Longrightarrow> length (pk_arr p) = pk_len p \<Longrightarrow>
   pk_bytes (refill f p) = f @ drop (length f) (pk_bytes p)"
  by (simp add: refill_def Iface_Read_def pk_bytes_def Let_def)

lemma client_turn:
  assumes mode: "\<not> Cfg_ServerMode (app_config a)" "app_client a = Some cl"
    and ok: "picks_ok cl t s" "Suc s < 2 ^ 63" "conns_open cl"
    and pkt: "length (pk_arr pkt) = pk_len pkt" "20 \<le> pk_len pkt"
  shows "FetchAndProcessTunPkt_turn cd rnd (Inr f) pkt a = (Ok None, refill f pkt,
    a\<lparr>app_client := Some (cl\<lparr>cl_serial := of_nat (Suc s), cl_sent := cl_sent cl
       @ [(Suc s mod t, fst (proto_Marshal cd (packet_envelope (refill f pkt))))]\<rparr>)\<rparr>)"
proof -
  have "20 \<le> length (pk_arr (refill f pkt))" using pkt by simp
  with mode client_Write_open [OF ok] show ?thesis
    unfolding FetchAndProcessTunPkt_turn_def worker_send_def client_SendPacket_def
    by (cases "Iface_Read f pkt")
      (simp add: refill_def GetSourceIP_cases GetDestinationIP_cases packet_envelope_def)
qed

lemma client_worker:
  assumes "\<not> Cfg_ServerMode (app_config a)" "app_client a = Some cl"
    and "picks_ok cl t s" "s + length fs < 2 ^ 63" "conns_open cl"
    and "length (pk_arr pkt) = pk_len pkt" "20 \<le> pk_len pkt"
  shows "\<exists>pkt' cl'. FetchAndProcessTunPkt cd rnd (map Inr fs) pkt a
      = (Block, pkt', a\<lparr>app_client := Some cl'\<rparr>)
    \<and> cl_sent cl' = cl_sent cl @ zip (map (\<lambda>j. (s + j) mod t) [1..<Suc (length fs)])
        (map (\<lambda>p. fst (proto_Marshal cd (packet_envelope p))) (refills fs pkt))"
  using assms
proof (induction fs arbitrary: a cl s pkt)
  case Nil
  then show ?case by (intro exI [of _ pkt] exI [of _ cl]) simp
next
  case (Cons f fs)
  let ?pkt = "refill f pkt"
  let ?cl = "cl\<lparr>cl_serial := of_nat (Suc s), cl_sent := cl_sent cl
       @ [(Suc s mod t, fst (proto_Marshal cd (packet_envelope ?pkt)))]\<rparr>"
  let ?a = "a\<lparr>app_client := Some ?cl\<rparr>"
  from Cons.prems have step: "FetchAndProcessTunPkt_turn cd (rnd (length fs)) (Inr f) pkt a = (Ok None, ?pkt, ?a)"
    by (intro client_turn) simp_all
  have "\<exists>pkt' cl'. FetchAndProcessTunPkt cd rnd (map Inr fs) ?pkt ?a
        = (Block, pkt', ?a\<lparr>app_client := Some cl'\<rparr>)
      \<and> cl_sent cl' = cl_sent ?cl @ zip (map (\<lambda>j. (Suc s + j) mod t) [1..<Suc (length fs)])
        (map (\<lambda>p. fst (proto_Marshal cd (packet_envelope p))) (refills fs ?pkt))"
    using Cons.prems by (intro Cons.IH) (simp_all add: picks_ok_step conns_open_def del: of_nat_Suc)
  then obtain pkt' cl' where ih: "FetchAndProcessTunPkt cd rnd (map Inr fs) ?pkt ?a
        = (Block, pkt', a\<lparr>app_client := Some cl'\<rparr>)"
      "cl_sent cl' = cl_sent ?cl @ zip (map (\<lambda>j. (Suc s + j) mod t) [1..<Suc (length fs)])
        (map (\<lambda>p. fst (proto_Marshal cd (packet_envelope p))) (refills fs ?pkt))"
    by auto
  have idx: "map (\<lambda>j. (s + j) mod t) [1..<Suc (length (f # fs))]
      = Suc s mod t # map (\<lambda>j. (Suc s + j) mod t) [1..<Suc (length fs)]"
  proof -
    have "[1..<Suc (length (f # fs))] = 1 # map Suc [1..<Suc (length fs)]"
      by (simp add: upt_conv_Cons map_Suc_upt del: upt_Suc)
    then show ?thesis by (simp only: list.map map_map comp_def add_Suc_right add_Suc add_0_right One_nat_def)
  qed
  show ?case
    using step ih unfolding idx by (intro exI [of _ pkt'] exI [of _ cl']) simp
qed

text \<open>The client's worker sends one packet message per packet read, round robin over its
  connections; the payload is the whole MTU-sized buffer, whose front part is the packet.\<close>

theorem worker_round_robin:
  assumes "\<not> Cfg_ServerMode (app_config a)" "app_client a = Some cl"
    and "picks_ok cl t s" "s + length fs < 2 ^ 63" "conns_open cl"
    and "length (pk_arr pkt) = pk_len pkt" "20 \<le> pk_len pkt"
  shows "\<exists>pkt' cl' ps. FetchAndProcessTunPkt cd rnd (map Inr fs) pkt a
      = (Block, pkt', a\<lparr>app_client := Some cl'\<rparr>)
    \<and> cl_sent cl' = cl_sent cl @ zip (map (\<lambda>j. (s + j) mod t) [1..<Suc (length fs)])
        (map (\<lambda>p. fst (proto_Marshal cd (packet_envelope p))) ps)
    \<and> list_all2 (buffer_holds (pk_len pkt)) fs (map pk_bytes ps)"
  using client_worker [OF assms] refills_hold [OF assms(6)] by blast

definition demo_client :: client where
  "demo_client = (NewClient ''8.8.8.80:8080'' ''hahaha'' 2 True)\<lparr>cl_conns :=
     [Some (NewClientConn ''8.8.8.80:8080'' ''hahaha'' 0 False),
      Some (NewClientConn ''8.8.8.80:8080'' ''hahaha'' 1 False)]\<rparr>"

lemma demo_client_ok [simp]: "picks_ok demo_client 2 0" "conns_open demo_client" "cl_sent demo_client = []"
  by (simp_all add: demo_client_def NewClient_def picks_ok_def conns_open_def NewClientConn_def)

theorem worker_round_robin_witness:
  "\<exists>pkt' cl' ps. FetchAndProcessTunPkt demo_codec (\<lambda>_. id) (map Inr [replicate 30 1, replicate 20 2])
      \<lparr>pk_arr = replicate 40 0, pk_len = 40\<rparr> ((NewApp (demo_config False))\<lparr>app_client := Some demo_client\<rparr>)
      = (Block, pkt', (NewApp (demo_config False))\<lparr>app_client := Some demo_client\<rparr>\<lparr>app_client := Some cl'\<rparr>)
    \<and> cl_sent cl' = cl_sent demo_client
        @ zip (map (\<lambda>j. (0 + j) mod 2) [1..<Suc (length [replicate 30 (1 :: u8), replicate 20 2])])
        (map (\<lambda>p. fst (proto_Marshal demo_codec (packet_envelope p))) ps)
    \<and> list_all2 (buffer_holds (pk_len \<lparr>pk_arr = replicate 40 0, pk_len = 40\<rparr>))
        [replicate 30 1, replicate 20 2] (map pk_bytes ps)"
proof (rule worker_round_robin [where s = 0 and t = 2 and cl = demo_client
      and a = "(NewApp (demo_config False))\<lparr>app_client := Some demo_client\<rparr>"
      and fs = "[replicate 30 1, replicate 20 2]" and pkt = "\<lparr>pk_arr = replicate 40 0, pk_len = 40\<rparr>"])
  show "\<not> Cfg_ServerMode (app_config ((NewApp (demo_config False))\<lparr>app_client := Some demo_client\<rparr>))"
    by (simp add: NewApp_def demo_config_def)
qed simp_all

text \<open>The number of bytes read is not used: after a longer packet, a shorter one is sent with
  the longer one's tail behind it.\<close>

theorem worker_sends_stale_tail:
  assumes "\<not> Cfg_ServerMode (app_config a)" "app_client a = Some cl"
    and "picks_ok cl t s" "s + 2 < 2 ^ 63" "conns_open cl"
    and "length (pk_arr pkt) = pk_len pkt" "20 \<le> pk_len pkt"
    and "length f = pk_len pkt" "length g \<le> pk_len pkt"
  shows "\<exists>pkt' cl'. FetchAndProcessTunPkt cd rnd [Inr f, Inr g] pkt a
      = (Block, pkt', a\<lparr>app_client := Some cl'\<rparr>)
    \<and> map snd (cl_sent cl') = map snd (cl_sent cl) @ map (\<lambda>b. fst (proto_Marshal cd
        \<lparr>EType = Some (Envelope_Packet (Some \<lparr>Payload = b\<rparr>))\<rparr>)) [f, g @ drop (length g) f]"
proof -
  have f: "pk_bytes (refill f pkt) = f" using refill_tail [of f pkt] assms(6,8) by (simp add: pk_bytes_def)
  have g: "pk_bytes (refill g (refill f pkt)) = g @ drop (length g) f"
    using refill_tail [of g "refill f pkt"] assms(6,9) f by simp
  have "s + length [f, g] < 2 ^ 63" using assms(4) by simp
  from client_worker [OF assms(1,2,3) this assms(5,6,7), of cd rnd] obtain pkt' cl' where
    w: "FetchAndProcessTunPkt cd rnd (map Inr [f, g]) pkt a = (Block, pkt', a\<lparr>app_client := Some cl'\<rparr>)"
      "cl_sent cl' = cl_sent cl @ zip (map (\<lambda>j. (s + j) mod t) [1..<Suc (length [f, g])])
        (map (\<lambda>p. fst (proto_Marshal cd (packet_envelope p))) (refills [f, g] pkt))"
    by blast
  from w(2) have "map snd (cl_sent cl') = map snd (cl_sent cl) @ map (\<lambda>b. fst (proto_Marshal cd
        \<lparr>EType = Some (Envelope_Packet (Some \<lparr>Payload = b\<rparr>))\<rparr>)) [f, g @ drop (length g) f]"
    by (simp add: packet_envelope_def f g)
  with w(1) show ?thesis by auto
qed

theorem worker_sends_stale_tail_witness:
  "\<exists>pkt' cl'. FetchAndProcessTunPkt demo_codec (\<lambda>_. id) [Inr (replicate 40 1), Inr (replicate 20 2)]
      \<lparr>pk_arr = replicate 40 0, pk_len = 40\<rparr> ((NewApp (demo_config False))\<lparr>app_client := Some demo_client\<rparr>)
      = (Block, pkt', (NewApp (demo_config False))\<lparr>app_client := Some demo_client\<rparr>\<lparr>app_client := Some cl'\<rparr>)
    \<and> map snd (cl_sent cl') = map snd (cl_sent demo_client) @ map (\<lambda>b. fst (proto_Marshal demo_codec
        \<lparr>EType = Some (Envelope_Packet (Some \<lparr>Payload = b\<rparr>))\<rparr>))
        [replicate 40 1, replicate 20 2 @ drop (length (replicate 20 (2 :: u8))) (replicate 40 1)]"
proof (rule worker_sends_stale_tail [where s = 0 and t = 2 and cl = demo_client])
  show "\<not> Cfg_ServerMode (app_config ((NewApp (demo_config False))\<lparr>app_client := Some demo_client\<rparr>))"
    by (simp add: NewApp_def demo_config_def)
qed simp_all

end
