(* ===== verification/AppRun.thy ===== *)
theory AppRun
  imports AppProps
begin

text \<open>
  The server application as a step relation: the accept loop, the handler on every connection, the
  end of a connection with its cleanup, the workers on the TUN device and the cleaning task. A
  worker's loop and the cleaning task take and release the application's and the server's locks
  in between, so each of their critical sections is a step of its own. What else happens to a
  connection (its goroutines, its queue) is one step that keeps its stream and never reopens it.
  Every ping handled is recorded with its connection.
\<close>

section \<open>The machine\<close>

datatype worker_phase =
    WIdle
  | WPacket packet_ip string
  | WChosen packet_ip string string
  | WDead packet_ip string string
  | WUnrouted packet_ip string string
  | WSend packet_ip string conn_ptr
  | KDead string string
  | KUnrouted string

record app_sys =
  as_app :: app
  as_next :: conn_ptr
  as_reading :: "conn_ptr set"
  as_workers :: "nat \<Rightarrow> worker_phase"
  as_pings :: "(string \<times> string \<times> conn_ptr) list"

text \<open>At the start: \<open>Run\<close> has created the server. \<open>as_reading\<close> are the connections whose reading
  goroutine runs.\<close>

definition as_init :: "config \<Rightarrow> app_sys" where
  "as_init cfg = \<lparr>as_app = (NewApp cfg)\<lparr>app_server := NewServer (Cfg_Listen cfg) True (Cfg_Key cfg)\<rparr>,
     as_next = 0, as_reading = {}, as_workers = (\<lambda>_. WIdle), as_pings = []\<rparr>"

text \<open>The ping in a message, if it is one.\<close>

definition ping_of :: "codec \<Rightarrow> bytes \<Rightarrow> conn_ptr \<Rightarrow> (string \<times> string \<times> conn_ptr) list" where
  "ping_of cd buf c = (case proto_Unmarshal cd buf of
     Inr ep \<Rightarrow> (case EType ep of
       Some (Envelope_Ping p) \<Rightarrow> [(MessagePing_GetIP p, MessagePing_GetLocalAddr p, c)]
     | _ \<Rightarrow> [])
   | Inl _ \<Rightarrow> [])"

abbreviation at :: "app_sys \<Rightarrow> nat \<Rightarrow> worker_phase \<Rightarrow> app_sys" where
  "at s w p \<equiv> s\<lparr>as_workers := (as_workers s)(w := p)\<rparr>"

inductive as_step :: "codec \<Rightarrow> (nat \<Rightarrow> nat) \<Rightarrow> app_sys \<Rightarrow> app_sys \<Rightarrow> bool" for cd spare where
  accept: "as_step cd spare s (s\<lparr>as_app := (as_app s)\<lparr>app_heap := (app_heap (as_app s))(as_next s :=
      NewServerConn wr (srv_key (app_server (as_app s))) (srv_handler (app_server (as_app s))) nd)\<rparr>,
      as_next := Suc (as_next s), as_reading := insert (as_next s) (as_reading s)\<rparr>)"
| data: "c \<in> as_reading s \<Longrightarrow> ServerOnData cd spare c buf (as_app s) = (res, a') \<Longrightarrow>
    as_step cd spare s (s\<lparr>as_app := a', as_pings := as_pings s @ ping_of cd buf c\<rparr>)"
| cleanup: "c \<in> as_reading s \<Longrightarrow> as_step cd spare s
    (s\<lparr>as_app := (as_app s)\<lparr>app_server := RemoveConnByConnPointer c (app_server (as_app s))\<rparr>,
       as_reading := as_reading s - {c}\<rparr>)"
| conn_works: "sc_conn v \<noteq> None \<Longrightarrow> (sc_isClosed (app_heap (as_app s) c) \<longrightarrow> sc_isClosed v) \<Longrightarrow>
    as_step cd spare s (s\<lparr>as_app := (as_app s)\<lparr>app_heap := (app_heap (as_app s))(c := v)\<rparr>\<rparr>)"
| take_packet: "as_workers s w = WIdle \<Longrightarrow> GetDestinationIP pkt = Ok d \<Longrightarrow>
    as_step cd spare s (at s w (WPacket pkt (ip_string d)))"
| no_route: "as_workers s w = WPacket pkt dst \<Longrightarrow> map_of (app_routes (as_app s)) dst \<in> {None, Some []} \<Longrightarrow>
    as_step cd spare s (at s w WIdle)"
| choose: "as_workers s w = WPacket pkt dst \<Longrightarrow> map_of (app_routes (as_app s)) dst = Some keys \<Longrightarrow>
    key \<in> set keys \<Longrightarrow> as_step cd spare s (at s w (WChosen pkt dst key))"
| live: "as_workers s w = WChosen pkt dst key \<Longrightarrow> live_conn (as_app s) key = Some c \<Longrightarrow>
    as_step cd spare s (at s w (WSend pkt dst c))"
| dead: "as_workers s w = WChosen pkt dst key \<Longrightarrow> live_conn (as_app s) key = None \<Longrightarrow>
    as_step cd spare s (at s w (WDead pkt dst key))"
| unroute: "as_workers s w = WDead pkt dst key \<Longrightarrow>
    as_step cd spare s (at (s\<lparr>as_app := (as_app s)\<lparr>app_routes := del_route_conn dst key (app_routes (as_app s))\<rparr>\<rparr>)
      w (WUnrouted pkt dst key))"
| unregister: "as_workers s w = WUnrouted pkt dst key \<Longrightarrow>
    as_step cd spare s (at (s\<lparr>as_app := (as_app s)\<lparr>app_server := DeleteDeadConn key (app_server (as_app s))\<rparr>\<rparr>)
      w (WPacket pkt dst))"
| send: "as_workers s w = WSend pkt dst c \<Longrightarrow> sc_SendPacket cd pkt (app_heap (as_app s) c) = (Ok u, v) \<Longrightarrow>
    as_step cd spare s (at (s\<lparr>as_app := (as_app s)\<lparr>app_heap := (app_heap (as_app s))(c := v)\<rparr>\<rparr>) w WIdle)"
| clean_dead: "as_workers s w = WIdle \<Longrightarrow> map_of (app_routes (as_app s)) dst = Some keys \<Longrightarrow>
    key \<in> set keys \<Longrightarrow> live_conn (as_app s) key = None \<Longrightarrow> as_step cd spare s (at s w (KDead dst key))"
| clean_route: "as_workers s w = KDead dst key \<Longrightarrow>
    as_step cd spare s (at (s\<lparr>as_app := (as_app s)\<lparr>app_routes := del_route_conn dst key (app_routes (as_app s))\<rparr>\<rparr>)
      w (KUnrouted key))"
| clean_conn: "as_workers s w = KUnrouted key \<Longrightarrow>
    as_step cd spare s (at (s\<lparr>as_app := (as_app s)\<lparr>app_server := DeleteDeadConn key (app_server (as_app s))\<rparr>\<rparr>)
      w WIdle)"

inductive_cases as_stepE: "as_step cd spare s s'"

inductive as_reach :: "codec \<Rightarrow> (nat \<Rightarrow> nat) \<Rightarrow> config \<Rightarrow> app_sys \<Rightarrow> bool" for cd spare cfg where
  as_start: "as_reach cd spare cfg (as_init cfg)"
| as_next: "as_reach cd spare cfg s \<Longrightarrow> as_step cd spare s s' \<Longrightarrow> as_reach cd spare cfg s'"

section \<open>The invariant\<close>

text \<open>
  Consistent tables, a route table with distinct keys and sets without repetitions, connections
  with their streams; and every route entry, every table entry and every connection a worker is
  about to send to goes back to a ping.
\<close>

definition routes_ok :: "(string \<times> string list) list \<Rightarrow> bool" where
  "routes_ok r \<longleftrightarrow> gomap r \<and> (\<forall>d ks. map_of r d = Some ks \<longrightarrow> distinct ks)"

definition announced :: "(string \<times> string \<times> conn_ptr) list \<Rightarrow> app \<Rightarrow> bool" where
  "announced ps a \<longleftrightarrow>
     (\<forall>d ks key. map_of (app_routes a) d = Some ks \<longrightarrow> key \<in> set ks \<longrightarrow> (\<exists>c. (d, key, c) \<in> set ps)) \<and>
     (\<forall>key c. map_of (srv_Conns (app_server a)) key = Some c \<longrightarrow> (\<exists>d. (d, key, c) \<in> set ps))"

definition pinged_for :: "(string \<times> string \<times> conn_ptr) list \<Rightarrow> string \<Rightarrow> conn_ptr \<Rightarrow> bool" where
  "pinged_for ps dst c \<longleftrightarrow> (\<exists>key c' d'. (dst, key, c') \<in> set ps \<and> (d', key, c) \<in> set ps)"

text \<open>A worker with a packet holds the text of that packet's destination.\<close>

definition dst_of :: "packet_ip \<Rightarrow> string \<Rightarrow> bool" where
  "dst_of pkt dst \<longleftrightarrow> map_outcome ip_string (GetDestinationIP pkt) = Ok dst"

definition worker_ok :: "(string \<times> string \<times> conn_ptr) list \<Rightarrow> worker_phase \<Rightarrow> bool" where
  "worker_ok ps p \<longleftrightarrow> (case p of
     WPacket pkt dst \<Rightarrow> dst_of pkt dst
   | WChosen pkt dst key \<Rightarrow> dst_of pkt dst \<and> (\<exists>c. (dst, key, c) \<in> set ps)
   | WDead pkt dst key \<Rightarrow> dst_of pkt dst
   | WUnrouted pkt dst key \<Rightarrow> dst_of pkt dst
   | WSend pkt dst c \<Rightarrow> dst_of pkt dst \<and> pinged_for ps dst c
   | _ \<Rightarrow> True)"

definition as_inv :: "app_sys \<Rightarrow> bool" where
  "as_inv s \<longleftrightarrow> srv_inv (app_server (as_app s)) \<and> full_heap (app_heap (as_app s))
     \<and> routes_ok (app_routes (as_app s)) \<and> announced (as_pings s) (as_app s)
     \<and> (\<forall>w. worker_ok (as_pings s) (as_workers s w)) \<and> (\<forall>(d, k, c) \<in> set (as_pings s). c < as_next s)
     \<and> (\<forall>c \<in> as_reading s. c < as_next s)"

lemma keys_map_entry: "map fst (AList.map_entry k f m) = map fst m"
  by (induction m) auto

lemma routes_okD: "routes_ok r \<Longrightarrow> map_of r d = Some ks \<Longrightarrow> distinct ks"
  unfolding routes_ok_def by blast

lemma routes_ok_gomap: "routes_ok r \<Longrightarrow> gomap r"
  unfolding routes_ok_def by blast

lemma routes_okI: "gomap r \<Longrightarrow> (\<And>d ks. map_of r d = Some ks \<Longrightarrow> distinct ks) \<Longrightarrow> routes_ok r"
  unfolding routes_ok_def by blast

lemma routes_ok_del:
  assumes ok: "routes_ok r"
  shows "routes_ok (del_route_conn dst key r)"
proof (rule routes_okI)
  show "gomap (del_route_conn dst key r)"
    using routes_ok_gomap [OF ok] by (simp add: gomap_def del_route_conn_def keys_map_entry)
next
  fix d ks
  assume "map_of (del_route_conn dst key r) d = Some ks"
  then show "distinct ks"
    by (auto simp: map_of_del_route_conn dest: routes_okD [OF ok] split: if_splits)
qed

lemma routes_ok_add:
  assumes ok: "routes_ok r"
  shows "routes_ok (add_route ip l r)"
proof (rule routes_okI)
  show "gomap (add_route ip l r)"
    using routes_ok_gomap [OF ok] by (simp add: add_route_def split: option.splits)
next
  fix d ks
  assume ks: "map_of (add_route ip l r) d = Some ks"
  show "distinct ks"
  proof (cases "map_of r d")
    case None
    with ks show ?thesis unfolding map_of_add_route by (auto split: if_splits)
  next
    case (Some old)
    from routes_okD [OF ok this] Some ks show ?thesis
      unfolding map_of_add_route by (auto split: if_splits)
  qed
qed

lemma worker_ok_mono: "worker_ok ps p \<Longrightarrow> set ps \<subseteq> set qs \<Longrightarrow> worker_ok qs p"
  unfolding worker_ok_def pinged_for_def by (cases p) (simp_all, blast+)

lemma announced_del_route:
  "announced ps a \<Longrightarrow> announced ps (a\<lparr>app_routes := del_route_conn dst key (app_routes a)\<rparr>)"
  by (fastforce simp: announced_def map_of_del_route_conn split: if_splits)

lemma announced_DeleteDead:
  "announced ps a \<Longrightarrow> announced ps (a\<lparr>app_server := DeleteDeadConn key (app_server a)\<rparr>)"
  by (auto simp: announced_def DeleteDeadConn_Conns split: if_splits)

lemma announced_Remove:
  "announced ps a \<Longrightarrow> announced ps (a\<lparr>app_server := RemoveConnByConnPointer c (app_server a)\<rparr>)"
  by (auto simp: announced_def RemoveConn_Conns split: if_splits)

lemma announced_heap: "announced ps (a\<lparr>app_heap := h\<rparr>) = announced ps a"
  by (simp add: announced_def)

text \<open>The handler: a ping adds a route and registers its connection, nothing else touches either.\<close>

lemma app_tun_write_fields:
  "app_tun_write pkt a = (res, a') \<Longrightarrow>
   app_routes a' = app_routes a \<and> app_server a' = app_server a \<and> app_heap a' = app_heap a"
  by (auto simp: app_tun_write_def split: option.splits)

lemma on_packet_fields:
  "on_packet pkt a = (res, a') \<Longrightarrow>
   app_routes a' = app_routes a \<and> app_server a' = app_server a \<and> app_heap a' = app_heap a"
  by (auto simp: on_packet_def app_tun_write_fields split: outcome.splits)

lemma ServerOnData_cases:
  assumes run: "ServerOnData cd spare c buf a = (res, a')" and heap: "full_heap (app_heap a)"
  obtains (Ping) ip l where "ping_of cd buf c = [(ip, l, c)]" "app_heap a' = app_heap a"
      "app_routes a' = add_route ip l (app_routes a)"
      "app_server a' = fst (snd (SetConns l (Some c) (app_server a, app_heap a)))"
  | (Other) "ping_of cd buf c = []" "app_routes a' = app_routes a" "app_server a' = app_server a"
      "app_heap a' = app_heap a"
proof (cases "proto_Unmarshal cd buf")
  case (Inl err)
  with run show thesis by (intro Other) (auto simp: ServerOnData_def ping_of_def)
next
  case (Inr ep)
  show thesis
  proof (cases "EType ep")
    case None
    with run Inr show thesis by (intro Other) (auto simp: ServerOnData_def ping_of_def)
  next
    case (Some t)
    show thesis
    proof (cases t)
      case (Envelope_Ping p)
      with run Inr Some show thesis
        by (intro Ping) (auto simp: ServerOnData_def ping_of_def getter_defs Let_def
            SetConns_streams [OF full_heap_streams [OF heap]] split: option.splits)
    next
      case (Envelope_Packet p)
      with run Inr Some show thesis
        using on_packet_fields by (intro Other) (auto simp: ServerOnData_def ping_of_def)
    qed
  qed
qed

lemma announced_ping:
  assumes ann: "announced ps a" and heap: "full_heap (app_heap a)"
    and a': "app_routes a' = add_route ip l (app_routes a)"
      "app_server a' = fst (snd (SetConns l (Some c) (app_server a, app_heap a)))"
  shows "announced (ps @ [(ip, l, c)]) a'"
proof -
  have "\<exists>c'. (d, key, c') \<in> set (ps @ [(ip, l, c)])"
    if r: "map_of (app_routes a') d = Some ks" "key \<in> set ks" for d ks key
  proof (cases "d = ip \<and> key = l")
    case False
    have "\<exists>ks'. map_of (app_routes a) d = Some ks' \<and> key \<in> set ks'"
    proof (cases "d = ip")
      case True
      with False r show ?thesis unfolding a'(1) map_of_add_route by (auto split: option.splits)
    next
      case False
      with r show ?thesis unfolding a'(1) map_of_add_route by simp
    qed
    then obtain c' where "(d, key, c') \<in> set ps" using ann unfolding announced_def by blast
    then show ?thesis by auto
  qed auto
  moreover have "\<exists>d. (d, key, c') \<in> set (ps @ [(ip, l, c)])"
    if r: "map_of (srv_Conns (app_server a')) key = Some c'" for key c'
  proof (cases "key = l \<and> c' = c")
    case False
    with r have "map_of (srv_Conns (app_server a)) key = Some c'"
      unfolding a'(2) SetConns_streams [OF full_heap_streams [OF heap]]
      by (cases "map_of (srv_Conns (app_server a)) l") (simp_all split: if_splits)
    then obtain d where "(d, key, c') \<in> set ps" using ann unfolding announced_def by blast
    then show ?thesis by auto
  qed auto
  ultimately show ?thesis unfolding announced_def by blast
qed

lemma as_inv_init: "as_inv (as_init cfg)"
  by (simp add: as_inv_def as_init_def NewApp_def full_heap_def NewServerConn_def routes_ok_def
      announced_def worker_ok_def) (simp add: NewServer_def)

lemma full_heap_upd: "full_heap h \<Longrightarrow> sc_conn v \<noteq> None \<Longrightarrow> full_heap (h(c := v))"
  by (simp add: full_heap_def)

lemma SendPacket_conn: "sc_SendPacket cd pkt sc = (res, v) \<Longrightarrow> sc_conn v = sc_conn sc"
  by (auto simp: sc_SendPacket_def sc_Write_def split: prod.splits outcome.splits)

lemma as_inv_worker:
  assumes "as_inv s" and "worker_ok (as_pings s) p"
  shows "as_inv (at s w p)"
  using assms by (auto simp: as_inv_def)

lemma as_inv_app:
  assumes "as_inv s" and "srv_inv (app_server a)" "full_heap (app_heap a)" "routes_ok (app_routes a)"
    "announced (as_pings s) a"
  shows "as_inv (s\<lparr>as_app := a\<rparr>)"
  using assms by (auto simp: as_inv_def)

lemma as_invD:
  assumes "as_inv s"
  shows "srv_inv (app_server (as_app s))" and "full_heap (app_heap (as_app s))"
    and "routes_ok (app_routes (as_app s))" and "announced (as_pings s) (as_app s)"
    and "worker_ok (as_pings s) (as_workers s w)"
  using assms by (auto simp: as_inv_def)

text \<open>The updates of the application state the steps share.\<close>

lemma as_inv_unroute:
  "as_inv s \<Longrightarrow> as_inv (s\<lparr>as_app := (as_app s)\<lparr>app_routes := del_route_conn dst key (app_routes (as_app s))\<rparr>\<rparr>)"
  by (rule as_inv_app) (simp_all add: as_invD routes_ok_del announced_del_route)

lemma as_inv_unregister:
  "as_inv s \<Longrightarrow> as_inv (s\<lparr>as_app := (as_app s)\<lparr>app_server := DeleteDeadConn key (app_server (as_app s))\<rparr>\<rparr>)"
  by (rule as_inv_app) (simp_all add: as_invD srv_inv_DeleteDeadConn announced_DeleteDead)

lemma as_inv_heap:
  "as_inv s \<Longrightarrow> sc_conn v \<noteq> None \<Longrightarrow> as_inv (s\<lparr>as_app := (as_app s)\<lparr>app_heap := (app_heap (as_app s))(c := v)\<rparr>\<rparr>)"
  by (rule as_inv_app) (simp_all add: as_invD announced_heap full_heap_upd)

lemma as_inv_cleanup:
  assumes "as_inv s"
  shows "as_inv (s\<lparr>as_app := (as_app s)\<lparr>app_server := RemoveConnByConnPointer c (app_server (as_app s))\<rparr>,
       as_reading := as_reading s - {c}\<rparr>)"
proof -
  have "as_inv (s\<lparr>as_app := (as_app s)\<lparr>app_server := RemoveConnByConnPointer c (app_server (as_app s))\<rparr>\<rparr>)"
    by (rule as_inv_app [OF assms]) (simp_all add: as_invD [OF assms] srv_inv_RemoveConn announced_Remove)
  then show ?thesis by (auto simp: as_inv_def)
qed

lemma as_inv_accept:
  assumes "as_inv s"
  shows "as_inv (s\<lparr>as_app := (as_app s)\<lparr>app_heap := (app_heap (as_app s))(as_next s := NewServerConn wr k h nd)\<rparr>,
      as_next := Suc (as_next s), as_reading := insert (as_next s) (as_reading s)\<rparr>)"
proof -
  have "full_heap ((app_heap (as_app s))(as_next s := NewServerConn wr k h nd))"
    by (rule full_heap_upd [OF as_invD(2) [OF assms]]) (simp add: NewServerConn_def)
  with assms show ?thesis by (auto simp: as_inv_def announced_heap)
qed

lemma as_inv_data:
  assumes inv: "as_inv s" and c: "c \<in> as_reading s" and run: "ServerOnData cd spare c buf (as_app s) = (res, a')"
  shows "as_inv (s\<lparr>as_app := a', as_pings := as_pings s @ ping_of cd buf c\<rparr>)"
  using run as_invD(2) [OF inv]
proof (cases rule: ServerOnData_cases)
  case (Ping ip l)
  note heap = as_invD(2) [OF inv]
  have "srv_inv (app_server a')"
    unfolding Ping(4) by (rule srv_inv_SetConns [OF as_invD(1) [OF inv] full_heap_streams [OF heap]])
  moreover have "routes_ok (app_routes a')" unfolding Ping(3) by (rule routes_ok_add [OF as_invD(3) [OF inv]])
  moreover have "announced (as_pings s @ [(ip, l, c)]) a'"
    by (rule announced_ping [OF as_invD(4) [OF inv] heap Ping(3,4)])
  moreover have "worker_ok (as_pings s @ [(ip, l, c)]) (as_workers s w)" for w
    by (rule worker_ok_mono [OF as_invD(5) [OF inv]]) auto
  ultimately show ?thesis using inv c Ping(1,2) heap by (auto simp: as_inv_def)
next
  case Other
  with inv as_invD(4) [OF inv] show ?thesis by (auto simp: as_inv_def announced_def)
qed

lemma worker_ok_live:
  assumes inv: "as_inv s" and w: "as_workers s w = WChosen pkt dst key"
    and live: "live_conn (as_app s) key = Some c"
  shows "worker_ok (as_pings s) (WSend pkt dst c)"
proof -
  have "map_of (srv_Conns (app_server (as_app s))) key = Some c"
    using live by (auto simp: live_conn_def GetConnsByAddr_def split: option.splits if_splits)
  then obtain d' where "(d', key, c) \<in> set (as_pings s)"
    using as_invD(4) [OF inv] unfolding announced_def by blast
  with as_invD(5) [OF inv, of w] w show ?thesis unfolding worker_ok_def pinged_for_def by auto
qed

lemma worker_ok_choose:
  assumes inv: "as_inv s" and w: "as_workers s w = WPacket pkt dst"
    and route: "map_of (app_routes (as_app s)) dst = Some keys" "key \<in> set keys"
  shows "worker_ok (as_pings s) (WChosen pkt dst key)"
proof -
  have "\<exists>c. (dst, key, c) \<in> set (as_pings s)"
    using as_invD(4) [OF inv] route unfolding announced_def by blast
  with as_invD(5) [OF inv, of w] w show ?thesis by (simp add: worker_ok_def)
qed

lemma phase_dst:
  assumes "as_inv s"
  shows "as_workers s w = WChosen pkt dst key \<Longrightarrow> dst_of pkt dst"
    and "as_workers s w = WDead pkt dst key \<Longrightarrow> dst_of pkt dst"
    and "as_workers s w = WUnrouted pkt dst key \<Longrightarrow> dst_of pkt dst"
  using as_invD(5) [OF assms, of w] by (simp_all add: worker_ok_def)

lemma as_step_inv:
  assumes step: "as_step cd spare s s'" and inv: "as_inv s"
  shows "as_inv s'"
  using step
proof (cases rule: as_step.cases)
  case (send w pkt dst c u v)
  have "sc_conn v \<noteq> None" using SendPacket_conn [OF send(3)] as_invD(2) [OF inv] by (simp add: full_heap_def)
  from as_inv_worker [OF as_inv_heap [OF inv this]] show ?thesis unfolding send(1) by (simp add: worker_ok_def)
next
  case (unroute w pkt dst key)
  show ?thesis unfolding unroute(1)
    by (rule as_inv_worker [OF as_inv_unroute [OF inv]]) (simp add: worker_ok_def phase_dst(2) [OF inv unroute(2)])
next
  case (unregister w pkt dst key)
  show ?thesis unfolding unregister(1)
    by (rule as_inv_worker [OF as_inv_unregister [OF inv]]) (simp add: worker_ok_def phase_dst(3) [OF inv unregister(2)])
next
  case (clean_route w dst key)
  show ?thesis unfolding clean_route(1)
    by (rule as_inv_worker [OF as_inv_unroute [OF inv]]) (simp add: worker_ok_def)
next
  case (clean_conn w key)
  show ?thesis unfolding clean_conn(1)
    by (rule as_inv_worker [OF as_inv_unregister [OF inv]]) (simp add: worker_ok_def)
next
  case (take_packet w pkt d)
  show ?thesis unfolding take_packet(1)
    by (rule as_inv_worker [OF inv]) (simp add: worker_ok_def dst_of_def take_packet(3))
next
  case (dead w pkt dst key)
  show ?thesis unfolding dead(1)
    by (rule as_inv_worker [OF inv]) (simp add: worker_ok_def phase_dst(1) [OF inv dead(2)])
qed (auto intro!: as_inv_worker [OF inv] as_inv_accept [OF inv] as_inv_data [OF inv] as_inv_cleanup [OF inv]
      as_inv_heap [OF inv] worker_ok_live [OF inv] worker_ok_choose [OF inv], simp_all add: worker_ok_def)

lemma as_reach_inv: "as_reach cd spare cfg s \<Longrightarrow> as_inv s"
  by (induction rule: as_reach.induct) (auto intro: as_inv_init as_step_inv)

section \<open>What holds in every run\<close>




text \<open>C8. Isolation of the clients' addresses: when a worker is about to send a packet on a
  connection, that packet's destination was announced by a ping, with a connection address, and a
  ping that came over this very connection announced the same connection address.\<close>

theorem workers_isolated:
  assumes "as_reach cd spare cfg s" and "as_workers s w = WSend pkt dst c"
  shows "\<exists>d key c' dst'. GetDestinationIP pkt = Ok d \<and> ip_string d = dst
    \<and> (dst, key, c') \<in> set (as_pings s) \<and> (dst', key, c) \<in> set (as_pings s)"
proof -
  have "worker_ok (as_pings s) (as_workers s w)" using as_reach_inv [OF assms(1)] by (simp add: as_inv_def)
  then have dst: "dst_of pkt dst" and ping: "pinged_for (as_pings s) dst c"
    using assms(2) by (simp_all add: worker_ok_def)
  from dst obtain d where "GetDestinationIP pkt = Ok d" "ip_string d = dst"
    by (cases "GetDestinationIP pkt") (simp_all add: dst_of_def)
  with ping show ?thesis unfolding pinged_for_def by blast
qed

section \<open>A client that comes back\<close>

text \<open>A new stream over which a ping arrives: the connection is registered, if its address is free.\<close>

lemma client_arrives:
  assumes cd: "codec_ok cd" "ping_ascii p" and reach: "as_reach cd spare cfg s"
    and free: "map_of (srv_Conns (app_server (as_app s))) (LocalAddr p) = None"
  obtains s' where "as_reach cd spare cfg s'" "as_next s' = Suc (as_next s)" "as_workers s' = as_workers s"
    "as_next s \<in> as_reading s'"
    "as_pings s' = as_pings s @ [(IP p, LocalAddr p, as_next s)]"
    "app_routes (as_app s') = add_route (IP p) (LocalAddr p) (app_routes (as_app s))"
    "map_of (srv_Conns (app_server (as_app s'))) = (map_of (srv_Conns (app_server (as_app s))))(LocalAddr p \<mapsto> as_next s)"
    "map_of (srv_ConnsReverse (app_server (as_app s'))) (as_next s) = Some (LocalAddr p)"
    "\<not> sc_isClosed (app_heap (as_app s') (as_next s))"
    "\<exists>k h. app_heap (as_app s') = (app_heap (as_app s))(as_next s := NewServerConn fresh_writer k h False)"
proof -
  let ?n = "as_next s"
  let ?v = "NewServerConn fresh_writer (srv_key (app_server (as_app s))) (srv_handler (app_server (as_app s))) False"
  define a1 where "a1 = (as_app s)\<lparr>app_heap := (app_heap (as_app s))(?n := ?v)\<rparr>"
  define s1 where "s1 = s\<lparr>as_app := a1, as_next := Suc ?n, as_reading := insert ?n (as_reading s)\<rparr>"
  have r1: "as_reach cd spare cfg s1"
    unfolding s1_def a1_def by (rule as_next [OF reach accept])
  have heap: "full_heap (app_heap a1)" using as_reach_inv [OF r1] by (simp add: as_inv_def s1_def)
  let ?buf = "fst (proto_Marshal cd (ping_message p))"
  have wire: "wire_envelope (ping_message p)" using cd(2) by (simp add: wire_envelope_def)
  have ping: "ping_of cd ?buf ?n = [(IP p, LocalAddr p, ?n)]"
    using codec_okD [OF cd(1) wire] by (simp add: ping_of_def getter_defs)
  define a2 where "a2 = snd (ServerOnData cd spare ?n ?buf a1)"
  define s2 where "s2 = s1\<lparr>as_app := a2, as_pings := as_pings s1 @ ping_of cd ?buf ?n\<rparr>"
  have r2: "as_reach cd spare cfg s2"
    unfolding s2_def by (rule as_next [OF r1 data [where res = "fst (ServerOnData cd spare ?n ?buf a1)"]])
      (simp_all add: s1_def a2_def)
  show thesis
    by (rule that [OF r2])
      (simp_all add: s2_def s1_def a2_def ServerOnData_ping [OF cd] ping SetConns_streams [OF full_heap_streams [OF heap]],
       simp_all add: a1_def free NewServerConn_def, blast)
qed

text \<open>A worker takes a packet for a route's only address, whose connection then ends and is cleaned
  up before the worker looks it up.\<close>

lemma worker_finds_dead:
  assumes reach: "as_reach cd spare cfg s" and idle: "as_workers s w = WIdle"
    and pkt: "GetDestinationIP pkt = Ok d" and route: "map_of (app_routes (as_app s)) (ip_string d) = Some [key]"
    and rev: "map_of (srv_ConnsReverse (app_server (as_app s))) c = Some key" "c \<in> as_reading s"
  obtains s' where "as_reach cd spare cfg s'" "as_workers s' w = WDead pkt (ip_string d) key"
    "app_routes (as_app s') = app_routes (as_app s)" "as_next s' = as_next s"
    "map_of (srv_Conns (app_server (as_app s'))) key = None"
proof -
  let ?dst = "ip_string d"
  define s1 where "s1 = at s w (WPacket pkt ?dst)"
  have r1: "as_reach cd spare cfg s1" unfolding s1_def by (rule as_next [OF reach take_packet [OF idle pkt]])
  define s2 where "s2 = at s1 w (WChosen pkt ?dst key)"
  have r2: "as_reach cd spare cfg s2"
    unfolding s2_def by (rule as_next [OF r1 choose [where keys = "[key]"]]) (simp_all add: s1_def route)
  define s3 where "s3 = s2\<lparr>as_app := (as_app s2)\<lparr>app_server := RemoveConnByConnPointer c (app_server (as_app s2))\<rparr>,
    as_reading := as_reading s2 - {c}\<rparr>"
  have "c \<in> as_reading s2" using rev(2) by (simp add: s2_def s1_def)
  then have r3: "as_reach cd spare cfg s3" unfolding s3_def by (rule as_next [OF r2 cleanup])
  have gone: "map_of (srv_Conns (app_server (as_app s3))) key = None"
    by (simp add: s3_def s2_def s1_def RemoveConn_Conns rev(1))
  have lost: "live_conn (as_app s3) key = None" by (simp add: live_conn_def GetConnsByAddr_def gone)
  have "as_reach cd spare cfg (at s3 w (WDead pkt ?dst key))"
    by (rule as_next [OF r3 dead [OF _ lost]]) (simp add: s3_def s2_def)
  then show thesis by (rule that) (simp_all add: gone, simp_all add: s3_def s2_def s1_def)
qed


definition demo_dst_packet :: packet_ip where
  "demo_dst_packet = \<lparr>pk_arr = replicate 16 0 @ [10, 4, 4, 3], pk_len = 20\<rparr>"

lemma demo_dst_packet_dst: "GetDestinationIP demo_dst_packet = Ok [10, 4, 4, 3]"
  by (simp add: GetDestinationIP_cases demo_dst_packet_def)

lemma demo_dst_text: "ip_string [10, 4, 4, 3] = IP demo_ping"
  by (simp add: demo_ping_def) code_simp


text \<open>And when it is still live, the worker gets to send.\<close>

lemma worker_sends:
  assumes reach: "as_reach cd spare cfg s" and idle: "as_workers s w = WIdle"
    and pkt: "GetDestinationIP pkt = Ok d" and route: "map_of (app_routes (as_app s)) (ip_string d) = Some [key]"
    and live: "live_conn (as_app s) key = Some c"
  shows "as_reach cd spare cfg (at s w (WSend pkt (ip_string d) c))"
proof -
  let ?dst = "ip_string d"
  define s1 where "s1 = at s w (WPacket pkt ?dst)"
  have r1: "as_reach cd spare cfg s1" unfolding s1_def by (rule as_next [OF reach take_packet [OF idle pkt]])
  define s2 where "s2 = at s1 w (WChosen pkt ?dst key)"
  have r2: "as_reach cd spare cfg s2"
    unfolding s2_def by (rule as_next [OF r1 choose [where keys = "[key]"]]) (simp_all add: s1_def route)
  have "as_reach cd spare cfg (at s2 w (WSend pkt ?dst c))"
    by (rule as_next [OF r2 as_step.live [where key = key]]) (simp_all add: s2_def s1_def live)
  then show ?thesis by (simp add: s2_def s1_def)
qed

theorem workers_isolated_witness:
  "\<exists>s pkt dst c. as_reach demo_codec (\<lambda>_. 0) (demo_config True) s \<and> as_workers s 0 = WSend pkt dst c
    \<and> (\<exists>d key c' dst'. GetDestinationIP pkt = Ok d \<and> ip_string d = dst
        \<and> (dst, key, c') \<in> set (as_pings s) \<and> (dst', key, c) \<in> set (as_pings s))"
proof -
  let ?l = "LocalAddr demo_ping"
  have i: "as_reach demo_codec (\<lambda>_. 0) (demo_config True) (as_init (demo_config True))" by (rule as_start)
  obtain s where s: "as_reach demo_codec (\<lambda>_. 0) (demo_config True) s" "as_workers s = (\<lambda>_. WIdle)"
    "app_routes (as_app s) = add_route (IP demo_ping) ?l []"
    "map_of (srv_Conns (app_server (as_app s))) ?l = Some 0" "\<not> sc_isClosed (app_heap (as_app s) 0)"
    by (rule client_arrives [OF _ demo_ping_ascii i]) (simp_all add: as_init_def NewApp_def NewServer_def)
  define s' where "s' = at s 0 (WSend demo_dst_packet (ip_string [10, 4, 4, 3]) 0)"
  have r: "as_reach demo_codec (\<lambda>_. 0) (demo_config True) s'"
    unfolding s'_def by (rule worker_sends [where key = ?l, OF s(1) _ demo_dst_packet_dst])
      (simp_all add: s demo_dst_text map_of_add_route live_conn_def GetConnsByAddr_def)
  have w: "as_workers s' 0 = WSend demo_dst_packet (ip_string [10, 4, 4, 3]) 0" by (simp add: s'_def)
  show ?thesis
    by (rule exI [of _ s'], rule exI [of _ demo_dst_packet],
        rule exI [of _ "ip_string [10, 4, 4, 3]"], rule exI [of _ 0])
      (intro conjI r w workers_isolated [OF r w])
qed

end
