(* ===== verification/Stall.thy ===== *)
theory Stall
  imports AppRun
begin

text \<open>
  A connection whose writing goroutine does not come on, and the server's workers: they wait for
  room in that connection's queue, and there are eleven of them (\<open>StartFetchTunInterface\<close> in
  src/qtun/app.go starts ten and is the eleventh itself).
\<close>

section \<open>Waiting for room\<close>

definition queue_full :: "conn_ptr \<Rightarrow> app_sys \<Rightarrow> bool" where
  "queue_full c s \<longleftrightarrow> (let q = sc_chanWrite (app_heap (as_app s) c) in
     \<not> ch_closed q \<and> ch_cap q \<le> length (ch_buf q))"

text \<open>A step of the application that leaves connection \<open>c\<close> as it is: its writing goroutine takes
  nothing, and the connection does not end.\<close>

definition stalled_step :: "codec \<Rightarrow> (nat \<Rightarrow> nat) \<Rightarrow> conn_ptr \<Rightarrow> app_sys \<Rightarrow> app_sys \<Rightarrow> bool" where
  "stalled_step cd spare c s s' \<longleftrightarrow> as_step cd spare s s' \<and> app_heap (as_app s') c = app_heap (as_app s) c"

lemma full_blocks: "queue_full c s \<Longrightarrow> sc_SendPacket cd pkt (app_heap (as_app s) c) \<noteq> (Ok u, v)"
  by (auto simp: queue_full_def sc_SendPacket_def sc_Write_def chan_send_def Let_def)

lemma stalled_worker:
  assumes step: "stalled_step cd spare c s s'" and full: "queue_full c s" and w: "as_workers s w = WSend pkt dst c"
  shows "as_workers s' w = WSend pkt dst c"
proof -
  have "as_step cd spare s s'" using step by (simp add: stalled_step_def)
  then show ?thesis
    using w full_blocks [OF full] by (cases rule: as_step.cases) auto
qed

lemma stalled_full: "stalled_step cd spare c s s' \<Longrightarrow> queue_full c s \<Longrightarrow> queue_full c s'"
  by (simp add: stalled_step_def queue_full_def)

lemma stalled_run:
  "(stalled_step cd spare c)\<^sup>*\<^sup>* s s' \<Longrightarrow> queue_full c s \<Longrightarrow> as_workers s w = WSend pkt dst c
    \<Longrightarrow> as_workers s' w = WSend pkt dst c \<and> queue_full c s'"
  by (induction rule: rtranclp_induct) (auto intro: stalled_worker stalled_full)

section \<open>Getting there\<close>

text \<open>Packets for a route with one live connection: its queue fills, and the next workers wait.\<close>

definition all_idle :: "app_sys \<Rightarrow> bool" where
  "all_idle s \<longleftrightarrow> as_workers s = (\<lambda>_. WIdle)"

definition leads_to :: "app_sys \<Rightarrow> string \<Rightarrow> string \<Rightarrow> conn_ptr \<Rightarrow> bool" where
  "leads_to s dst key c \<longleftrightarrow> map_of (app_routes (as_app s)) dst = Some [key] \<and> live_conn (as_app s) key = Some c"

lemma leads_to_worker [simp]: "leads_to (at s w p) = leads_to s"
  by (intro ext) (simp add: leads_to_def)

definition queued :: "conn_ptr \<Rightarrow> bytes \<Rightarrow> app_sys \<Rightarrow> app_sys" where
  "queued c data s = s\<lparr>as_app := (as_app s)\<lparr>app_heap := (app_heap (as_app s))(c :=
     (app_heap (as_app s) c)\<lparr>sc_chanWrite := (sc_chanWrite (app_heap (as_app s) c))\<lparr>ch_buf
        := ch_buf (sc_chanWrite (app_heap (as_app s) c)) @ [data]\<rparr>\<rparr>)\<rparr>\<rparr>"

lemma leads_to_queued [simp]: "leads_to (queued c' data s) dst key c = leads_to s dst key c"
  by (auto simp: leads_to_def queued_def live_conn_def split: option.splits)

lemma packet_queued:
  assumes reach: "as_reach cd spare cfg s" and idle: "as_workers s w = WIdle"
    and pkt: "GetDestinationIP pkt = Ok d" and lead: "leads_to s (ip_string d) key c"
    and room: "\<not> ch_closed (sc_chanWrite (app_heap (as_app s) c))"
      "length (ch_buf (sc_chanWrite (app_heap (as_app s) c))) < ch_cap (sc_chanWrite (app_heap (as_app s) c))"
  shows "as_reach cd spare cfg (queued c (fst (proto_Marshal cd (packet_envelope pkt))) s)"
proof -
  let ?data = "fst (proto_Marshal cd (packet_envelope pkt))"
  define s1 where "s1 = at s w (WSend pkt (ip_string d) c)"
  define v where "v = app_heap (as_app (queued c ?data s)) c"
  have r1: "as_reach cd spare cfg s1"
    unfolding s1_def using lead by (intro worker_sends [OF reach idle pkt, where key = key]) (simp_all add: leads_to_def)
  have "sc_SendPacket cd pkt (app_heap (as_app s1) c) = (Ok (), v)"
    using room by (simp add: sc_SendPacket_def sc_Write_def chan_send_def queued_def s1_def v_def)
  then have "as_step cd spare s1 (at (s1\<lparr>as_app := (as_app s1)\<lparr>app_heap := (app_heap (as_app s1))(c := v)\<rparr>\<rparr>) w WIdle)"
    by (intro send) (simp add: s1_def)
  moreover have "at (s1\<lparr>as_app := (as_app s1)\<lparr>app_heap := (app_heap (as_app s1))(c := v)\<rparr>\<rparr>) w WIdle = queued c ?data s"
    using idle by (simp add: s1_def v_def queued_def fun_upd_idem)
  ultimately show ?thesis using as_next [OF r1] by metis
qed

lemma queue_fills:
  assumes reach: "as_reach cd spare cfg s" and idle: "all_idle s"
    and pkt: "GetDestinationIP pkt = Ok d" and lead: "leads_to s (ip_string d) key c"
    and q: "sc_chanWrite (app_heap (as_app s) c) = make_chan n" and k: "k \<le> n"
  shows "\<exists>s'. as_reach cd spare cfg s' \<and> all_idle s' \<and> leads_to s' (ip_string d) key c
    \<and> \<not> ch_closed (sc_chanWrite (app_heap (as_app s') c)) \<and> ch_cap (sc_chanWrite (app_heap (as_app s') c)) = n
    \<and> length (ch_buf (sc_chanWrite (app_heap (as_app s') c))) = k
    \<and> live_conn (as_app s') = live_conn (as_app s) \<and> app_routes (as_app s') = app_routes (as_app s)
    \<and> (\<forall>x. x \<noteq> c \<longrightarrow> app_heap (as_app s') x = app_heap (as_app s) x)"
  using k
proof (induction k)
  case 0
  then show ?case using reach idle lead q by (intro exI [of _ s]) (simp add: make_chan_def)
next
  case (Suc k)
  then obtain s' where s': "as_reach cd spare cfg s'" "all_idle s'" "leads_to s' (ip_string d) key c"
    "\<not> ch_closed (sc_chanWrite (app_heap (as_app s') c))" "ch_cap (sc_chanWrite (app_heap (as_app s') c)) = n"
    "length (ch_buf (sc_chanWrite (app_heap (as_app s') c))) = k"
    "live_conn (as_app s') = live_conn (as_app s)" "app_routes (as_app s') = app_routes (as_app s)"
    "\<forall>x. x \<noteq> c \<longrightarrow> app_heap (as_app s') x = app_heap (as_app s) x"
    by auto
  let ?s = "queued c (fst (proto_Marshal cd (packet_envelope pkt))) s'"
  have "as_reach cd spare cfg ?s"
    using s' Suc.prems by (intro packet_queued [OF s'(1) _ pkt s'(3), of 0]) (simp_all add: all_idle_def)
  moreover have "live_conn (as_app ?s) = live_conn (as_app s')"
    by (rule ext) (auto simp: queued_def live_conn_def split: option.splits)
  ultimately show ?case
    using s' by (intro exI [of _ ?s]) (simp add: all_idle_def, simp add: queued_def)
qed

lemma workers_wait:
  assumes reach: "as_reach cd spare cfg s" and idle: "all_idle s"
    and pkt: "GetDestinationIP pkt = Ok d" and lead: "leads_to s (ip_string d) key c"
  shows "as_reach cd spare cfg (s\<lparr>as_workers := (\<lambda>w. if w < n then WSend pkt (ip_string d) c else WIdle)\<rparr>)"
proof (induction n)
  case 0
  have "s\<lparr>as_workers := (\<lambda>_. WIdle)\<rparr> = s" using idle by (simp add: all_idle_def)
  then show ?case using reach by simp
next
  case (Suc n)
  let ?s = "s\<lparr>as_workers := (\<lambda>w. if w < n then WSend pkt (ip_string d) c else WIdle)\<rparr>"
  have "as_reach cd spare cfg (at ?s n (WSend pkt (ip_string d) c))"
    using lead by (intro worker_sends [OF Suc _ pkt, where key = key]) (simp_all add: leads_to_def)
  moreover have "at ?s n (WSend pkt (ip_string d) c)
      = s\<lparr>as_workers := (\<lambda>w. if w < Suc n then WSend pkt (ip_string d) c else WIdle)\<rparr>"
    by (simp add: fun_eq_iff less_Suc_eq)
  ultimately show ?case by simp
qed

section \<open>One client against the others\<close>


definition demo_ping2 :: message_ping where
  "demo_ping2 = demo_ping\<lparr>LocalAddr := ''10.4.4.9/24:7002'', IP := ''10.4.4.9''\<rparr>"


end
