(* ===== verification/ClientProps.thy ===== *)
theory ClientProps
  imports Client Fixtures
begin

text \<open>
  The client over its connections: what \<open>Start\<close> establishes, the fairness of the round robin,
  which connection a ping travels on, and the text of the address it announces.
\<close>

section \<open>Starting\<close>

lemma client_Start_eq:
  assumes "0 \<le> cl_threads c"
  shows "client_Start lib nd dial c = (Ok (), fold (start_conn lib nd dial) [0..<nat (cl_threads c)]
     (c\<lparr>cl_conns := replicate (nat (cl_threads c)) None\<rparr>))"
  using assms by (simp add: client_Start_def Let_def)

text \<open>The connection a dial leaves in its slot: none, unless the dial yields a session and a stream.\<close>

definition started_conn :: "crypto_lib \<Rightarrow> bool \<Rightarrow> client \<Rightarrow> dial_result \<Rightarrow> nat \<Rightarrow> client_conn option" where
  "started_conn lib nd c d i = (case d of
     Inr (sess, Inr w) \<Rightarrow> Some ((snd (cc_crypto lib (cc_SetHander (cl_handler c)
         (NewClientConn (cl_remoteAddr c) (cl_key c) (int i) nd))))
       \<lparr>cc_session := Some sess, cc_conn := Some w, cc_connected := True\<rparr>)
   | _ \<Rightarrow> None)"

lemma cc_crypto_works:
  assumes "cc_key cc = [] \<or> crypto_ok lib"
  shows "fst (cc_crypto lib cc) = None" and "cc_connected (snd (cc_crypto lib cc)) = cc_connected cc"
  using assms makeAES_total(1) [of lib "cc_key cc"] by (auto simp: cc_crypto_def)

lemma start_conn_eq:
  assumes key: "cl_key c = [] \<or> crypto_ok lib" and i: "cl_conns c ! i = None"
  shows "cl_conns (start_conn lib nd dial i c) = (cl_conns c)[i := started_conn lib nd c (dial i) i]"
    and "cl_key (start_conn lib nd dial i c) = cl_key c"
    and "started_conn lib nd (start_conn lib nd dial i c) = started_conn lib nd c"
proof -
  define cc where "cc = cc_SetHander (cl_handler c) (NewClientConn (cl_remoteAddr c) (cl_key c) (int i) nd)"
  have cc: "cc_key cc = [] \<or> crypto_ok lib" "\<not> cc_connected cc"
    using key by (simp_all add: cc_def cc_SetHander_def NewClientConn_def)
  obtain cc1 where c1: "cc_crypto lib cc = (None, cc1)" "\<not> cc_connected cc1"
    using cc_crypto_works [OF cc(1)] cc(2) by (metis prod.collapse snd_conv)
  have eq: "start_conn lib nd dial i c = (case dial i of
      Inr (sess, Inr w) \<Rightarrow> c\<lparr>cl_wg := cl_wg c + 1, cl_conns := (cl_conns c)[i := started_conn lib nd c (dial i) i]\<rparr>
    | _ \<Rightarrow> c)"
    using c1 unfolding start_conn_def started_conn_def Let_def poll_connected_iff
    by (simp add: cc_def [symmetric] cc_InitConn_def cc_tryConnect_def POE_def cc_setConnected_def cc_IsConnected_def
        Let_def split: sum.splits prod.splits)
  show "cl_conns (start_conn lib nd dial i c) = (cl_conns c)[i := started_conn lib nd c (dial i) i]"
    using i list_update_id [of "cl_conns c" i] unfolding eq
    by (auto simp: started_conn_def split: sum.splits prod.splits)
  show "cl_key (start_conn lib nd dial i c) = cl_key c"
    unfolding eq by (auto split: sum.splits prod.splits)
  show "started_conn lib nd (start_conn lib nd dial i c) = started_conn lib nd c"
    unfolding eq by (intro ext) (auto simp: started_conn_def split: sum.splits prod.splits)
qed

lemma start_loop_conns:
  assumes key: "cl_key c = [] \<or> crypto_ok lib" and c: "cl_conns c = replicate t None" and "m \<le> t"
  shows "cl_conns (fold (start_conn lib nd dial) [0..<m] c)
      = map (\<lambda>i. started_conn lib nd c (dial i) i) [0..<m] @ replicate (t - m) None
    \<and> cl_key (fold (start_conn lib nd dial) [0..<m] c) = cl_key c
    \<and> started_conn lib nd (fold (start_conn lib nd dial) [0..<m] c) = started_conn lib nd c"
  using assms(3)
proof (induction m)
  case 0
  then show ?case using c by simp
next
  case (Suc m)
  let ?c = "fold (start_conn lib nd dial) [0..<m] c"
  have IH: "cl_conns ?c = map (\<lambda>i. started_conn lib nd c (dial i) i) [0..<m] @ replicate (t - m) None"
    "cl_key ?c = cl_key c" "started_conn lib nd ?c = started_conn lib nd c"
    using Suc by simp_all
  have m: "replicate (t - m) (None :: client_conn option) = None # replicate (t - Suc m) None"
    using Suc.prems by (simp add: Suc_diff_Suc flip: replicate_Suc)
  have "cl_conns ?c ! m = None" using IH(1) m by (simp add: nth_append)
  from start_conn_eq [OF _ this, of lib nd dial] IH m key show ?case
    by (simp add: list_update_append)
qed

lemma client_Start_conns:
  assumes t: "cl_threads c = int t" and key: "cl_key c = [] \<or> crypto_ok lib"
  shows "\<exists>c'. client_Start lib nd dial c = (Ok (), c')
    \<and> cl_conns c' = map (\<lambda>i. started_conn lib nd c (dial i) i) [0..<t]"
proof -
  let ?c = "c\<lparr>cl_conns := replicate t None\<rparr>"
  have "started_conn lib nd ?c = started_conn lib nd c"
    by (intro ext) (auto simp: started_conn_def split: sum.splits)
  then show ?thesis
    using start_loop_conns [of ?c lib t t nd dial] key t client_Start_eq [of c lib nd dial] by simp
qed

lemma count_connected_nil:
  "cs ! k = None \<Longrightarrow> k < length cs \<Longrightarrow> \<exists>p. count_connected cs = Panic p"
proof (induction cs arbitrary: k rule: count_connected.induct)
  case (3 conn cs)
  show ?case
  proof (cases k)
    case 0
    with 3 show ?thesis by simp
  next
    case (Suc m)
    with 3 obtain p where "count_connected cs = Panic p" by auto
    then show ?thesis by simp
  qed
qed simp_all

text \<open>C38. \<open>Start\<close> returns with one slot per configured thread, whatever the dials do: a slot holds, under
  its own index and with the configured cipher, the connection on the stream its only dial yielded, marked
  connected; the slot of a dial that failed, at the session or at the stream, is nil and stays so.
  The wait group counts the slots in use.\<close>

theorem start_establishes:
  assumes t: "cl_threads c = int t" and wg: "cl_wg c = 0" and key: "cl_key c = [] \<or> crypto_ok lib"
  shows "\<exists>c'. client_Start lib nd dial c = (Ok (), c')
    \<and> cl_conns c' = map (\<lambda>i. started_conn lib nd c (dial i) i) [0..<t]
    \<and> cl_wg c' = slots_used (cl_conns c')"
proof -
  let ?c = "c\<lparr>cl_conns := replicate t None\<rparr>"
  obtain c' where c': "client_Start lib nd dial c = (Ok (), c')"
    "cl_conns c' = map (\<lambda>i. started_conn lib nd c (dial i) i) [0..<t]"
    using client_Start_conns [OF t key, of nd dial] by blast
  have "start_inv 0 ?c" using wg by (simp add: start_inv_def)
  then have "start_inv t (fold (start_conn lib nd dial) [0..<t] ?c)" by (rule start_loop_inv) simp
  then have "cl_wg c' = slots_used (cl_conns c')"
    using c'(1) t client_Start_eq [of c lib nd dial] by (simp add: start_inv_def)
  with c' show ?thesis by blast
qed

theorem start_establishes_witness:
  "\<exists>c'. client_Start demo_crypto False (\<lambda>i. if i = 0 then Inl EOF else Inr (''[::]:5'', Inr fresh_writer))
        (NewClient ''8.8.8.80:8080'' ''hahaha'' 3 True) = (Ok (), c')
    \<and> cl_conns c' ! 0 = None \<and> cl_conns c' ! 1 \<noteq> None \<and> cl_wg c' = slots_used (cl_conns c')"
proof -
  let ?dial = "\<lambda>i :: nat. if i = 0 then Inl EOF else Inr (''[::]:5'', Inr fresh_writer)"
  have "\<exists>c'. client_Start demo_crypto False ?dial (NewClient ''8.8.8.80:8080'' ''hahaha'' (int 3) True) = (Ok (), c')
    \<and> cl_conns c' = map (\<lambda>i. started_conn demo_crypto False (NewClient ''8.8.8.80:8080'' ''hahaha'' (int 3) True) (?dial i) i) [0..<3]
    \<and> cl_wg c' = slots_used (cl_conns c')"
    by (rule start_establishes) (simp_all add: NewClient_def)
  then show ?thesis by (auto simp: started_conn_def)
qed

text \<open>A connection whose first dial fails is given up for good: \<open>Start\<close> looks at its flag ten
  times without dialling again, leaves its slot nil, and sends that the round robin puts on this
  slot are dropped silently. The same slot makes \<open>ConnectWait\<close> panic.\<close>

theorem failed_slot_drops:
  assumes t: "cl_threads c = int t" and i: "i < t" and dial: "dial i = Inl e"
    and lib: "crypto_ok lib"
  shows "\<exists>c'. client_Start lib nd dial c = (Ok (), c') \<and> cl_conns c' ! i = None
    \<and> conn_Write_at i data c' = (Ok (), c')
    \<and> (\<exists>p. ConnectWait_turn c' = Panic p)"
proof -
  obtain c' where c': "client_Start lib nd dial c = (Ok (), c')"
    "cl_conns c' = map (\<lambda>i. started_conn lib nd c (dial i) i) [0..<t]"
    using client_Start_conns [OF t, of lib nd dial] lib by blast
  have none: "cl_conns c' ! i = None" using i dial by (simp add: c'(2) started_conn_def)
  moreover have "\<exists>p. ConnectWait_turn c' = Panic p"
    using count_connected_nil [OF none] i by (auto simp: ConnectWait_turn_def c'(2))
  ultimately show ?thesis using c'(1) by (intro exI [of _ c']) (simp add: conn_Write_at_def cc_Write_def)
qed

theorem failed_slot_drops_witness:
  "\<exists>c'. client_Start demo_crypto False (\<lambda>i. if i = 0 then Inl EOF else Inr (''[::]:5'', Inr fresh_writer))
        (NewClient ''8.8.8.80:8080'' ''hahaha'' 3 True) = (Ok (), c') \<and> cl_conns c' ! 0 = None
    \<and> conn_Write_at 0 [1] c' = (Ok (), c') \<and> (\<exists>p. ConnectWait_turn c' = Panic p)"
  by (rule failed_slot_drops [where t = 3]) (simp_all add: NewClient_def)

lemma close_conns_all:
  assumes "\<And>i. closes i"
  shows "close_conns closes k cs wg = (if None \<in> set cs
    then (Panic ''invalid memory address or nil pointer dereference'', wg - int (length (takeWhile (\<lambda>c. c \<noteq> None) cs)))
    else (Ok (), wg - int (length cs)))"
proof (induction cs arbitrary: k wg)
  case (Cons x cs)
  then show ?case by (cases x) (simp_all add: assms)
qed simp

lemma slots_used_full: "None \<notin> set cs \<Longrightarrow> slots_used cs = int (length cs)"
proof -
  assume "None \<notin> set cs"
  then have "filter (\<lambda>x. x \<noteq> None) cs = cs" by (intro filter_True ballI notI) simp
  then show ?thesis unfolding slots_used_def by simp
qed

text \<open>Stopping a started client, when every connection takes its close token: if all slots were
  established, \<open>Stop\<close> returns with the wait group at zero; if the first dial of one failed, it
  panics at its slot.\<close>

theorem stop_after_start:
  assumes t: "cl_threads c = int t" and wg: "cl_wg c = 0"
    and start: "client_Start lib nd dial c = (Ok (), c')" and closes: "\<And>i. closes i"
  shows "if None \<in> set (cl_conns c') then \<exists>p. fst (client_Stop closes c') = Panic p
    else client_Stop closes c' = (Ok (), c'\<lparr>cl_wg := 0\<rparr>)"
proof -
  let ?c = "c\<lparr>cl_conns := replicate t None\<rparr>"
  have "start_inv 0 ?c" using wg by (simp add: start_inv_def)
  then have "start_inv t (fold (start_conn lib nd dial) [0..<t] ?c)" by (rule start_loop_inv) simp
  then have "cl_wg c' = slots_used (cl_conns c')"
    using start t client_Start_eq [of c lib nd dial] by (simp add: start_inv_def)
  then show ?thesis
    by (auto simp: client_Stop_def close_conns_all [OF closes] slots_used_full)
qed

theorem stop_after_start_witness:
  "\<exists>c'. client_Start demo_crypto False (\<lambda>_. Inr (''[::]:5'', Inr fresh_writer))
        (NewClient ''8.8.8.80:8080'' ''hahaha'' 3 True) = (Ok (), c')
    \<and> (if None \<in> set (cl_conns c') then \<exists>p. fst (client_Stop (\<lambda>_. True) c') = Panic p
       else client_Stop (\<lambda>_. True) c' = (Ok (), c'\<lparr>cl_wg := 0\<rparr>))"
proof -
  obtain c' where run: "client_Start demo_crypto False (\<lambda>_. Inr (''[::]:5'', Inr fresh_writer))
        (NewClient ''8.8.8.80:8080'' ''hahaha'' 3 True) = (Ok (), c')"
    using client_Start_eq [of "NewClient ''8.8.8.80:8080'' ''hahaha'' 3 True"] by (simp add: NewClient_def)
  from stop_after_start [OF _ _ run, of 3 "\<lambda>_. True"] run show ?thesis
    by (intro exI [of _ c']) (simp add: NewClient_def)
qed

section \<open>Round robin\<close>

text \<open>Fairness: any \<open>t\<close> consecutive choices among \<open>t\<close> connections pick every connection exactly
  once, while the counter stays below \<open>2 ^ 63\<close>.\<close>

theorem round_robin_fair:
  assumes "picks_ok c t s" and "s + t < 2 ^ 63"
  shows "\<exists>is c'. reads client_pick c is c' \<and> length is = t \<and> distinct is \<and> set is = {0..<t}"
proof -
  have "0 < t" using assms(1) by (simp add: picks_ok_def)
  then show ?thesis
    using client_picks [OF assms] consecutive_mod [of t s]
    by (intro exI [of _ "map (\<lambda>j. (s + j) mod t) [1..<Suc t]"]
        exI [of _ "c\<lparr>cl_serial := of_nat (s + t)\<rparr>"]) simp
qed

definition demo_threads :: "nat \<Rightarrow> client" where
  "demo_threads t = (NewClient ''8.8.8.80:8080'' ''hahaha'' (int t) True)
     \<lparr>cl_conns := map (\<lambda>i. Some ((NewClientConn ''8.8.8.80:8080'' ''hahaha'' (int i) False)
        \<lparr>cc_session := Some (''[::]:'' @ nat_text (7000 + i))\<rparr>)) [0..<t]\<rparr>"

lemma demo_threads_ok [simp]: "0 < t \<Longrightarrow> picks_ok (demo_threads t) t 0" "conns_open (demo_threads t)"
  by (auto simp: demo_threads_def NewClient_def picks_ok_def conns_open_def NewClientConn_def)

theorem round_robin_fair_witness:
  "\<exists>is c'. reads client_pick (demo_threads 3) is c' \<and> length is = 3 \<and> distinct is \<and> set is = {0..<3}"
  by (rule round_robin_fair [where s = 0]) simp_all

text \<open>The counter wraps: after \<open>2 ^ 63 - 1\<close> choices the next remainder is negative for every
  thread count that does not divide \<open>2 ^ 63\<close>, and the choice panics, index out of range.\<close>

theorem round_robin_wraps:
  assumes t: "0 < t" "\<not> t dvd 2 ^ 63" and c: "cl_threads c = t" "cl_serial c = of_nat (2 ^ 63 - 1)"
  shows "\<exists>p c'. client_pick c = (Panic p, c')"
proof -
  have serial: "cl_serial c + 1 = of_nat (2 ^ 63)" using c(2) by simp
  have s: "sint (of_nat (2 ^ 63) :: 64 word) = - (2 ^ 63)" by simp
  have "(- (2 ^ 63)) smod t = - (2 ^ 63 mod t)" using t by (simp add: signed_modulo_int_def)
  moreover have "0 < 2 ^ 63 mod t" using t by (simp add: dvd_eq_mod_eq_0 order.not_eq_order_implies_strict)
  ultimately show ?thesis using t c(1) unfolding client_pick_def serial s Let_def by simp
qed

theorem round_robin_wraps_witness:
  "\<exists>p c'. client_pick ((demo_threads 3)\<lparr>cl_serial := of_nat (2 ^ 63 - 1)\<rparr>) = (Panic p, c')"
  by (rule round_robin_wraps [where t = 3]) (simp_all add: demo_threads_def NewClient_def)

section \<open>The local port\<close>

lemma colon_not_digit: "CHR '':'' \<notin> set (nat_text n)"
  using nat_text_digits [of "CHR '':''" n] by (auto simp: is_digit_def)

lemma colon_not_dotted: "CHR '':'' \<notin> set (dotted ip)"
  using dotted_chars [of "CHR '':''" ip] by (auto simp: is_digit_def)

lemma split_unspecified:
  "str_split CHR '':'' (''[::]:'' @ nat_text n) = [''['', [], '']'', nat_text n]"
  by (simp add: str_split_free colon_not_digit)

lemma GetConnPort_unspecified:
  "cc_session cc = Some (''[::]:'' @ nat_text n) \<Longrightarrow> cc_GetConnPort cc = Ok (nat_text n)"
  unfolding cc_GetConnPort_def split_unspecified [symmetric]
  using split_unspecified [of n] by simp

text \<open>The port is read from a local address of the form \<open>[::]:port\<close>, which an unbound IPv6
  socket has. An IPv4 local address is refused by a panic, one with exactly three parts passes the
  guard and panics at the index behind it, and of a longer IPv6 address another part is returned.\<close>

theorem port_of_local_addr:
  "cc_GetConnPort (cc\<lparr>cc_session := Some (''[::]:'' @ nat_text n)\<rparr>) = Ok (nat_text n)
   \<and> cc_GetConnPort (cc\<lparr>cc_session := Some (dotted ip @ '':'' @ nat_text n)\<rparr>)
       = Panic ''fail to get local tcp port''
   \<and> cc_GetConnPort (cc\<lparr>cc_session := Some (nat_text x @ '':'' @ nat_text y @ '':'' @ nat_text n)\<rparr>)
       = Panic ''runtime error: index out of range [3] with length 3''
   \<and> cc_GetConnPort (cc\<lparr>cc_session := Some (''[2001:db8::1]:'' @ nat_text n)\<rparr>) = Ok ''1]''"
  by (simp add: GetConnPort_unspecified cc_GetConnPort_def str_split_Cons str_split_free
      colon_not_digit colon_not_dotted Let_def)

section \<open>Pings\<close>

definition port_known :: "client_conn option \<Rightarrow> nat \<Rightarrow> bool" where
  "port_known x n \<longleftrightarrow> (\<exists>v. x = Some v \<and> cc_session v = Some (''[::]:'' @ nat_text n))"

lemma ascii_append [simp]: "ascii (xs @ ys) \<longleftrightarrow> ascii xs \<and> ascii ys"
  by (auto simp: ascii_def)

lemma ascii_Cons [simp]: "ascii (c # cs) \<longleftrightarrow> (of_char c :: nat) < 128 \<and> ascii cs"
  by (simp add: ascii_def)

lemma ascii_Nil [simp]: "ascii []"
  by (simp add: ascii_def)

lemma ascii_dotted [simp]: "ascii (dotted ip)"
  unfolding ascii_def using dotted_chars [of _ ip] by (fastforce simp: is_digit_def)

abbreviation cidr_text :: "bytes \<Rightarrow> nat \<Rightarrow> string" where
  "cidr_text ip n \<equiv> dotted ip @ ''/'' @ nat_text n"

lemma SendPing_open:
  assumes cfg: "Cfg_Ip cfg = cidr_text ip k" "length ip = 4" "k \<le> 32" and cd: "codec_ok cd"
    and v: "cc_session v = Some (''[::]:'' @ nat_text n)"
    and c: "picks_ok c t s" "Suc s < 2 ^ 63" "conns_open c"
  shows "SendPing cd p6 cfg now v c = (Ok (), c\<lparr>cl_serial := of_nat (Suc s), cl_sent := cl_sent c
     @ [(Suc s mod t, fst (proto_Marshal cd
          (ping_envelope now (cidr_text ip k @ '':'' @ nat_text n) (v4_in_v6 ip))))]\<rparr>)"
proof -
  let ?e = "ping_envelope now (cidr_text ip k @ '':'' @ nat_text n) (v4_in_v6 ip)"
  have "wire_envelope ?e"
    using cfg(2) by (simp add: ping_envelope_def wire_envelope_def ping_ascii_def)
  then have m: "snd (proto_Marshal cd ?e) = None" using cd by (simp add: codec_ok_def)
  have "SendPing cd p6 cfg now v c = client_Write (fst (proto_Marshal cd ?e)) c"
    unfolding SendPing_def cfg(1) parse_cidr_dotted [OF cfg(2,3)]
    using m by (cases "proto_Marshal cd ?e")
      (simp add: GetTunLocalAddrWithPortOnConn_def GetConnPort_unspecified [OF v] cfg(1))
  with client_Write_open [OF c] show ?thesis by simp
qed

lemma SendAllPing_loop_open:
  assumes cfg: "Cfg_Ip cfg = cidr_text ip k" "length ip = 4" "k \<le> 32" and cd: "codec_ok cd"
    and vs: "list_all2 port_known vs ns"
    and c: "picks_ok c t s" "s + length vs < 2 ^ 63" "conns_open c"
  shows "\<exists>c'. SendAllPing_loop cd p6 cfg now vs c = (Ok (), c')
    \<and> cl_sent c' = cl_sent c @ zip (map (\<lambda>j. (s + j) mod t) [1..<Suc (length vs)])
        (map (\<lambda>n. fst (proto_Marshal cd
          (ping_envelope now (cidr_text ip k @ '':'' @ nat_text n) (v4_in_v6 ip)))) ns)"
  using vs c
proof (induction vs ns arbitrary: c s rule: list_all2_induct)
  case Nil
  then show ?case by simp
next
  case (Cons x vs n ns)
  from Cons.hyps(1) obtain v where v: "x = Some v" "cc_session v = Some (''[::]:'' @ nat_text n)"
    by (auto simp: port_known_def)
  let ?msg = "\<lambda>n. fst (proto_Marshal cd (ping_envelope now (cidr_text ip k @ '':'' @ nat_text n) (v4_in_v6 ip)))"
  let ?c = "c\<lparr>cl_serial := of_nat (Suc s), cl_sent := cl_sent c @ [(Suc s mod t, ?msg n)]\<rparr>"
  have s: "Suc s < 2 ^ 63" "Suc s + length vs < 2 ^ 63" using Cons.prems(2) by simp_all
  have step: "SendPing cd p6 cfg now v c = (Ok (), ?c)"
    by (rule SendPing_open [OF cfg cd v(2) Cons.prems(1) s(1) Cons.prems(3)])
  have "conns_open ?c" using Cons.prems(3) by (simp add: conns_open_def)
  from Cons.IH [OF picks_ok_step [OF Cons.prems(1)] s(2) this] obtain c' where
    ih: "SendAllPing_loop cd p6 cfg now vs ?c = (Ok (), c')"
      "cl_sent c' = cl_sent ?c @ zip (map (\<lambda>j. (Suc s + j) mod t) [1..<Suc (length vs)]) (map ?msg ns)"
    by blast
  have "[1..<Suc (length (x # vs))] = 1 # map Suc [1..<Suc (length vs)]"
    by (simp add: upt_conv_Cons map_Suc_upt del: upt_Suc)
  then have idx: "map (\<lambda>j. (s + j) mod t) [1..<Suc (length (x # vs))]
      = Suc s mod t # map (\<lambda>j. (Suc s + j) mod t) [1..<Suc (length vs)]"
    by (simp only: list.map map_map comp_def add_Suc_right add_Suc add_0_right One_nat_def)
  show ?case
    using step ih v unfolding idx by (intro exI [of _ c']) (simp add: go_bind_def)
qed


lemma demo_ports: "list_all2 port_known (cl_conns (demo_threads 2)) [7000, 7001]"
proof -
  have "cl_conns (demo_threads 2) = map (\<lambda>i. Some ((NewClientConn ''8.8.8.80:8080'' ''hahaha'' (int i) False)
        \<lparr>cc_session := Some (''[::]:'' @ nat_text (7000 + i))\<rparr>)) [0, 1]"
    by (simp add: demo_threads_def upt_rec)
  then show ?thesis by (simp add: port_known_def)
qed


end
