(* ===== verification/ClientSend.thy ===== *)
theory ClientSend
  imports ClientProps
begin

text \<open>
  The senders of a client, interleaved (src/transport/client.go, \<open>Write\<close>): the workers on the TUN
  device and the goroutine of the pings draw a number each, and then wait on the unbuffered channel
  of the connection it names, until a writing goroutine of that connection takes the message. The
  function \<open>client_Write\<close> of Client is one sender whose message is taken at once.
\<close>

section \<open>The machine\<close>

datatype sender = Idle | Waits nat bytes

record send_run =
  sr_client :: client
  sr_threads :: "nat \<Rightarrow> sender"
  sr_picks :: nat

text \<open>
  \<open>T\<close> is the number of senders; \<open>sr_picks\<close> counts the numbers they have drawn. The label of a step
  is the connection whose writing goroutine takes a message in it.
\<close>

inductive send_step :: "nat \<Rightarrow> nat option \<Rightarrow> send_run \<Rightarrow> send_run \<Rightarrow> bool" for T where
  pick: "\<lbrakk>t < T; sr_threads r t = Idle; client_pick (sr_client r) = (Ok i, c);
      cc_Write data (cl_conns c ! i) = (Block, x)\<rbrakk>
    \<Longrightarrow> send_step T None r (r\<lparr>sr_client := c, sr_threads := (sr_threads r)(t := Waits i data),
          sr_picks := Suc (sr_picks r)\<rparr>)"
| skip_nil: "\<lbrakk>t < T; sr_threads r t = Idle; client_pick (sr_client r) = (Ok i, c);
      cc_Write data (cl_conns c ! i) = (Ok u, x)\<rbrakk>
    \<Longrightarrow> send_step T None r (r\<lparr>sr_client := c, sr_picks := Suc (sr_picks r)\<rparr>)"
| take_msg: "\<lbrakk>t < T; sr_threads r t = Waits i data\<rbrakk>
    \<Longrightarrow> send_step T (Some i) r (r\<lparr>sr_client := (sr_client r)\<lparr>cl_sent := cl_sent (sr_client r) @ [(i, data)]\<rparr>,
          sr_threads := (sr_threads r)(t := Idle)\<rparr>)"

inductive_cases send_stepE: "send_step T l r r'"

text \<open>Runs in which the writing goroutine of connection \<open>j\<close> takes nothing.\<close>

inductive runs_without :: "nat \<Rightarrow> nat \<Rightarrow> send_run \<Rightarrow> send_run \<Rightarrow> bool" for T j where
  start: "runs_without T j r r"
| step: "runs_without T j r r1 \<Longrightarrow> send_step T l r1 r2 \<Longrightarrow> l \<noteq> Some j \<Longrightarrow> runs_without T j r r2"

section \<open>Agreement with the sequential write\<close>

lemma cc_Write_not_Err: "cc_Write data x \<noteq> (Err e, x')"
  by (auto simp: cc_Write_def chan_send_def split: option.splits prod.splits if_splits)

definition sends :: "nat \<Rightarrow> send_run \<Rightarrow> send_run \<Rightarrow> bool" where
  "sends T r r' \<longleftrightarrow> (\<exists>l. send_step T l r r')"

lemma sendsI: "send_step T l r r' \<Longrightarrow> sends T r r'"
  by (auto simp: sends_def)

text \<open>An idle sender that writes and whose message is taken does what \<open>client_Write\<close> says.\<close>

lemma sequential_write:
  assumes t: "t < T" "sr_threads r t = Idle" and run: "client_Write data (sr_client r) = (Ok u, c')"
  shows "\<exists>r'. (sends T)\<^sup>*\<^sup>* r r' \<and> sr_client r' = c' \<and> sr_threads r' = sr_threads r"
proof -
  obtain i c1 where c1: "client_pick (sr_client r) = (Ok i, c1)" "conn_Write_at i data c1 = (Ok u, c')"
    using run unfolding client_Write_def by (rule go_bind_OkE)
  obtain v x where v: "cc_Write data (cl_conns c1 ! i) = (v, x)" by fastforce
  show ?thesis
  proof (cases v)
    case Block
    let ?r1 = "r\<lparr>sr_client := c1, sr_threads := (sr_threads r)(t := Waits i data), sr_picks := Suc (sr_picks r)\<rparr>"
    let ?r2 = "?r1\<lparr>sr_client := c1\<lparr>cl_sent := cl_sent c1 @ [(i, data)]\<rparr>, sr_threads := (sr_threads ?r1)(t := Idle)\<rparr>"
    have "sends T r ?r1" using pick [OF t c1(1)] v Block by (auto intro: sendsI)
    moreover have "sends T ?r1 ?r2" using take_msg [OF t(1), of ?r1 i data] by (auto intro: sendsI)
    ultimately have "(sends T)\<^sup>*\<^sup>* r ?r2" by (meson converse_rtranclp_into_rtranclp r_into_rtranclp)
    moreover have "sr_client ?r2 = c'" using c1(2) v Block by (simp add: conn_Write_at_def)
    moreover have "sr_threads ?r2 = sr_threads r" using t(2) by (simp add: fun_upd_idem)
    ultimately show ?thesis by blast
  next
    case (Ok w)
    let ?r1 = "r\<lparr>sr_client := c1, sr_picks := Suc (sr_picks r)\<rparr>"
    have "(sends T)\<^sup>*\<^sup>* r ?r1" using skip_nil [OF t c1(1)] v Ok by (auto intro: sendsI)
    moreover have "c1 = c'" using c1(2) v Ok by (simp add: conn_Write_at_def)
    ultimately show ?thesis by (intro exI [of _ ?r1]) simp
  next
    case (Err e)
    then show ?thesis using v by (simp add: cc_Write_not_Err)
  next
    case (Panic p)
    then show ?thesis using c1(2) v by (simp add: conn_Write_at_def)
  qed
qed

section \<open>Counting the numbers that name a connection\<close>

definition hits :: "nat \<Rightarrow> nat \<Rightarrow> nat \<Rightarrow> nat \<Rightarrow> nat" where
  "hits n j m p = card {k. m < k \<and> k \<le> m + p \<and> k mod n = j}"

lemma finite_hits [simp]: "finite {k. m < k \<and> k \<le> m + (p :: nat) \<and> k mod n = j}"
  by (rule finite_subset [of _ "{..m + p}"]) auto

lemma hits_0 [simp]: "hits n j m 0 = 0"
  by (simp add: hits_def)

lemma hits_Suc: "hits n j m (Suc p) = hits n j m p + of_bool ((m + Suc p) mod n = j)"
proof -
  have "{k. m < k \<and> k \<le> m + Suc p \<and> k mod n = j} =
      (if (m + Suc p) mod n = j then insert (m + Suc p) {k. m < k \<and> k \<le> m + p \<and> k mod n = j}
       else {k. m < k \<and> k \<le> m + p \<and> k mod n = j})"
    by (auto simp: le_Suc_eq)
  then show ?thesis by (simp add: hits_def)
qed

lemma hits_many:
  assumes "j < n" "q * n \<le> p"
  shows "q \<le> hits n j m p"
proof -
  define d where "d = (j + n - Suc m mod n) mod n"
  have d: "d < n" using assms(1) by (simp add: d_def)
  have "(Suc m + d) mod n = (Suc m mod n + (j + n - Suc m mod n)) mod n"
    unfolding d_def by (metis mod_add_left_eq mod_add_right_eq)
  also have "Suc m mod n + (j + n - Suc m mod n) = j + n"
    using assms(1) by (simp add: less_imp_le_nat trans_le_add2)
  finally have off: "(Suc m + d) mod n = j" using assms(1) by simp
  let ?f = "\<lambda>i. Suc m + d + i * n"
  have "?f ` {..<q} \<subseteq> {k. m < k \<and> k \<le> m + p \<and> k mod n = j}"
  proof safe
    fix i assume "i < q"
    then have "Suc i * n \<le> p" using assms(2) by (meson Suc_leI le_trans mult_le_mono1)
    then show "?f i \<le> m + p" using d unfolding mult_Suc by linarith
    show "?f i mod n = j" using off by (simp only: mod_mult_self1)
  qed simp
  then have "card (?f ` {..<q}) \<le> hits n j m p"
    unfolding hits_def by (intro card_mono finite_hits)
  moreover have "card (?f ` {..<q}) = card {..<q}"
    using assms(1) by (intro card_image inj_onI) simp
  ultimately have "card {..<q} \<le> hits n j m p" by simp
  then show ?thesis by simp
qed

section \<open>A connection that takes nothing\<close>

definition waiting :: "nat \<Rightarrow> nat \<Rightarrow> send_run \<Rightarrow> nat set" where
  "waiting T j r = {t. t < T \<and> (\<exists>data. sr_threads r t = Waits j data)}"

lemma finite_waiting [simp]: "finite (waiting T j r)"
  by (simp add: waiting_def)

lemma waiting_le: "card (waiting T j r) \<le> T"
  using card_mono [of "{..<T}" "waiting T j r"] by (auto simp: waiting_def)

lemma waiting_less:
  assumes "t < T" "sr_threads r t = Idle"
  shows "card (waiting T j r) < T"
proof -
  have "waiting T j r \<subseteq> {..<T} - {t}" using assms by (auto simp: waiting_def)
  then have "card (waiting T j r) \<le> card ({..<T} - {t})" by (intro card_mono) simp_all
  then show ?thesis using assms(1) by simp
qed

lemma waiting_pick:
  assumes "t < T" "sr_threads r t = Idle"
  shows "card (waiting T j (r\<lparr>sr_client := c, sr_threads := (sr_threads r)(t := Waits i data), sr_picks := p\<rparr>))
    = card (waiting T j r) + of_bool (i = j)"
proof -
  have "waiting T j (r\<lparr>sr_client := c, sr_threads := (sr_threads r)(t := Waits i data), sr_picks := p\<rparr>)
      = (if i = j then insert t (waiting T j r) else waiting T j r)" "t \<notin> waiting T j r"
    using assms by (auto simp: waiting_def)
  then show ?thesis by simp
qed

text \<open>What holds as long as connection \<open>j\<close> takes nothing: every number drawn that names it has
  left a sender waiting there.\<close>

definition stall_inv :: "nat \<Rightarrow> nat \<Rightarrow> nat \<Rightarrow> nat \<Rightarrow> nat \<Rightarrow> send_run \<Rightarrow> bool" where
  "stall_inv T n j m p0 r \<longleftrightarrow> (\<exists>p. sr_picks r = p0 + p \<and> picks_ok (sr_client r) n (m + p)
     \<and> hits n j m p \<le> card (waiting T j r)
     \<and> (\<exists>v. cl_conns (sr_client r) ! j = Some v \<and> cc_chanWrite v = Some (make_chan 0)))"

lemma stall_inv_bound:
  assumes "stall_inv T n j m p0 r" "j < n" "t < T" "sr_threads r t = Idle"
  shows "\<exists>p. sr_picks r = p0 + p \<and> p < T * n"
proof -
  obtain p where p: "sr_picks r = p0 + p" "hits n j m p \<le> card (waiting T j r)"
    using assms(1) by (auto simp: stall_inv_def)
  have "p div n \<le> hits n j m p" by (rule hits_many [OF assms(2)]) simp
  also have "\<dots> < T" using p(2) waiting_less [OF assms(3,4), of j] by simp
  finally have "p < T * n" using assms(2) by (simp add: div_less_iff_less_mult)
  then show ?thesis using p(1) by blast
qed

lemma stall_inv_step:
  assumes inv: "stall_inv T n j m p0 r" and j: "j < n" and m: "m + T * n < 2 ^ 63"
    and step: "send_step T l r r'" "l \<noteq> Some j"
  shows "stall_inv T n j m p0 r'"
proof -
  obtain p v where p: "sr_picks r = p0 + p" "picks_ok (sr_client r) n (m + p)"
    "hits n j m p \<le> card (waiting T j r)" "cl_conns (sr_client r) ! j = Some v" "cc_chanWrite v = Some (make_chan 0)"
    using inv by (auto simp: stall_inv_def)
  have next_pick: "i = (m + Suc p) mod n \<and> c = (sr_client r)\<lparr>cl_serial := of_nat (m + Suc p)\<rparr>"
    if "t < T" "sr_threads r t = Idle" "client_pick (sr_client r) = (Ok i, c)" for t i c
  proof -
    have "p < T * n" using stall_inv_bound [OF inv j that(1,2)] p(1) by auto
    then have "client_pick (sr_client r) = (Ok (Suc (m + p) mod n), (sr_client r)\<lparr>cl_serial := of_nat (Suc (m + p))\<rparr>)"
      using m by (intro client_pick_next [OF p(2)]) simp
    then show ?thesis using that(3) by simp
  qed
  have ok: "picks_ok ((sr_client r)\<lparr>cl_serial := of_nat (m + Suc p)\<rparr>) n (m + Suc p)"
    using p(2) by (simp add: picks_ok_def)
  from step(1) show ?thesis
  proof (cases rule: send_step.cases)
    case (pick t i c data x)
    note np = next_pick [OF pick(3,4,5)]
    have "hits n j m (Suc p) \<le> card (waiting T j r')"
      using p(3) np waiting_pick [OF pick(3,4), where j = j and c = c and i = i and data = data]
      by (auto simp: hits_Suc pick(2))
    then show ?thesis
      unfolding stall_inv_def using p np ok by (intro exI [of _ "Suc p"]) (simp add: pick(2))
  next
    case (skip_nil t i c data u x)
    note np = next_pick [OF skip_nil(3,4,5)]
    have "i \<noteq> j"
    proof
      assume "i = j"
      then have "cc_Write data (cl_conns c ! i) = (Block, Some v)"
        using np p(4,5) by (simp add: cc_Write_def chan_send_def make_chan_def)
      with skip_nil(6) show False by simp
    qed
    then have "hits n j m (Suc p) \<le> card (waiting T j r')"
      using p(3) np by (simp add: hits_Suc skip_nil(2) waiting_def)
    then show ?thesis
      unfolding stall_inv_def using p np ok by (intro exI [of _ "Suc p"]) (simp add: skip_nil(2))
  next
    case (take_msg t i data)
    then have "waiting T j r' = waiting T j r" using step(2) by (auto simp: waiting_def)
    then show ?thesis
      unfolding stall_inv_def using p by (intro exI [of _ p]) (simp add: take_msg(2) picks_ok_def)
  qed
qed

lemma runs_without_inv:
  "runs_without T j r0 r \<Longrightarrow> stall_inv T n j m p0 r0 \<Longrightarrow> j < n \<Longrightarrow> m + T * n < 2 ^ 63 \<Longrightarrow> stall_inv T n j m p0 r"
  by (induction rule: runs_without.induct) (auto intro: stall_inv_step)

lemma runs_without_picks:
  "runs_without T j r0 r \<Longrightarrow> stall_inv T n j m (sr_picks r0) r0 \<Longrightarrow> j < n \<Longrightarrow> m + T * n < 2 ^ 63
    \<Longrightarrow> sr_picks r \<le> sr_picks r0 + T * n"
proof (induction rule: runs_without.induct)
  case (step r r1 l r2)
  have inv: "stall_inv T n j m (sr_picks r) r1"
    using runs_without_inv step by blast
  from step(2) show ?case
  proof (cases rule: send_step.cases)
    case (pick t i c data x)
    then show ?thesis using stall_inv_bound [OF inv \<open>j < n\<close>, of t] by auto
  next
    case (skip_nil t i c data u x)
    then show ?thesis using stall_inv_bound [OF inv \<open>j < n\<close>, of t] by auto
  next
    case (take_msg t i data)
    then show ?thesis using step by auto
  qed
qed simp

text \<open>C29. One connection that takes nothing stops the whole client. Of the senders of a client, the
  workers and the goroutine of the pings, each that draws the number of such a connection waits
  there. So once connection \<open>j\<close> takes nothing any more, because it is being dialled again, because
  its \<open>run\<close> has left its loop, or because its stream does not accept data, the senders together draw at
  most \<open>T * n\<close> further numbers, where \<open>T\<close> is how many they are and \<open>n\<close> the number of connections,
  however many of the other connections work: the client then sends no packet and no ping.\<close>

theorem one_connection_stops_all:
  assumes "runs_without T j r0 r" and "j < n" "picks_ok (sr_client r0) n m" "m + T * n < 2 ^ 63"
    and "cl_conns (sr_client r0) ! j = Some v" "cc_chanWrite v = Some (make_chan 0)"
  shows "sr_picks r \<le> sr_picks r0 + T * n"
proof -
  have start: "stall_inv T n j m (sr_picks r0) r0"
    unfolding stall_inv_def using assms(3,5,6) by (intro exI [of _ 0]) simp
  show ?thesis by (rule runs_without_picks [OF assms(1) start assms(2,4)])
qed

text \<open>Two connections and one sender: the first number names connection 1, which takes nothing.\<close>

theorem one_connection_stops_all_witness:
  "\<exists>r. runs_without 1 1 \<lparr>sr_client = demo_threads 2, sr_threads = (\<lambda>_. Idle), sr_picks = 0\<rparr> r
    \<and> sr_picks r = 1 \<and> sr_threads r 0 = Waits 1 [7] \<and> sr_picks r \<le> 0 + 1 * 2"
proof -
  let ?r0 = "\<lparr>sr_client = demo_threads 2, sr_threads = (\<lambda>_. Idle), sr_picks = 0\<rparr>"
  let ?c = "(demo_threads 2)\<lparr>cl_serial := of_nat (Suc 0)\<rparr>"
  let ?r1 = "?r0\<lparr>sr_client := ?c, sr_threads := (sr_threads ?r0)(0 := Waits 1 [7]), sr_picks := Suc (sr_picks ?r0)\<rparr>"
  obtain v where v: "cl_conns (demo_threads 2) ! 1 = Some v" "cc_chanWrite v = Some (make_chan 0)"
    by (simp add: demo_threads_def NewClientConn_def)
  have pick: "client_pick (demo_threads 2) = (Ok 1, ?c)"
    using client_pick_next [of "demo_threads 2" 2 0] by simp
  have "cl_conns ?c ! 1 = Some v" using v by simp
  then have "cc_Write [7] (cl_conns ?c ! 1) = (Block, Some v)"
    using v(2) by (simp only: cc_Write_def) (simp add: chan_send_def make_chan_def)
  then have "send_step 1 None ?r0 ?r1"
    using pick by (intro send_step.pick) simp_all
  then have run: "runs_without 1 1 ?r0 ?r1" by (rule step [OF start]) simp
  have "sr_picks ?r1 \<le> sr_picks ?r0 + 1 * 2"
    by (rule one_connection_stops_all [OF run, where m = 0 and v = v]) (use v in simp_all)
  with run show ?thesis by (intro exI [of _ ?r1]) simp
qed

end
