(* ===== verification/SocksAddr.thy ===== *)
theory SocksAddr
  imports GoIO GoNet
begin

text \<open>
  Addresses of the SOCKS5 proxy, from \<open>socks5/request.go\<close>: their text, their parser
  \<open>readAddrSpec\<close> and the reply \<open>sendReply\<close> that carries one; and a connection as the proxy sees
  it: the client's stream in both directions and what the proxy did on its behalf.
\<close>

section \<open>Addresses\<close>

record addr_spec =
  FQDN :: string
  ad_IP :: bytes
  ad_Port :: int

definition AddrSpec_String :: "addr_spec \<Rightarrow> string" where
  "AddrSpec_String a =
     (if FQDN a \<noteq> [] then FQDN a @ '' ('' @ ip_string (ad_IP a) @ ''):'' @ itoa (ad_Port a)
      else ip_string (ad_IP a) @ '':'' @ itoa (ad_Port a))"

definition AddrSpec_Address :: "addr_spec \<Rightarrow> string" where
  "AddrSpec_Address a =
     (if 0 \<noteq> length (ad_IP a) then join_host_port (ip_string (ad_IP a)) (itoa (ad_Port a))
      else join_host_port (FQDN a) (itoa (ad_Port a)))"

definition ipv4Address :: u8 where "ipv4Address = 1"
definition fqdnAddress :: u8 where "fqdnAddress = 3"
definition ipv6Address :: u8 where "ipv6Address = 4"

lemmas address_types = ipv4Address_def fqdnAddress_def ipv6Address_def

text \<open>The two port bytes, big-endian.\<close>

definition of_be16 :: "bytes \<Rightarrow> int" where
  "of_be16 port = (push_bit 8 (uint (port ! 0))) OR uint (port ! 1)"

definition be16 :: "u16 \<Rightarrow> bytes" where
  "be16 p = [ucast (drop_bit 8 p), ucast (p AND 0xff)]"

lemma be16_alt: "be16 p = [ucast (drop_bit 8 p), ucast p]"
proof -
  have ff: "(0xff :: u16) = mask 8" by (simp add: mask_eq_exp_minus_1)
  have "(ucast (p AND 0xff) :: u8) = ucast p"
    unfolding ff by (rule bit_word_eqI) (auto simp: bit_simps)
  then show ?thesis by (simp add: be16_def)
qed

text \<open>The port bytes read back as the port's low 16 bits.\<close>

lemma of_be16_be16: "of_be16 (be16 p) = uint p"
proof -
  have "push_bit 8 (uint (ucast (drop_bit 8 p) :: u8)) OR uint (ucast p :: u8) = uint p"
  proof (rule bit_eqI)
    fix n
    show "bit (push_bit 8 (uint (ucast (drop_bit 8 p) :: u8)) OR uint (ucast p :: u8)) n = bit (uint p) n"
    proof (cases "n < 8")
      case True
      then show ?thesis by (simp add: bit_simps)
    next
      case False
      then show ?thesis
        by (cases "n < 16") (auto simp: bit_simps dest: bit_imp_le_length)
    qed
  qed
  then show ?thesis by (simp add: of_be16_def be16_alt)
qed

definition readAddrSpec :: "(reader, addr_spec) go" where
  "readAddrSpec =
     go_bind read_one (\<lambda>addrType.
     go_bind
       (if addrType = ipv4Address
        then go_bind (read_full 4) (\<lambda>addr. go_return \<lparr>FQDN = [], ad_IP = addr, ad_Port = 0\<rparr>)
        else if addrType = ipv6Address
        then go_bind (read_full 16) (\<lambda>addr. go_return \<lparr>FQDN = [], ad_IP = addr, ad_Port = 0\<rparr>)
        else if addrType = fqdnAddress
        then go_bind read_one (\<lambda>addrLen.
             go_bind (read_full (unat addrLen)) (\<lambda>fqdn.
             go_return \<lparr>FQDN = string_of_bytes fqdn, ad_IP = [], ad_Port = 0\<rparr>))
        else go_fail UnrecognizedAddrType) (\<lambda>d.
     go_bind (read_full 2) (\<lambda>port.
     go_return (d\<lparr>ad_Port := of_be16 port\<rparr>))))"

lemma readAddrSpec_parser: "stream_reader readAddrSpec"
  unfolding readAddrSpec_def
  by (intro stream_reader_intros) (auto intro!: stream_reader_intros)

interpretation addr_reader: stream_reader readAddrSpec
  by (rule readAddrSpec_parser)

section \<open>The proxied connection\<close>

text \<open>
  What dialling yields: the target's local address, when it is a TCP one, and its stream in both
  directions. The state of a connection is the client's stream and the record of the addresses
  dialled, with the targets as they were left, and of the names resolved.
\<close>

record dialled =
  tg_local :: "(bytes \<times> int) option"
  tg_in :: reader
  tg_out :: writer
  tg_shut :: bool
  tg_closed :: bool

record socks_io =
  sk_in :: reader
  sk_out :: writer
  sk_resolved :: "string list"
  sk_dials :: "string list"
  sk_targets :: "dialled list"
  sk_shut :: bool
  sk_closed :: bool

definition new_socks_io :: "reader \<Rightarrow> writer \<Rightarrow> socks_io" where
  "new_socks_io inp out = \<lparr>sk_in = inp, sk_out = out, sk_resolved = [], sk_dials = [],
     sk_targets = [], sk_shut = False, sk_closed = False\<rparr>"

text \<open>Reading from and writing to the client.\<close>

definition from_client :: "(reader, 'a) go \<Rightarrow> (socks_io, 'a) go" where
  "from_client m s = (case m (sk_in s) of (res, r') \<Rightarrow> (res, s\<lparr>sk_in := r'\<rparr>))"

definition to_client :: "bytes \<Rightarrow> (socks_io, unit) go" where
  "to_client bs s = (case wr_write bs (sk_out s) of (res, w') \<Rightarrow> (res, s\<lparr>sk_out := w'\<rparr>))"

lemma from_client_fields:
  assumes "from_client m s = (res, s')"
  shows "sk_out s' = sk_out s" "sk_dials s' = sk_dials s" "sk_targets s' = sk_targets s"
    "sk_resolved s' = sk_resolved s" "sk_closed s' = sk_closed s"
  using assms by (auto simp: from_client_def split: prod.splits)

lemma to_client_fields:
  assumes "to_client bs s = (res, s')"
  shows "sk_in s' = sk_in s" "sk_dials s' = sk_dials s" "sk_targets s' = sk_targets s"
    "sk_resolved s' = sk_resolved s" "sk_closed s' = sk_closed s" "\<exists>k. wr_out (sk_out s') = wr_out (sk_out s) @ take k bs"
    "wr_fail (sk_out s') = wr_fail (sk_out s)"
  using assms wr_write_appends [of bs "sk_out s"]
  by (auto simp: to_client_def split: prod.splits)

lemma to_client_cases:
  "to_client bs s = (res, s') \<Longrightarrow> res = Ok () \<and> wr_out (sk_out s') = wr_out (sk_out s) @ bs \<or> (\<exists>e. res = Err e)"
  by (auto simp: to_client_def wr_write_def split: prod.splits option.splits if_splits)

lemma to_client_reliable [go_simps]:
  "reliable (sk_out s) \<Longrightarrow> to_client bs s
     = (Ok (), s\<lparr>sk_out := (sk_out s)\<lparr>wr_out := wr_out (sk_out s) @ bs, wr_cnt := Suc (wr_cnt (sk_out s))\<rparr>\<rparr>)"
  by (simp add: to_client_def wr_write_reliable)

section \<open>Replies\<close>

definition socks5Version :: u8 where "socks5Version = 5"

definition reply_msg :: "u8 \<Rightarrow> u8 \<Rightarrow> bytes \<Rightarrow> u16 \<Rightarrow> bytes" where
  "reply_msg resp addrType addrBody addrPort = [socks5Version, resp, 0, addrType] @ addrBody @ be16 addrPort"

text \<open>The message \<open>sendReply\<close> formats; \<open>None\<close> is the error case.\<close>

definition format_reply :: "u8 \<Rightarrow> addr_spec option \<Rightarrow> bytes option" where
  "format_reply resp addr = (case addr of
     None \<Rightarrow> Some (reply_msg resp ipv4Address [0, 0, 0, 0] 0)
   | Some a \<Rightarrow>
       if FQDN a \<noteq> []
       then Some (reply_msg resp fqdnAddress
              (of_nat (length (FQDN a)) # bytes_of_string (FQDN a)) (of_int (ad_Port a)))
       else case ip_to4 (ad_IP a) of
         Some ip4 \<Rightarrow> Some (reply_msg resp ipv4Address ip4 (of_int (ad_Port a)))
       | None \<Rightarrow> (case ip_to16 (ad_IP a) of
           Some ip6 \<Rightarrow> Some (reply_msg resp ipv6Address ip6 (of_int (ad_Port a)))
         | None \<Rightarrow> None))"

definition sendReply :: "u8 \<Rightarrow> addr_spec option \<Rightarrow> (socks_io, unit) go" where
  "sendReply resp addr s = (case format_reply resp addr of
     Some msg \<Rightarrow> to_client msg s
   | None \<Rightarrow> (Err (Errorf (''Failed to format address: ''
                  @ (case addr of Some a \<Rightarrow> AddrSpec_String a | None \<Rightarrow> []))), s))"

lemma sendReply_fields:
  assumes "sendReply resp addr s = (res, s')"
  shows "sk_in s' = sk_in s" "sk_dials s' = sk_dials s" "sk_targets s' = sk_targets s"
    "sk_resolved s' = sk_resolved s" "sk_closed s' = sk_closed s"
  using assms by (auto simp: sendReply_def to_client_fields split: option.splits)

lemma sendReply_None:
  "sendReply resp None = to_client [socks5Version, resp, 0, ipv4Address, 0, 0, 0, 0, 0, 0]"
  by (rule ext) (simp add: sendReply_def format_reply_def reply_msg_def be16_def)

end
