(* ===== verification/SocksAuth.thy ===== *)
theory SocksAuth
  imports SocksAddr
begin

text \<open>
  \<open>socks5/auth.go\<close> and \<open>socks5/credentials.go\<close>: method negotiation and the two authenticators.
  What the negotiation relies on from an authenticator is the locale \<open>socks_authenticator\<close>.
\<close>

section \<open>Authenticators\<close>

definition NoAuth :: u8 where "NoAuth = 0"
definition noAcceptable :: u8 where "noAcceptable = 255"
definition UserPassAuth :: u8 where "UserPassAuth = 2"
definition userAuthVersion :: u8 where "userAuthVersion = 1"
definition authSuccess :: u8 where "authSuccess = 0"
definition authFailure :: u8 where "authFailure = 1"

lemmas auth_constants = NoAuth_def noAcceptable_def UserPassAuth_def userAuthVersion_def
  authSuccess_def authFailure_def

record auth_context =
  au_Method :: u8
  au_Payload :: "(string \<times> string) list"

type_synonym credential_store = "string \<Rightarrow> string \<Rightarrow> bool"

definition StaticCredentials_Valid :: "(string \<times> string) list \<Rightarrow> credential_store" where
  "StaticCredentials_Valid s user password = (case map_of s user of
     None \<Rightarrow> False
   | Some pass \<Rightarrow> password = pass)"

datatype authenticator =
    NoAuthAuthenticator
  | UserPassAuthenticator credential_store
  | CustomAuthenticator u8 "(socks_io, auth_context) go"

fun GetCode :: "authenticator \<Rightarrow> u8" where
  "GetCode NoAuthAuthenticator = NoAuth"
| "GetCode (UserPassAuthenticator creds) = UserPassAuth"
| "GetCode (CustomAuthenticator code auth) = code"

definition NoAuth_Authenticate :: "(socks_io, auth_context) go" where
  "NoAuth_Authenticate =
     go_bind (to_client [socks5Version, NoAuth]) (\<lambda>_.
     go_return \<lparr>au_Method = NoAuth, au_Payload = []\<rparr>)"

definition UserPass_Authenticate :: "credential_store \<Rightarrow> (socks_io, auth_context) go" where
  "UserPass_Authenticate Valid =
     go_bind (to_client [socks5Version, UserPassAuth]) (\<lambda>_.
     go_bind (from_client (read_full 2)) (\<lambda>header.
     if header ! 0 \<noteq> userAuthVersion
     then go_fail (Errorf (''Unsupported auth version: '' @ nat_text (unat (header ! 0))))
     else
     go_bind (from_client (read_full (unat (header ! 1)))) (\<lambda>user.
     go_bind (from_client read_one) (\<lambda>passLen.
     go_bind (from_client (read_full (unat passLen))) (\<lambda>pass.
     if Valid (string_of_bytes user) (string_of_bytes pass)
     then go_bind (to_client [userAuthVersion, authSuccess]) (\<lambda>_.
       go_return \<lparr>au_Method = UserPassAuth, au_Payload = [(''Username'', string_of_bytes user)]\<rparr>)
     else go_bind (to_client [userAuthVersion, authFailure]) (\<lambda>_.
       go_fail UserAuthFailed))))))"

fun Authenticate :: "authenticator \<Rightarrow> (socks_io, auth_context) go" where
  "Authenticate NoAuthAuthenticator = NoAuth_Authenticate"
| "Authenticate (UserPassAuthenticator creds) = UserPass_Authenticate creds"
| "Authenticate (CustomAuthenticator code auth) = auth"

section \<open>Negotiation\<close>

text \<open>\<open>readMethods\<close> returns the methods together with the error of reading them; its callers look at
  the methods only without one.\<close>

definition readMethods :: "(reader, bytes) go" where
  "readMethods = go_bind read_one (\<lambda>header. read_full (unat header))"

definition noAcceptableAuth :: "(socks_io, auth_context) go" where
  "noAcceptableAuth s = (case to_client [socks5Version, noAcceptable] s of (_, s') \<Rightarrow> (Err NoSupportedAuth, s'))"

fun select_method :: "(u8 \<times> authenticator) list \<Rightarrow> bytes \<Rightarrow> authenticator option" where
  "select_method authMethods [] = None"
| "select_method authMethods (m # ms) = (case map_of authMethods m of
     Some cator \<Rightarrow> Some cator
   | None \<Rightarrow> select_method authMethods ms)"

definition authenticate :: "(u8 \<times> authenticator) list \<Rightarrow> (socks_io, auth_context) go" where
  "authenticate authMethods =
     go_bind (go_wrap (\<lambda>err. Errorf (''Failed to get auth methods: '' @ error_string err))
       (from_client readMethods)) (\<lambda>methods.
     case select_method authMethods methods of
       Some cator \<Rightarrow> Authenticate cator
     | None \<Rightarrow> noAcceptableAuth)"

lemma readMethods_parser: "stream_reader readMethods"
  unfolding readMethods_def by (intro stream_reader_intros)

interpretation methods_reader: stream_reader readMethods
  by (rule readMethods_parser)

section \<open>The contract of an authenticator\<close>

text \<open>
  An authenticator announces its method first, names it in the context it returns, only takes
  bytes off the client's stream, and does nothing on the client's behalf.
\<close>

definition acts_for_nobody :: "socks_io \<Rightarrow> socks_io \<Rightarrow> bool" where
  "acts_for_nobody s s' \<longleftrightarrow> sk_dials s' = sk_dials s \<and> sk_targets s' = sk_targets s
     \<and> sk_resolved s' = sk_resolved s \<and> sk_closed s' = sk_closed s
     \<and> wr_fail (sk_out s') = wr_fail (sk_out s)
     \<and> (\<exists>used. rd_data (sk_in s) = used @ rd_data (sk_in s')) \<and> rd_end (sk_in s') = rd_end (sk_in s)
     \<and> (\<exists>more. wr_out (sk_out s') = wr_out (sk_out s) @ more)"

lemma acts_refl [simp]: "acts_for_nobody s s"
  by (simp add: acts_for_nobody_def)

lemma acts_trans: "acts_for_nobody s s1 \<Longrightarrow> acts_for_nobody s1 s2 \<Longrightarrow> acts_for_nobody s s2"
  unfolding acts_for_nobody_def by (metis append_assoc)

lemma acts_to_client: "to_client bs s = (res, s') \<Longrightarrow> acts_for_nobody s s'"
  by (auto simp: acts_for_nobody_def to_client_fields) (meson to_client_fields(6))

lemma acts_from_client:
  assumes "stream_reader m" and "from_client m s = (res, s')"
  shows "acts_for_nobody s s'"
proof -
  obtain r' where r': "m (sk_in s) = (res, r')" "s' = s\<lparr>sk_in := r'\<rparr>"
    using assms(2) by (auto simp: from_client_def split: prod.splits)
  from stream_reader.consumes [OF assms(1) r'(1)] r'(2) show ?thesis
    by (auto simp: acts_for_nobody_def)
qed

text \<open>Programs that only act through these two.\<close>

definition quiet :: "(socks_io, 'a) go \<Rightarrow> bool" where
  "quiet m \<longleftrightarrow> (\<forall>s res s'. m s = (res, s') \<longrightarrow> acts_for_nobody s s')"

lemma quietD: "quiet m \<Longrightarrow> m s = (res, s') \<Longrightarrow> acts_for_nobody s s'"
  unfolding quiet_def by blast

lemma quiet_return [simp]: "quiet (go_return x)" "quiet (go_fail e)" "quiet (go_panic p)"
  by (simp_all add: quiet_def go_basic_defs)

lemma quiet_to_client [simp]: "quiet (to_client bs)"
  unfolding quiet_def using acts_to_client by blast

lemma quiet_from_client: "stream_reader m \<Longrightarrow> quiet (from_client m)"
  unfolding quiet_def using acts_from_client by blast

lemma quiet_bind:
  assumes "quiet m" and "\<And>x. quiet (k x)"
  shows "quiet (go_bind m k)"
  unfolding quiet_def
proof (intro allI impI)
  fix s res s'
  assume run: "go_bind m k s = (res, s')"
  obtain o1 s1 where m: "m s = (o1, s1)" by fastforce
  have 1: "acts_for_nobody s s1" by (rule quietD [OF assms(1) m])
  show "acts_for_nobody s s'"
  proof (cases o1)
    case (Ok x)
    with run m have "k x s1 = (res, s')" by (simp add: go_bind_def)
    then have "acts_for_nobody s1 s'" by (rule quietD [OF assms(2)])
    with 1 show ?thesis by (rule acts_trans)
  qed (use run m 1 in \<open>auto simp: go_bind_def\<close>)
qed

lemma quiet_wrap: "quiet m \<Longrightarrow> quiet (go_wrap f m)"
  by (fastforce simp: quiet_def go_wrap_def split: prod.splits outcome.splits)

lemmas quiet_intros = quiet_return quiet_to_client quiet_bind quiet_wrap
  quiet_from_client full_read.stream_reader_axioms one_read.stream_reader_axioms
  methods_reader.stream_reader_axioms addr_reader.stream_reader_axioms

locale socks_authenticator =
  fixes auth :: "(socks_io, auth_context) go" and code :: u8
  assumes auth_quiet: "quiet auth"
    and announces: "auth s = (res, s') \<Longrightarrow> reliable (sk_out s) \<Longrightarrow>
      \<exists>more. wr_out (sk_out s') = wr_out (sk_out s) @ [socks5Version, code] @ more"
    and names: "auth s = (Ok ctx, s') \<Longrightarrow> au_Method ctx = code"
begin

text \<open>Behind the negotiation: the client reads the method chosen, and the context returned names it.\<close>

lemma negotiated:
  assumes sel: "select_method authMethods methods = Some cator" and a: "Authenticate cator = auth"
    and rd: "readMethods (sk_in s) = (Ok methods, r')"
    and run: "authenticate authMethods s = (res, s')" and rel: "reliable (sk_out s)"
  shows "acts_for_nobody s s'"
    and "\<exists>more. wr_out (sk_out s') = wr_out (sk_out s) @ [socks5Version, code] @ more"
    and "res = Ok ctx \<Longrightarrow> au_Method ctx = code"
proof -
  let ?s1 = "s\<lparr>sk_in := r'\<rparr>"
  have read: "from_client readMethods s = (Ok methods, ?s1)" using rd by (simp add: from_client_def)
  then have 1: "auth ?s1 = (res, s')"
    using run sel a by (simp add: authenticate_def go_bind_def go_wrap_def)
  show "acts_for_nobody s s'"
    using acts_from_client [OF readMethods_parser read] quietD [OF auth_quiet 1] by (rule acts_trans)
  show "\<exists>more. wr_out (sk_out s') = wr_out (sk_out s) @ [socks5Version, code] @ more"
    using announces [OF 1] rel by simp
  show "res = Ok ctx \<Longrightarrow> au_Method ctx = code" using names 1 by blast
qed

end

lemma NoAuth_quiet: "quiet NoAuth_Authenticate"
  unfolding NoAuth_Authenticate_def by (intro quiet_intros)

lemma UserPass_quiet: "quiet (UserPass_Authenticate Valid)"
  unfolding UserPass_Authenticate_def
  by (intro quiet_intros) (auto intro!: quiet_intros)

text \<open>A program whose first act is a write announces what it writes.\<close>

lemma announces_first:
  assumes run: "go_bind (to_client bs) k s = (res, s')" and rel: "reliable (sk_out s)"
    and k: "\<And>x. quiet (k x)"
  shows "\<exists>more. wr_out (sk_out s') = wr_out (sk_out s) @ bs @ more"
proof -
  obtain s1 where s1: "to_client bs s = (Ok (), s1)" "wr_out (sk_out s1) = wr_out (sk_out s) @ bs"
    using rel by (simp add: to_client_reliable)
  with run have "k () s1 = (res, s')" by (simp add: go_bind_def)
  from quietD [OF k this] s1(2) show ?thesis unfolding acts_for_nobody_def by auto
qed

interpretation no_auth: socks_authenticator NoAuth_Authenticate NoAuth
proof
  show "quiet NoAuth_Authenticate" by (rule NoAuth_quiet)
  show "\<exists>more. wr_out (sk_out s') = wr_out (sk_out s) @ [socks5Version, NoAuth] @ more"
    if "NoAuth_Authenticate s = (res, s')" "reliable (sk_out s)" for s res s'
    using that unfolding NoAuth_Authenticate_def by (rule announces_first) simp
  show "au_Method ctx = NoAuth" if "NoAuth_Authenticate s = (Ok ctx, s')" for s ctx s'
    using that by (auto simp: NoAuth_Authenticate_def go_return_def elim!: go_bind_OkE)
qed

interpretation user_pass: socks_authenticator "UserPass_Authenticate Valid" UserPassAuth for Valid
proof
  show "quiet (UserPass_Authenticate Valid)" by (rule UserPass_quiet)
  show "\<exists>more. wr_out (sk_out s') = wr_out (sk_out s) @ [socks5Version, UserPassAuth] @ more"
    if "UserPass_Authenticate Valid s = (res, s')" "reliable (sk_out s)" for s res s'
    using that unfolding UserPass_Authenticate_def
    by (rule announces_first) (intro quiet_intros, auto intro!: quiet_intros)
  show "au_Method ctx = UserPassAuth" if "UserPass_Authenticate Valid s = (Ok ctx, s')" for s ctx s'
    using that by (auto simp: UserPass_Authenticate_def go_basic_defs split: if_splits elim!: go_bind_OkE)
qed

end
