(* ===== verification/SocksRequest.thy ===== *)
theory SocksRequest
  imports SocksAuth
begin

text \<open>
  \<open>socks5/request.go\<close>, \<open>socks5/ruleset.go\<close> and \<open>socks5/resolver.go\<close>: the request, the rules, and
  its handling up to the relaying of both streams. Contexts are only passed on by this code and
  are left out. A resolver, a rewriter and a dialler are functions of the server's configuration;
  the system's resolver and dialler are in the record \<open>net_env\<close>, with the sizes of the
  chunks in which \<open>io.Copy\<close> finds a stream, which of the two copies ends first, and how far the
  other one has come by then.
\<close>

definition ConnectCommand :: u8 where "ConnectCommand = 1"
definition BindCommand :: u8 where "BindCommand = 2"
definition AssociateCommand :: u8 where "AssociateCommand = 3"

lemmas commands = ConnectCommand_def BindCommand_def AssociateCommand_def

definition successReply :: u8 where "successReply = 0"
definition serverFailure :: u8 where "serverFailure = 1"
definition ruleFailure :: u8 where "ruleFailure = 2"
definition networkUnreachable :: u8 where "networkUnreachable = 3"
definition hostUnreachable :: u8 where "hostUnreachable = 4"
definition connectionRefused :: u8 where "connectionRefused = 5"
definition ttlExpired :: u8 where "ttlExpired = 6"
definition commandNotSupported :: u8 where "commandNotSupported = 7"
definition addrTypeNotSupported :: u8 where "addrTypeNotSupported = 8"

lemmas reply_codes = successReply_def serverFailure_def ruleFailure_def networkUnreachable_def
  hostUnreachable_def connectionRefused_def ttlExpired_def commandNotSupported_def
  addrTypeNotSupported_def

section \<open>Requests\<close>

record request =
  rq_Version :: u8
  rq_Command :: u8
  rq_AuthContext :: "auth_context option"
  rq_RemoteAddr :: "addr_spec option"
  rq_DestAddr :: addr_spec
  rq_realDestAddr :: "addr_spec option"

definition NewRequest :: "(reader, request) go" where
  "NewRequest =
     go_bind (go_wrap (\<lambda>err. Errorf (''Failed to get command version: '' @ error_string err)) (read_full 3)) (\<lambda>header.
     if header ! 0 \<noteq> socks5Version
     then go_fail (Errorf (''Unsupported command version: '' @ nat_text (unat (header ! 0))))
     else go_bind readAddrSpec (\<lambda>dest.
       go_return \<lparr>rq_Version = socks5Version, rq_Command = header ! 1, rq_AuthContext = None,
         rq_RemoteAddr = None, rq_DestAddr = dest, rq_realDestAddr = None\<rparr>))"

lemma NewRequest_parser: "stream_reader NewRequest"
  unfolding NewRequest_def
  by (intro stream_reader_intros)
    (auto intro!: stream_reader_intros addr_reader.stream_reader_axioms)

interpretation request_reader: stream_reader NewRequest
  by (rule NewRequest_parser)

section \<open>Rules\<close>

type_synonym rule_set = "request \<Rightarrow> bool"

record permit_command =
  EnableConnect :: bool
  EnableBind :: bool
  EnableAssociate :: bool

definition PermitCommand_Allow :: "permit_command \<Rightarrow> rule_set" where
  "PermitCommand_Allow p req =
     (if rq_Command req = ConnectCommand then EnableConnect p
      else if rq_Command req = BindCommand then EnableBind p
      else if rq_Command req = AssociateCommand then EnableAssociate p
      else False)"

definition PermitAll :: rule_set where
  "PermitAll = PermitCommand_Allow \<lparr>EnableConnect = True, EnableBind = True, EnableAssociate = True\<rparr>"

definition PermitNone :: rule_set where
  "PermitNone = PermitCommand_Allow \<lparr>EnableConnect = False, EnableBind = False, EnableAssociate = False\<rparr>"

section \<open>The environment and the configuration\<close>

type_synonym resolver = "string \<Rightarrow> go_error + bytes"
type_synonym dialler = "string \<Rightarrow> go_error + dialled"

record net_env =
  net_ResolveIPAddr :: resolver
  net_Dial :: dialler
  net_chunks :: "bytes \<Rightarrow> bytes list"
  net_up_first :: bool
  net_cut :: nat
  net_late :: bool

definition DNSResolver_Resolve :: "net_env \<Rightarrow> resolver" where
  "DNSResolver_Resolve env name = (case net_ResolveIPAddr env name of
     Inl err \<Rightarrow> Inl err
   | Inr ip \<Rightarrow> Inr ip)"

record socks_config =
  sf_AuthMethods :: "authenticator list"
  sf_Credentials :: "credential_store option"
  sf_Resolver :: "resolver option"
  sf_Rules :: "rule_set option"
  sf_Rewriter :: "(request \<Rightarrow> addr_spec option) option"
  sf_BindIP :: bytes
  sf_Dial :: "dialler option"

record socks_server =
  sv_config :: socks_config
  sv_authMethods :: "(u8 \<times> authenticator) list"

section \<open>Relaying\<close>

text \<open>\<open>io.Copy\<close>: the source's chunks are written one by one, until a write fails or the source ends;
  an end of stream is no error.\<close>

fun io_Copy :: "bytes list \<Rightarrow> go_error \<Rightarrow> writer \<Rightarrow> go_error option \<times> writer" where
  "io_Copy [] e w = (if e = EOF then None else Some e, w)"
| "io_Copy (c # cs) e w = (case wr_write c w of
     (Err err, w') \<Rightarrow> (Some err, w')
   | (_, w') \<Rightarrow> io_Copy cs e w')"

text \<open>
  The two goroutines \<open>proxy(target, req.bufConn)\<close> and \<open>proxy(conn, target)\<close>. Each shuts its
  destination's writing half when its copy has ended and reports the result; the first error to
  arrive is returned, and the target is then closed: the other copy has only moved
  \<open>net_cut\<close> of its chunks by then, or has ended and shut its destination as well
  (\<open>net_late\<close>). Nothing reads the two streams afterwards: the bytes taken off them are not
  recorded. RelayRun has the goroutines step by step, and shows these to be all the outcomes.
\<close>

definition relay :: "net_env \<Rightarrow> dialled \<Rightarrow> socks_io \<Rightarrow> unit outcome \<times> dialled \<times> socks_io" where
  "relay env target s =
     (let up = net_chunks env (rd_data (sk_in s));
          down = net_chunks env (rd_data (tg_in target));
          (e1, w1) = io_Copy up (rd_end (sk_in s)) (tg_out target);
          (e2, w2) = io_Copy down (rd_end (tg_in target)) (sk_out s);
          (_, w1') = io_Copy (take (net_cut env) up) EOF (tg_out target);
          (_, w2') = io_Copy (take (net_cut env) down) EOF (sk_out s);
          (first, second) = (if net_up_first env then (e1, e2) else (e2, e1)) in
      case first of
        Some e \<Rightarrow>
          if net_up_first env
          then (Err e, target\<lparr>tg_out := w1, tg_shut := True\<rparr>,
            if net_late env then s\<lparr>sk_out := w2, sk_shut := True\<rparr> else s\<lparr>sk_out := w2'\<rparr>)
          else (Err e, if net_late env then target\<lparr>tg_out := w1, tg_shut := True\<rparr> else target\<lparr>tg_out := w1'\<rparr>,
            s\<lparr>sk_out := w2, sk_shut := True\<rparr>)
      | None \<Rightarrow>
          (case second of Some e \<Rightarrow> Err e | None \<Rightarrow> Ok (),
           target\<lparr>tg_out := w1, tg_shut := True\<rparr>, s\<lparr>sk_out := w2, sk_shut := True\<rparr>))"

section \<open>Handling\<close>

text \<open>\<open>if err := sendReply(...); err != nil { return fmt.Errorf("Failed to send reply: ...") }\<close>\<close>

definition reply_or_fail :: "u8 \<Rightarrow> addr_spec option \<Rightarrow> (socks_io, unit) go" where
  "reply_or_fail resp addr =
     go_wrap (\<lambda>err. Errorf (''Failed to send reply: '' @ error_string err)) (sendReply resp addr)"

definition allowed :: "socks_server \<Rightarrow> rule_set" where
  "allowed sv req = (case sf_Rules (sv_config sv) of Some rules \<Rightarrow> rules req | None \<Rightarrow> False)"

text \<open>The reply for a failed dial, chosen by the error's text.\<close>

definition dial_reply :: "go_error \<Rightarrow> u8" where
  "dial_reply err =
     (if str_contains ''refused'' (error_string err) then connectionRefused
      else if str_contains ''network is unreachable'' (error_string err) then networkUnreachable
      else hostUnreachable)"

definition dial_with :: "net_env \<Rightarrow> socks_server \<Rightarrow> dialler" where
  "dial_with env sv = (case sf_Dial (sv_config sv) of Some dial \<Rightarrow> dial | None \<Rightarrow> net_Dial env)"

text \<open>After a successful dial: the target is closed whatever happens next.\<close>

definition serve_target :: "net_env \<Rightarrow> dialled \<Rightarrow> (socks_io, unit) go" where
  "serve_target env target s = (case tg_local target of
     None \<Rightarrow> (Panic ''interface conversion'', s\<lparr>sk_targets := sk_targets s @ [target\<lparr>tg_closed := True\<rparr>]\<rparr>)
   | Some (ip, port) \<Rightarrow>
       (case reply_or_fail successReply (Some \<lparr>FQDN = [], ad_IP = ip, ad_Port = port\<rparr>) s of
          (Ok _, s1) \<Rightarrow>
            (case relay env target s1 of (res, target', s2) \<Rightarrow>
               (res, s2\<lparr>sk_targets := sk_targets s2 @ [target'\<lparr>tg_closed := True\<rparr>]\<rparr>))
        | (Err e, s1) \<Rightarrow> (Err e, s1\<lparr>sk_targets := sk_targets s1 @ [target\<lparr>tg_closed := True\<rparr>]\<rparr>)
        | (Panic p, s1) \<Rightarrow> (Panic p, s1)
        | (Block, s1) \<Rightarrow> (Block, s1)))"

definition handleConnect :: "net_env \<Rightarrow> socks_server \<Rightarrow> request \<Rightarrow> (socks_io, unit) go" where
  "handleConnect env sv req s =
     (if \<not> allowed sv req
      then go_bind (reply_or_fail ruleFailure None) (\<lambda>_.
        go_fail (Errorf (''Connect to '' @ AddrSpec_String (rq_DestAddr req) @ '' blocked by rules''))) s
      else case rq_realDestAddr req of
        None \<Rightarrow> (Panic ''invalid memory address or nil pointer dereference'', s)
      | Some dst \<Rightarrow>
        (let addr = AddrSpec_Address dst;
             s = s\<lparr>sk_dials := sk_dials s @ [addr]\<rparr> in
         case dial_with env sv addr of
           Inl err \<Rightarrow> go_bind (reply_or_fail (dial_reply err) None) (\<lambda>_.
             go_fail (Errorf (''Connect to '' @ AddrSpec_String (rq_DestAddr req) @ '' failed: '' @ error_string err))) s
         | Inr target \<Rightarrow> serve_target env target s))"

definition handleBind :: "socks_server \<Rightarrow> request \<Rightarrow> (socks_io, unit) go" where
  "handleBind sv req =
     (if \<not> allowed sv req
      then go_bind (reply_or_fail ruleFailure None) (\<lambda>_.
        go_fail (Errorf (''Bind to '' @ AddrSpec_String (rq_DestAddr req) @ '' blocked by rules'')))
      else reply_or_fail commandNotSupported None)"

definition handleAssociate :: "socks_server \<Rightarrow> request \<Rightarrow> (socks_io, unit) go" where
  "handleAssociate sv req =
     (if \<not> allowed sv req
      then go_bind (reply_or_fail ruleFailure None) (\<lambda>_.
        go_fail (Errorf (''Associate to '' @ AddrSpec_String (rq_DestAddr req) @ '' blocked by rules'')))
      else reply_or_fail commandNotSupported None)"

text \<open>Resolving the destination: only a non-empty name is looked up, and its address is filled in.\<close>

definition resolve_dest :: "socks_server \<Rightarrow> request \<Rightarrow> (socks_io, request) go" where
  "resolve_dest sv req s =
     (let dest = rq_DestAddr req in
      if FQDN dest = [] then (Ok req, s)
      else case sf_Resolver (sv_config sv) of
        None \<Rightarrow> (Panic ''invalid memory address or nil pointer dereference'', s)
      | Some resolve \<Rightarrow>
        (let s = s\<lparr>sk_resolved := sk_resolved s @ [FQDN dest]\<rparr> in
         case resolve (FQDN dest) of
           Inl err \<Rightarrow> go_bind (reply_or_fail hostUnreachable None) (\<lambda>_.
             go_fail (Errorf (''Failed to resolve destination '' @ [CHR 0x27] @ FQDN dest @ [CHR 0x27]
               @ '': '' @ error_string err))) s
         | Inr addr \<Rightarrow> (Ok (req\<lparr>rq_DestAddr := dest\<lparr>ad_IP := addr\<rparr>\<rparr>), s)))"

definition rewrite_dest :: "socks_server \<Rightarrow> request \<Rightarrow> request" where
  "rewrite_dest sv req =
     (let req = req\<lparr>rq_realDestAddr := Some (rq_DestAddr req)\<rparr> in
      case sf_Rewriter (sv_config sv) of
        None \<Rightarrow> req
      | Some rw \<Rightarrow> req\<lparr>rq_realDestAddr := rw req\<rparr>)"

definition handleRequest :: "net_env \<Rightarrow> socks_server \<Rightarrow> request \<Rightarrow> (socks_io, unit) go" where
  "handleRequest env sv req =
     go_bind (resolve_dest sv req) (\<lambda>req.
     let req = rewrite_dest sv req in
     if rq_Command req = ConnectCommand then handleConnect env sv req
     else if rq_Command req = BindCommand then handleBind sv req
     else if rq_Command req = AssociateCommand then handleAssociate sv req
     else go_bind (reply_or_fail commandNotSupported None) (\<lambda>_.
       go_fail (Errorf (''Unsupported command: '' @ nat_text (unat (rq_Command req))))))"

end
