(* ===== verification/SocksServer.thy ===== *)
theory SocksServer
  imports SocksRequest
begin

text \<open>
  \<open>socks5/socks5.go\<close> and \<open>socks5/init.go\<close>: building a server from a configuration, serving one
  connection, and the accept loop. Connections are served independently of each other, each by
  its own goroutine; log lines are left out.
\<close>

section \<open>Building a server\<close>

definition default_config :: "net_env \<Rightarrow> socks_config \<Rightarrow> socks_config" where
  "default_config env conf =
     (let conf = (if sf_AuthMethods conf = []
                  then (case sf_Credentials conf of
                     Some creds \<Rightarrow> conf\<lparr>sf_AuthMethods := [UserPassAuthenticator creds]\<rparr>
                   | None \<Rightarrow> conf\<lparr>sf_AuthMethods := [NoAuthAuthenticator]\<rparr>)
                  else conf);
          conf = (if sf_Resolver conf = None
                  then conf\<lparr>sf_Resolver := Some (DNSResolver_Resolve env)\<rparr> else conf) in
      if sf_Rules conf = None then conf\<lparr>sf_Rules := Some PermitAll\<rparr> else conf)"

definition auth_table :: "authenticator list \<Rightarrow> (u8 \<times> authenticator) list" where
  "auth_table as = foldl (\<lambda>m a. AList.update (GetCode a) a m) [] as"

definition socks_New :: "net_env \<Rightarrow> socks_config \<Rightarrow> socks_server" where
  "socks_New env conf =
     (let conf = default_config env conf in
      \<lparr>sv_config = conf, sv_authMethods = auth_table (sf_AuthMethods conf)\<rparr>)"

definition empty_config :: socks_config where
  "empty_config = \<lparr>sf_AuthMethods = [], sf_Credentials = None, sf_Resolver = None, sf_Rules = None,
     sf_Rewriter = None, sf_BindIP = [], sf_Dial = None\<rparr>"

section \<open>Serving a connection\<close>

text \<open>The request read behind the authentication, with the reply to an unknown address type.\<close>

definition read_request :: "(socks_io, request) go" where
  "read_request s = (case from_client NewRequest s of
     (Err err, s1) \<Rightarrow>
       (if err = UnrecognizedAddrType
        then go_bind (reply_or_fail addrTypeNotSupported None) (\<lambda>_.
          go_fail (Errorf (''Failed to read destination address: '' @ error_string err))) s1
        else (Err (Errorf (''Failed to read destination address: '' @ error_string err)), s1))
   | (res, s1) \<Rightarrow> (res, s1))"

text \<open>The body behind the authentication, and the whole body.\<close>

definition serve_request ::
    "net_env \<Rightarrow> socks_server \<Rightarrow> (bytes \<times> int) option \<Rightarrow> auth_context \<Rightarrow> (socks_io, unit) go" where
  "serve_request env sv remote authContext =
     go_bind read_request (\<lambda>request.
     let request = request\<lparr>rq_AuthContext := Some authContext\<rparr>;
         request = (case remote of
            Some (ip, port) \<Rightarrow> request\<lparr>rq_RemoteAddr := Some \<lparr>FQDN = [], ad_IP = ip, ad_Port = port\<rparr>\<rparr>
          | None \<Rightarrow> request) in
     go_wrap (\<lambda>err. Errorf (''Failed to handle request: '' @ error_string err))
       (handleRequest env sv request))"

definition serve_conn_body ::
    "net_env \<Rightarrow> socks_server \<Rightarrow> (bytes \<times> int) option \<Rightarrow> (socks_io, unit) go" where
  "serve_conn_body env sv remote =
     go_bind (from_client read_one) (\<lambda>version.
     if version \<noteq> socks5Version
     then go_fail (Errorf (''Unsupported SOCKS version: ['' @ nat_text (unat version) @ '']''))
     else
     go_bind (go_wrap (\<lambda>err. Errorf (''Failed to authenticate: '' @ error_string err))
       (authenticate (sv_authMethods sv)))
     (serve_request env sv remote))"

text \<open>The deferred \<open>conn.Close()\<close> runs on every way out.\<close>

definition ServeConn ::
    "net_env \<Rightarrow> socks_server \<Rightarrow> (bytes \<times> int) option \<Rightarrow> (socks_io, unit) go" where
  "ServeConn env sv remote s = (case serve_conn_body env sv remote s of
     (res, s') \<Rightarrow> (res, s'\<lparr>sk_closed := True\<rparr>))"

section \<open>Accepting\<close>

text \<open>A listener delivers connections until an error; each is served by a goroutine of its own.\<close>

datatype socks_accept = SocksAccept socks_io "(bytes \<times> int) option" | SocksAcceptError go_error

fun socks_Serve :: "net_env \<Rightarrow> socks_server \<Rightarrow> socks_accept list
      \<Rightarrow> go_error option \<times> (unit outcome \<times> socks_io) list" where
  "socks_Serve env sv [] = (None, [])"
| "socks_Serve env sv (SocksAcceptError e # evs) = (Some e, [])"
| "socks_Serve env sv (SocksAccept c remote # evs) =
     (case socks_Serve env sv evs of (res, served) \<Rightarrow> (res, ServeConn env sv remote c # served))"

definition ListenAndServe :: "net_env \<Rightarrow> socks_server \<Rightarrow> go_error + socks_accept list
      \<Rightarrow> go_error option \<times> (unit outcome \<times> socks_io) list" where
  "ListenAndServe env sv listener = (case listener of
     Inl err \<Rightarrow> (Some err, [])
   | Inr evs \<Rightarrow> socks_Serve env sv evs)"

definition socks5_addr :: "string \<Rightarrow> string" where
  "socks5_addr port = ''0.0.0.0:'' @ port"

text \<open>\<open>StartSocks5\<close> listens again whenever serving ends. \<open>listen\<close> gives the lives of the listeners
  on an address.\<close>

definition StartSocks5 :: "net_env \<Rightarrow> (string \<Rightarrow> (go_error + socks_accept list) list) \<Rightarrow> string
      \<Rightarrow> (unit outcome \<times> socks_io) list" where
  "StartSocks5 env listen port =
     (let server = socks_New env empty_config; addr = socks5_addr port in
      concat (map (\<lambda>l. snd (ListenAndServe env server l)) (listen addr)))"

end
