(* ===== verification/SocksProps.thy ===== *)
theory SocksProps
  imports SocksServer
begin

text \<open>
  What the SOCKS5 proxy guarantees: its parser reads what a client encodes and its replies read
  back; it acts for a client only after the negotiation, the authentication and the rules; every
  failure has its reply; and after a successful dial both streams are relayed whole.
\<close>

section \<open>The address format\<close>

definition encode_addr :: "addr_spec \<Rightarrow> bytes" where
  "encode_addr a =
     (if FQDN a \<noteq> [] then [3, of_nat (length (FQDN a))] @ bytes_of_string (FQDN a)
      else if length (ad_IP a) = 4 then [1] @ ad_IP a else [4] @ ad_IP a)
     @ be16 (of_int (ad_Port a))"

definition wire_addr :: "addr_spec \<Rightarrow> bool" where
  "wire_addr a \<longleftrightarrow> (if FQDN a \<noteq> [] then length (FQDN a) < 256 \<and> ad_IP a = []
      else length (ad_IP a) = 4 \<or> length (ad_IP a) = 16)
     \<and> 0 \<le> ad_Port a \<and> ad_Port a < 65536"

lemma port_roundtrip: "0 \<le> p \<Longrightarrow> p < 65536 \<Longrightarrow> of_be16 (be16 (of_int p)) = p"
  by (simp add: of_be16_be16 unsigned_of_int take_bit_int_eq_self)

lemma length_be16 [simp]: "length (be16 p) = 2"
  by (simp add: be16_def)

lemma readAddrSpec_encode:
  assumes wf: "wire_addr a"
  shows "readAddrSpec \<lparr>rd_data = encode_addr a @ rest, rd_end = e\<rparr> = (Ok a, \<lparr>rd_data = rest, rd_end = e\<rparr>)"
proof -
  have port: "of_be16 (be16 (of_int (ad_Port a))) = ad_Port a"
    using wf by (intro port_roundtrip) (simp_all add: wire_addr_def)
  show ?thesis
  proof (cases "FQDN a = []")
    case False
    with wf port show ?thesis
      by (cases a) (simp add: readAddrSpec_def encode_addr_def wire_addr_def address_types go_simps)
  next
    case True
    with wf port show ?thesis
      by (cases a) (auto simp: readAddrSpec_def encode_addr_def wire_addr_def address_types go_simps)
  qed
qed

lemma NewRequest_encode:
  assumes "wire_addr a"
  shows "NewRequest \<lparr>rd_data = [5, cmd, rsv] @ encode_addr a @ ahead, rd_end = e\<rparr> =
    (Ok \<lparr>rq_Version = 5, rq_Command = cmd, rq_AuthContext = None, rq_RemoteAddr = None,
       rq_DestAddr = a, rq_realDestAddr = None\<rparr>, \<lparr>rd_data = ahead, rd_end = e\<rparr>)"
proof -
  have "read_full 3 \<lparr>rd_data = 5 # cmd # rsv # encode_addr a @ ahead, rd_end = e\<rparr>
      = (Ok [5, cmd, rsv], \<lparr>rd_data = encode_addr a @ ahead, rd_end = e\<rparr>)"
    using read_full_append [of "[5, cmd, rsv]" 3] by simp
  then show ?thesis
    using readAddrSpec_encode [OF assms, of ahead e]
    by (simp add: NewRequest_def go_bind_def go_wrap_def go_return_def socks5Version_def)
qed

text \<open>A well-formed request is read as the client meant it, whatever the reserved byte holds,
  and the bytes behind it, which the client may have sent ahead for the target, stay in the
  stream for the relay.\<close>

theorem request_roundtrip:
  assumes "wire_addr a"
  shows "NewRequest \<lparr>rd_data = [5, cmd, rsv] @ encode_addr a @ ahead, rd_end = e\<rparr> =
    (Ok \<lparr>rq_Version = 5, rq_Command = cmd, rq_AuthContext = None, rq_RemoteAddr = None,
       rq_DestAddr = a, rq_realDestAddr = None\<rparr>, \<lparr>rd_data = ahead, rd_end = e\<rparr>)"
  by (rule NewRequest_encode [OF assms])

definition demo_name :: addr_spec where
  "demo_name = \<lparr>FQDN = ''example.org'', ad_IP = [], ad_Port = 443\<rparr>"

lemma demo_name_wire [simp]: "wire_addr demo_name"
  by (simp add: wire_addr_def demo_name_def)

theorem request_roundtrip_witness:
  "NewRequest \<lparr>rd_data = [5, 1, 0] @ encode_addr demo_name @ [22, 3], rd_end = EOF\<rparr> =
    (Ok \<lparr>rq_Version = 5, rq_Command = 1, rq_AuthContext = None, rq_RemoteAddr = None,
       rq_DestAddr = demo_name, rq_realDestAddr = None\<rparr>, \<lparr>rd_data = [22, 3], rd_end = EOF\<rparr>)"
  by (rule request_roundtrip) simp

text \<open>The address a reply carries: an IPv4 address in its four-byte form.\<close>

definition reply_addr :: "addr_spec \<Rightarrow> addr_spec" where
  "reply_addr a = (case ip_to4 (ad_IP a) of
     Some ip4 \<Rightarrow> if FQDN a = [] then a\<lparr>ad_IP := ip4\<rparr> else a
   | None \<Rightarrow> a)"

lemma ip_to4_length: "ip_to4 ip = Some ip4 \<Longrightarrow> length ip4 = 4"
  by (auto simp: ip_to4_def split: if_splits)

lemma format_reply_encode:
  assumes "wire_addr a"
  shows "format_reply resp (Some a) = Some ([5, resp, 0] @ encode_addr (reply_addr a)) \<and> wire_addr (reply_addr a)"
proof (cases "FQDN a = []")
  case False
  with assms show ?thesis
    by (auto simp: format_reply_def reply_msg_def encode_addr_def reply_addr_def socks5Version_def
        address_types split: option.splits)
next
  case True
  then have len: "length (ad_IP a) = 4 \<or> length (ad_IP a) = 16" using assms by (simp add: wire_addr_def)
  show ?thesis
  proof (cases "ip_to4 (ad_IP a)")
    case None
    with len have "ip_to16 (ad_IP a) = Some (ad_IP a)" "length (ad_IP a) = 16"
      by (auto simp: ip_to16_def ip_to4_def split: if_splits)
    with None True assms show ?thesis
      by (simp add: format_reply_def reply_msg_def encode_addr_def reply_addr_def socks5Version_def address_types)
  next
    case (Some ip4)
    with ip_to4_length [OF Some] True assms show ?thesis
      by (simp add: format_reply_def reply_msg_def encode_addr_def reply_addr_def socks5Version_def
          address_types wire_addr_def)
  qed
qed

text \<open>C22. A reply with an address reads back: over a working stream \<open>sendReply\<close> writes version, code
  and reserved byte, and the address bytes that follow parse to that address and port, an IPv4
  address in four-byte form. Names of up to 255 bytes; the length byte of a longer one is cut.\<close>

theorem reply_roundtrip:
  assumes "wire_addr a" and rel: "reliable (sk_out s)"
  shows "\<exists>s' addr. sendReply resp (Some a) s = (Ok (), s')
    \<and> wr_out (sk_out s') = wr_out (sk_out s) @ [5, resp, 0] @ addr
    \<and> readAddrSpec \<lparr>rd_data = addr @ rest, rd_end = e\<rparr> = (Ok (reply_addr a), \<lparr>rd_data = rest, rd_end = e\<rparr>)"
  using format_reply_encode [OF assms(1), of resp] readAddrSpec_encode [of "reply_addr a" rest e] rel
  by (simp add: sendReply_def to_client_reliable)

theorem reply_roundtrip_witness:
  "\<exists>s' addr. sendReply 0 (Some \<lparr>FQDN = [], ad_IP = v4_in_v6 [127, 0, 0, 1], ad_Port = 1080\<rparr>)
       (new_socks_io \<lparr>rd_data = [], rd_end = EOF\<rparr> fresh_writer) = (Ok (), s')
    \<and> wr_out (sk_out s') = wr_out (sk_out (new_socks_io \<lparr>rd_data = [], rd_end = EOF\<rparr> fresh_writer)) @ [5, 0, 0] @ addr
    \<and> readAddrSpec \<lparr>rd_data = addr @ [9], rd_end = EOF\<rparr>
        = (Ok (reply_addr \<lparr>FQDN = [], ad_IP = v4_in_v6 [127, 0, 0, 1], ad_Port = 1080\<rparr>), \<lparr>rd_data = [9], rd_end = EOF\<rparr>)"
  by (rule reply_roundtrip) (simp_all add: wire_addr_def v4_in_v6_def new_socks_io_def)

section \<open>Acting for a client\<close>

text \<open>A step of a sequence that changes the dials is behind successful ones.\<close>

definition keeps_dials :: "(socks_io, 'a) go \<Rightarrow> bool" where
  "keeps_dials m \<longleftrightarrow> (\<forall>s res s'. m s = (res, s') \<longrightarrow> sk_dials s' = sk_dials s)"

lemma keeps_dialsD: "keeps_dials m \<Longrightarrow> m s = (res, s') \<Longrightarrow> sk_dials s' = sk_dials s"
  unfolding keeps_dials_def by blast

lemma quiet_keeps: "quiet m \<Longrightarrow> keeps_dials m"
  unfolding keeps_dials_def using quietD acts_for_nobody_def by blast

lemma keeps_wrap: "keeps_dials m \<Longrightarrow> keeps_dials (go_wrap f m)"
  by (fastforce simp: keeps_dials_def go_wrap_def split: prod.splits outcome.splits)

lemma keeps_bind:
  assumes "keeps_dials m" and "\<And>x. keeps_dials (k x)"
  shows "keeps_dials (go_bind m k)"
  unfolding keeps_dials_def
proof (intro allI impI)
  fix s res s'
  assume "go_bind m k s = (res, s')"
  moreover obtain o1 s1 where m: "m s = (o1, s1)" by fastforce
  ultimately show "sk_dials s' = sk_dials s"
    using keeps_dialsD [OF assms(1) m] keeps_dialsD [OF assms(2)]
    by (cases o1) (auto simp: go_bind_def)
qed

lemma bind_dials:
  assumes run: "go_bind m k s = (res, s')" and changed: "sk_dials s' \<noteq> sk_dials s" and m: "keeps_dials m"
  obtains x s1 where "m s = (Ok x, s1)" "k x s1 = (res, s')" "sk_dials s1 = sk_dials s"
proof -
  obtain o1 s1 where m1: "m s = (o1, s1)" by fastforce
  from keeps_dialsD [OF m m1] have d: "sk_dials s1 = sk_dials s" .
  with run changed m1 obtain x where "o1 = Ok x" by (cases o1) (auto simp: go_bind_def)
  with run m1 d that show thesis by (simp add: go_bind_def)
qed

lemma wrap_run: "go_wrap f m s = (res, s') \<Longrightarrow> \<exists>res0. m s = (res0, s')"
  by (auto simp: go_wrap_def split: prod.splits outcome.splits)

lemma keeps_reply: "keeps_dials (reply_or_fail resp addr)"
  unfolding reply_or_fail_def
  by (rule keeps_wrap) (auto simp: keeps_dials_def dest: sendReply_fields)

lemma keeps_fail [simp]: "keeps_dials (go_fail e)"
  by (rule quiet_keeps) simp

lemma keeps_reply_fail: "keeps_dials (go_bind (reply_or_fail resp addr) (\<lambda>_. go_fail e))"
  by (intro keeps_bind keeps_reply) simp

lemma keeps_read_request: "keeps_dials read_request"
  using keeps_dialsD [OF keeps_reply_fail] from_client_fields(2)
  by (fastforce simp: keeps_dials_def read_request_def split: prod.splits outcome.splits if_splits)

lemma keeps_resolve: "keeps_dials (resolve_dest sv req)"
  unfolding keeps_dials_def
proof (intro allI impI)
  fix s res s'
  assume "resolve_dest sv req s = (res, s')"
  then show "sk_dials s' = sk_dials s"
    by (auto simp: resolve_dest_def Let_def dest!: keeps_dialsD [OF keeps_reply_fail]
        split: if_splits option.splits sum.splits)
qed

definition quiet_table :: "(u8 \<times> authenticator) list \<Rightarrow> bool" where
  "quiet_table tbl \<longleftrightarrow> (\<forall>cator \<in> ran (map_of tbl). quiet (Authenticate cator))"

lemma select_method_ran: "select_method tbl ms = Some cator \<Longrightarrow> cator \<in> ran (map_of tbl)"
  by (induction ms) (auto simp: ran_def split: option.splits)

lemma quiet_noAcceptable: "quiet noAcceptableAuth"
  by (auto simp: quiet_def noAcceptableAuth_def split: prod.splits dest: acts_to_client)

lemma quiet_authenticate: "quiet_table tbl \<Longrightarrow> quiet (authenticate tbl)"
  unfolding authenticate_def
  by (intro quiet_intros)
    (auto simp: quiet_table_def quiet_noAcceptable dest: select_method_ran split: option.splits)

lemma relay_fields: "relay env target s = (res, t', s') \<Longrightarrow> sk_dials s' = sk_dials s \<and> sk_targets s' = sk_targets s"
  by (auto simp: relay_def Let_def split: prod.splits option.splits if_splits)

lemma serve_target_dials: "keeps_dials (serve_target env target)"
  unfolding keeps_dials_def
proof (intro allI impI)
  fix s res s'
  assume "serve_target env target s = (res, s')"
  then show "sk_dials s' = sk_dials s"
    using keeps_dialsD [OF keeps_reply] relay_fields
    by (fastforce simp: serve_target_def split: option.splits prod.splits outcome.splits)
qed

lemma handleConnect_dials:
  assumes run: "handleConnect env sv req s = (res, s')" and changed: "sk_dials s' \<noteq> sk_dials s"
  shows "allowed sv req \<and> (\<exists>dst. rq_realDestAddr req = Some dst
     \<and> sk_dials s' = sk_dials s @ [AddrSpec_Address dst])"
proof -
  have al: "allowed sv req"
  proof (rule ccontr)
    assume "\<not> allowed sv req"
    with run have "go_bind (reply_or_fail ruleFailure None) (\<lambda>_. go_fail
        (Errorf (''Connect to '' @ AddrSpec_String (rq_DestAddr req) @ '' blocked by rules''))) s = (res, s')"
      by (simp add: handleConnect_def)
    from keeps_dialsD [OF keeps_reply_fail this] changed show False by simp
  qed
  with run changed obtain dst where dst: "rq_realDestAddr req = Some dst"
    by (auto simp: handleConnect_def split: option.splits)
  let ?s = "s\<lparr>sk_dials := sk_dials s @ [AddrSpec_Address dst]\<rparr>"
  have "sk_dials s' = sk_dials ?s"
  proof (cases "dial_with env sv (AddrSpec_Address dst)")
    case (Inl err)
    with run al dst have "go_bind (reply_or_fail (dial_reply err) None) (\<lambda>_. go_fail (Errorf
        (''Connect to '' @ AddrSpec_String (rq_DestAddr req) @ '' failed: '' @ error_string err))) ?s = (res, s')"
      by (simp add: handleConnect_def Let_def)
    from keeps_dialsD [OF keeps_reply_fail this] show ?thesis .
  next
    case (Inr target)
    with run al dst have "serve_target env target ?s = (res, s')"
      by (simp add: handleConnect_def Let_def)
    from keeps_dialsD [OF serve_target_dials this] show ?thesis .
  qed
  with al dst show ?thesis by simp
qed

lemma keeps_bind_associate: "keeps_dials (handleBind sv req)" "keeps_dials (handleAssociate sv req)"
  by (auto simp: handleBind_def handleAssociate_def keeps_reply keeps_reply_fail)

lemma handleRequest_dials:
  assumes run: "handleRequest env sv req s = (res, s')" and changed: "sk_dials s' \<noteq> sk_dials s"
  obtains req1 s1 dst where "resolve_dest sv req s = (Ok req1, s1)"
    "rq_Command (rewrite_dest sv req1) = ConnectCommand" "allowed sv (rewrite_dest sv req1)"
    "rq_realDestAddr (rewrite_dest sv req1) = Some dst" "sk_dials s' = sk_dials s @ [AddrSpec_Address dst]"
proof -
  from run changed keeps_resolve obtain req1 s1 where r: "resolve_dest sv req s = (Ok req1, s1)"
    and d: "sk_dials s1 = sk_dials s"
    and k: "(let req = rewrite_dest sv req1 in
      if rq_Command req = ConnectCommand then handleConnect env sv req
      else if rq_Command req = BindCommand then handleBind sv req
      else if rq_Command req = AssociateCommand then handleAssociate sv req
      else go_bind (reply_or_fail commandNotSupported None) (\<lambda>_.
       go_fail (Errorf (''Unsupported command: '' @ nat_text (unat (rq_Command req)))))) s1 = (res, s')"
    unfolding handleRequest_def by (rule bind_dials)
  let ?req = "rewrite_dest sv req1"
  have cmd: "rq_Command ?req = ConnectCommand"
    using k changed d keeps_dialsD [OF keeps_bind_associate(1)] keeps_dialsD [OF keeps_bind_associate(2)]
      keeps_dialsD [OF keeps_reply_fail]
    by (fastforce simp: Let_def split: if_splits)
  with k have "handleConnect env sv ?req s1 = (res, s')" by (simp add: Let_def)
  from handleConnect_dials [OF this] changed d r cmd that show thesis by auto
qed

text \<open>The request as \<open>handleRequest\<close> gets it.\<close>

definition with_context :: "auth_context \<Rightarrow> (bytes \<times> int) option \<Rightarrow> request \<Rightarrow> request" where
  "with_context ctx remote req =
     (case remote of
        Some (ip, port) \<Rightarrow> req\<lparr>rq_AuthContext := Some ctx,
          rq_RemoteAddr := Some \<lparr>FQDN = [], ad_IP = ip, ad_Port = port\<rparr>\<rparr>
      | None \<Rightarrow> req\<lparr>rq_AuthContext := Some ctx\<rparr>)"

lemma read_request_Ok: "read_request s = (Ok req, s') \<longleftrightarrow> from_client NewRequest s = (Ok req, s')"
proof -
  have "go_bind (reply_or_fail c a) (\<lambda>_. go_fail e) s1 \<noteq> (Ok (req :: request), s')" for c a e s1
    by (auto simp: go_fail_def elim!: go_bind_OkE)
  then show ?thesis by (auto simp: read_request_def split: prod.splits outcome.splits if_splits)
qed

lemma ServeConn_dials:
  assumes run: "ServeConn env sv remote s = (res, s')" and changed: "sk_dials s' \<noteq> sk_dials s"
    and tbl: "quiet_table (sv_authMethods sv)"
  obtains s1 ctx s2 req s3 req1 s4 dst where
    "from_client read_one s = (Ok 5, s1)" "authenticate (sv_authMethods sv) s1 = (Ok ctx, s2)"
    "from_client NewRequest s2 = (Ok req, s3)"
    "resolve_dest sv (with_context ctx remote req) s3 = (Ok req1, s4)"
    "rq_Command (rewrite_dest sv req1) = ConnectCommand" "allowed sv (rewrite_dest sv req1)"
    "rq_realDestAddr (rewrite_dest sv req1) = Some dst" "sk_dials s' = sk_dials s @ [AddrSpec_Address dst]"
proof -
  obtain res0 s0 where body: "serve_conn_body env sv remote s = (res0, s0)" and s': "s' = s0\<lparr>sk_closed := True\<rparr>"
    using run by (auto simp: ServeConn_def split: prod.splits)
  with changed have ch: "sk_dials s0 \<noteq> sk_dials s" by simp
  have "keeps_dials (from_client read_one)"
    by (intro quiet_keeps quiet_from_client one_read.stream_reader_axioms)
  from body [unfolded serve_conn_body_def] ch this obtain v s1 where
    v: "from_client read_one s = (Ok v, s1)" "sk_dials s1 = sk_dials s"
    and k1: "(if v \<noteq> socks5Version
     then go_fail (Errorf (''Unsupported SOCKS version: ['' @ nat_text (unat v) @ '']''))
     else go_bind (go_wrap (\<lambda>err. Errorf (''Failed to authenticate: '' @ error_string err))
       (authenticate (sv_authMethods sv))) (serve_request env sv remote)) s1 = (res0, s0)"
    by (rule bind_dials)
  have v5: "v = socks5Version"
    using k1 ch v(2) by (auto simp: go_fail_def split: if_splits)
  have k1': "go_bind (go_wrap (\<lambda>err. Errorf (''Failed to authenticate: '' @ error_string err))
       (authenticate (sv_authMethods sv))) (serve_request env sv remote) s1 = (res0, s0)"
    using k1 unfolding v5 by (simp only: simp_thms if_False)
  have ch1: "sk_dials s0 \<noteq> sk_dials s1" using ch v(2) by simp
  have "keeps_dials (go_wrap (\<lambda>err. Errorf (''Failed to authenticate: '' @ error_string err))
       (authenticate (sv_authMethods sv)))"
    by (intro keeps_wrap quiet_keeps quiet_authenticate tbl)
  from k1' ch1 this obtain ctx s2 where
    a: "go_wrap (\<lambda>err. Errorf (''Failed to authenticate: '' @ error_string err))
       (authenticate (sv_authMethods sv)) s1 = (Ok ctx, s2)" "sk_dials s2 = sk_dials s1"
    and k2: "serve_request env sv remote ctx s2 = (res0, s0)"
    by (rule bind_dials)
  have ch2: "sk_dials s0 \<noteq> sk_dials s2" using ch v(2) a(2) by simp
  from k2 [unfolded serve_request_def] ch2 keeps_read_request obtain req s3 where
    r: "read_request s2 = (Ok req, s3)" "sk_dials s3 = sk_dials s2"
    and k3: "(let request = req\<lparr>rq_AuthContext := Some ctx\<rparr>;
         request = (case remote of
            Some (ip, port) \<Rightarrow> request\<lparr>rq_RemoteAddr := Some \<lparr>FQDN = [], ad_IP = ip, ad_Port = port\<rparr>\<rparr>
          | None \<Rightarrow> request) in
     go_wrap (\<lambda>err. Errorf (''Failed to handle request: '' @ error_string err))
       (handleRequest env sv request)) s3 = (res0, s0)"
    by (rule bind_dials)
  have "go_wrap (\<lambda>err. Errorf (''Failed to handle request: '' @ error_string err))
       (handleRequest env sv (with_context ctx remote req)) s3 = (res0, s0)"
    using k3 by (cases remote) (simp_all add: with_context_def Let_def split: prod.splits)
  from wrap_run [OF this] obtain res1 where h: "handleRequest env sv (with_context ctx remote req) s3 = (res1, s0)"
    by (rule exE)
  have ch3: "sk_dials s0 \<noteq> sk_dials s3" using ch2 r(2) by simp
  from h ch3 obtain req1 s4 dst where hr: "resolve_dest sv (with_context ctx remote req) s3 = (Ok req1, s4)"
    "rq_Command (rewrite_dest sv req1) = ConnectCommand" "allowed sv (rewrite_dest sv req1)"
    "rq_realDestAddr (rewrite_dest sv req1) = Some dst" "sk_dials s0 = sk_dials s3 @ [AddrSpec_Address dst]"
    by (rule handleRequest_dials)
  show thesis
    by (rule that [OF _ go_wrap_OkE [OF a(1)] r(1) [unfolded read_request_Ok] hr(1-4)])
      (use v v5 a(2) r(2) hr(5) s' in \<open>simp_all add: socks5Version_def\<close>)
qed

text \<open>C13. Complete mediation: the proxy dials at most once per connection, and only after it has read
  the protocol version, completed an authentication of the server's table, read a whole request,
  and resolved its destination; the command is connect, and the configured rules allowed exactly
  this request, with the context of this authentication, whose (rewritten) destination is the
  address dialled.\<close>

theorem dial_is_mediated:
  assumes run: "ServeConn env sv remote s = (res, s')" and tbl: "quiet_table (sv_authMethods sv)"
    and dialled: "sk_dials s' \<noteq> sk_dials s"
  shows "\<exists>s1 ctx s2 req s3 req1 s4 dst. from_client read_one s = (Ok 5, s1)
    \<and> authenticate (sv_authMethods sv) s1 = (Ok ctx, s2)
    \<and> from_client NewRequest s2 = (Ok req, s3)
    \<and> resolve_dest sv (with_context ctx remote req) s3 = (Ok req1, s4)
    \<and> rq_Command (rewrite_dest sv req1) = ConnectCommand \<and> allowed sv (rewrite_dest sv req1)
    \<and> rq_realDestAddr (rewrite_dest sv req1) = Some dst
    \<and> sk_dials s' = sk_dials s @ [AddrSpec_Address dst]"
  by (rule ServeConn_dials [OF run dialled tbl]) blast

text \<open>A server with the default configuration, no resolver hits, every dial refused.\<close>

definition demo_net :: net_env where
  "demo_net = \<lparr>net_ResolveIPAddr = (\<lambda>_. Inl (Extern ''no such host'')),
     net_Dial = (\<lambda>_. Inl (Extern ''connect: connection refused'')), net_chunks = (\<lambda>bs. [bs]),
     net_up_first = True, net_cut = 0, net_late = False\<rparr>"

definition demo_server :: socks_server where
  "demo_server = socks_New demo_net empty_config"

lemma demo_server_simps:
  "sv_authMethods demo_server = [(0, NoAuthAuthenticator)]" "sf_Rules (sv_config demo_server) = Some PermitAll"
  "sf_Rewriter (sv_config demo_server) = None" "sf_Dial (sv_config demo_server) = None"
  "sf_Resolver (sv_config demo_server) = Some (DNSResolver_Resolve demo_net)"
  by (simp_all add: demo_server_def socks_New_def default_config_def empty_config_def auth_table_def NoAuth_def Let_def)

lemma quiet_NoAuth_table [simp]: "quiet_table [(c, NoAuthAuthenticator)]"
  by (auto simp: quiet_table_def ran_def NoAuth_quiet split: if_splits)

text \<open>Version 5 with the method "none", then a connect request to port 80 of 10.4.4.2.\<close>

definition demo_session :: socks_io where
  "demo_session = new_socks_io \<lparr>rd_data = [5, 1, 0, 5, 1, 0, 1, 10, 4, 4, 2, 0, 80], rd_end = EOF\<rparr> fresh_writer"

lemma fresh_fail [simp]: "wr_fail fresh_writer n = None" "\<not> wr_closed fresh_writer" "wr_out fresh_writer = []" "wr_cnt fresh_writer = 0"
  by (simp_all add: fresh_writer_def)

lemma session_steps:
  "from_client read_one (s\<lparr>sk_in := \<lparr>rd_data = b # bs, rd_end = e\<rparr>\<rparr>) = (Ok b, s\<lparr>sk_in := \<lparr>rd_data = bs, rd_end = e\<rparr>\<rparr>)"
  by (simp add: from_client_def read_one_def)

lemma NoAuth_negotiation:
  assumes "sk_in s = \<lparr>rd_data = 1 # 0 # rest, rd_end = e\<rparr>" and "reliable (sk_out s)"
  shows "authenticate [(0, NoAuthAuthenticator)] s = (Ok \<lparr>au_Method = 0, au_Payload = []\<rparr>,
    s\<lparr>sk_in := \<lparr>rd_data = rest, rd_end = e\<rparr>, sk_out := (sk_out s)\<lparr>wr_out := wr_out (sk_out s) @ [5, 0],
       wr_cnt := Suc (wr_cnt (sk_out s))\<rparr>\<rparr>)"
  using assms read_full_append [of "[0]" 1 rest e]
  by (simp add: authenticate_def readMethods_def NoAuth_Authenticate_def from_client_def go_bind_def
      go_wrap_def read_one_def to_client_reliable go_return_def socks5Version_def NoAuth_def)

lemma to_client_dials: "sk_dials (snd (to_client bs s)) = sk_dials s"
  by (simp add: to_client_def split: prod.splits)

lemma reply_dials: "sk_dials (snd (go_bind (reply_or_fail resp addr) (\<lambda>_. go_fail e) s)) = sk_dials s"
  by (rule keeps_dialsD [OF keeps_reply_fail surjective_pairing])

text \<open>What a connect request to an address given literally makes the proxy dial.\<close>

lemma authed_dials:
  assumes v: "from_client read_one s = (Ok 5, s1)" and au: "authenticate (sv_authMethods sv) s1 = (Ok ctx, s2)"
    and inp: "sk_in s2 = \<lparr>rd_data = [5, 1, 0] @ abytes @ rest, rd_end = e\<rparr>"
    and a: "readAddrSpec \<lparr>rd_data = abytes @ rest, rd_end = e\<rparr> = (Ok a, \<lparr>rd_data = rest, rd_end = e\<rparr>)" "FQDN a = []"
    and sv: "sf_Rules (sv_config sv) = Some PermitAll" "sf_Rewriter (sv_config sv) = None"
  shows "sk_dials (snd (ServeConn env sv None s)) = sk_dials s2 @ [AddrSpec_Address a]"
proof -
  let ?s3 = "s2\<lparr>sk_in := \<lparr>rd_data = rest, rd_end = e\<rparr>\<rparr>"
  let ?req = "\<lparr>rq_Version = 5, rq_Command = 1, rq_AuthContext = Some ctx,
     rq_RemoteAddr = None, rq_DestAddr = a, rq_realDestAddr = Some a\<rparr>"
  have "read_full 3 \<lparr>rd_data = 5 # 1 # 0 # abytes @ rest, rd_end = e\<rparr>
      = (Ok [5, 1, 0], \<lparr>rd_data = abytes @ rest, rd_end = e\<rparr>)"
    using read_full_append [of "[5, 1, 0]" 3] by simp
  then have 3: "read_request s2 = (Ok (?req\<lparr>rq_AuthContext := None, rq_realDestAddr := None\<rparr>), ?s3)"
    unfolding read_request_Ok using a inp
    by (simp add: from_client_def NewRequest_def go_bind_def go_wrap_def go_return_def socks5Version_def)
  have 4: "sk_dials (snd (handleRequest env sv (?req\<lparr>rq_realDestAddr := None\<rparr>) ?s3))
      = sk_dials s2 @ [AddrSpec_Address a]"
  proof (cases "dial_with env sv (AddrSpec_Address a)")
    case (Inl err)
    then show ?thesis
      using a(2) sv by (simp add: handleRequest_def resolve_dest_def rewrite_dest_def go_bind_def [of "resolve_dest sv req" for req]
        handleConnect_def allowed_def PermitAll_def PermitCommand_Allow_def commands Let_def reply_dials)
  next
    case (Inr target)
    have "sk_dials (snd (serve_target env target st)) = sk_dials st" for st
      using keeps_dialsD [OF serve_target_dials] by (cases "serve_target env target st") simp
    with Inr show ?thesis
      using a(2) sv by (simp add: handleRequest_def resolve_dest_def rewrite_dest_def go_bind_def [of "resolve_dest sv req" for req]
        handleConnect_def allowed_def PermitAll_def PermitCommand_Allow_def commands Let_def)
  qed
  have wrap: "snd (go_wrap f m st) = snd (m st)" for f and m :: "(socks_io, unit) go" and st
    by (simp add: go_wrap_def split: prod.splits outcome.splits)
  have "snd (serve_conn_body env sv None s) = snd (handleRequest env sv (?req\<lparr>rq_realDestAddr := None\<rparr>) ?s3)"
    unfolding serve_conn_body_def
    using v au 3 wrap by (simp add: go_bind_Ok go_wrap_Ok serve_request_def socks5Version_def Let_def)
  with 4 show ?thesis
    by (cases "serve_conn_body env sv None s") (simp add: ServeConn_def)
qed

lemma connect_dials:
  assumes s: "sk_in s = \<lparr>rd_data = [5, 1, 0] @ [5, 1, 0] @ abytes @ rest, rd_end = e\<rparr>" "reliable (sk_out s)"
    and a: "readAddrSpec \<lparr>rd_data = abytes @ rest, rd_end = e\<rparr> = (Ok a, \<lparr>rd_data = rest, rd_end = e\<rparr>)" "FQDN a = []"
    and sv: "sv_authMethods sv = [(0, NoAuthAuthenticator)]" "sf_Rules (sv_config sv) = Some PermitAll"
      "sf_Rewriter (sv_config sv) = None"
  shows "sk_dials (snd (ServeConn env sv None s)) = sk_dials s @ [AddrSpec_Address a]"
proof -
  let ?s1 = "s\<lparr>sk_in := \<lparr>rd_data = 1 # 0 # [5, 1, 0] @ abytes @ rest, rd_end = e\<rparr>\<rparr>"
  have v: "from_client read_one s = (Ok 5, ?s1)" using s by (simp add: from_client_def read_one_def)
  show ?thesis
    using authed_dials [OF v, of sv, unfolded sv(1),
      OF NoAuth_negotiation [of ?s1 "[5, 1, 0] @ abytes @ rest" e] _ a sv(2,3), of env] s(2) by simp
qed

abbreviation demo_dst :: addr_spec where
  "demo_dst \<equiv> \<lparr>FQDN = [], ad_IP = [10, 4, 4, 2], ad_Port = 80\<rparr>"

lemma demo_session_dials:
  "sk_dials (snd (ServeConn demo_net demo_server None demo_session)) = [AddrSpec_Address demo_dst]"
proof -
  have a: "readAddrSpec \<lparr>rd_data = [1, 10, 4, 4, 2, 0, 80] @ [], rd_end = EOF\<rparr> = (Ok demo_dst, \<lparr>rd_data = [], rd_end = EOF\<rparr>)"
    using readAddrSpec_encode [of demo_dst "[]" EOF]
    by (simp add: encode_addr_def wire_addr_def be16_alt)
  have "sk_dials (snd (ServeConn demo_net demo_server None demo_session)) = sk_dials demo_session @ [AddrSpec_Address demo_dst]"
    by (rule connect_dials [OF _ _ a]) (simp_all add: demo_server_simps demo_session_def new_socks_io_def)
  then show ?thesis by (simp add: demo_session_def new_socks_io_def)
qed

theorem dial_is_mediated_witness:
  "\<exists>res s'. ServeConn demo_net demo_server None demo_session = (res, s') \<and> sk_dials s' = [AddrSpec_Address demo_dst]
    \<and> (\<exists>s1 ctx s2 req s3 req1 s4 dst. from_client read_one demo_session = (Ok 5, s1)
    \<and> authenticate (sv_authMethods demo_server) s1 = (Ok ctx, s2)
    \<and> from_client NewRequest s2 = (Ok req, s3)
    \<and> resolve_dest demo_server (with_context ctx None req) s3 = (Ok req1, s4)
    \<and> rq_Command (rewrite_dest demo_server req1) = ConnectCommand \<and> allowed demo_server (rewrite_dest demo_server req1)
    \<and> rq_realDestAddr (rewrite_dest demo_server req1) = Some dst
    \<and> sk_dials s' = sk_dials demo_session @ [AddrSpec_Address dst])"
proof -
  obtain res s' where run: "ServeConn demo_net demo_server None demo_session = (res, s')" by fastforce
  have d: "sk_dials s' = [AddrSpec_Address demo_dst]" using demo_session_dials unfolding run by simp
  have "sk_dials s' \<noteq> sk_dials demo_session" using d by (simp add: demo_session_def new_socks_io_def)
  moreover have "quiet_table (sv_authMethods demo_server)" by (simp add: demo_server_simps)
  ultimately have m: "\<exists>s1 ctx s2 req s3 req1 s4 dst. from_client read_one demo_session = (Ok 5, s1)
    \<and> authenticate (sv_authMethods demo_server) s1 = (Ok ctx, s2)
    \<and> from_client NewRequest s2 = (Ok req, s3)
    \<and> resolve_dest demo_server (with_context ctx None req) s3 = (Ok req1, s4)
    \<and> rq_Command (rewrite_dest demo_server req1) = ConnectCommand \<and> allowed demo_server (rewrite_dest demo_server req1)
    \<and> rq_realDestAddr (rewrite_dest demo_server req1) = Some dst
    \<and> sk_dials s' = sk_dials demo_session @ [AddrSpec_Address dst]"
    by (intro dial_is_mediated [OF run])
  show ?thesis by (rule exI [of _ res], rule exI [of _ s'], intro conjI run d m)
qed

text \<open>A name of length zero passes the parser as no name at all: nothing is resolved, and the
  proxy with its default rules dials the bare port, which is the proxy's own host.\<close>

theorem empty_name_dials_self:
  assumes "sk_in s = \<lparr>rd_data = [5, 1, 0] @ [5, 1, 0] @ [3, 0, hi, lo] @ ahead, rd_end = e\<rparr>"
    and "reliable (sk_out s)" "sv = socks_New env empty_config"
  shows "sk_dials (snd (ServeConn env sv None s)) = sk_dials s @ ['':'' @ itoa (of_be16 [hi, lo])]"
proof -
  let ?a = "\<lparr>FQDN = [], ad_IP = [], ad_Port = of_be16 [hi, lo]\<rparr>"
  have "readAddrSpec \<lparr>rd_data = [3, 0, hi, lo] @ ahead, rd_end = e\<rparr> = (Ok ?a, \<lparr>rd_data = ahead, rd_end = e\<rparr>)"
    using read_full_append [of "[hi, lo]" 2 ahead e] read_full_append [of "[]" 0]
    by (simp add: readAddrSpec_def go_simps address_types go_bind_Ok)
  from connect_dials [OF assms(1,2) this] show ?thesis
    by (simp add: assms(3) socks_New_def default_config_def empty_config_def auth_table_def NoAuth_def Let_def
        AddrSpec_Address_def join_host_port_def)
qed

theorem empty_name_dials_self_witness:
  "sk_dials (snd (ServeConn demo_net demo_server None (new_socks_io
      \<lparr>rd_data = [5, 1, 0] @ [5, 1, 0] @ [3, 0, 0, 80] @ [], rd_end = EOF\<rparr> fresh_writer)))
     = sk_dials (new_socks_io \<lparr>rd_data = [5, 1, 0] @ [5, 1, 0] @ [3, 0, 0, 80] @ [], rd_end = EOF\<rparr> fresh_writer)
        @ ['':'' @ itoa (of_be16 [0, 80])]"
  by (rule empty_name_dials_self) (simp_all add: new_socks_io_def demo_server_def)

section \<open>Passwords\<close>

lemma from_client_Ok: "from_client m s = (Ok x, s') \<Longrightarrow> m (sk_in s) = (Ok x, sk_in s')"
  by (auto simp: from_client_def split: prod.splits)

lemma read_one_OkD: "read_one r = (Ok b, r') \<Longrightarrow> rd_data r = b # rd_data r'"
  by (auto simp: read_one_def split: list.splits)

lemma length2_nth: "length xs = 2 \<Longrightarrow> xs = [xs ! 0, xs ! 1]"
  by (auto simp: length_Suc_conv eval_nat_numeral)

lemma UserPass_OkD:
  assumes "UserPass_Authenticate Valid s = (Ok ctx, s')"
  shows "\<exists>user pass. length user < 256 \<and> length pass < 256
    \<and> rd_data (sk_in s) = [1, of_nat (length user)] @ user @ [of_nat (length pass)] @ pass @ rd_data (sk_in s')
    \<and> Valid (string_of_bytes user) (string_of_bytes pass)
    \<and> ctx = \<lparr>au_Method = UserPassAuth, au_Payload = [(''Username'', string_of_bytes user)]\<rparr>"
proof -
  from assms obtain u0 s1 header s2 where w1: "to_client [socks5Version, UserPassAuth] s = (Ok u0, s1)"
    and h: "from_client (read_full 2) s1 = (Ok header, s2)"
    and k1: "(if header ! 0 \<noteq> userAuthVersion
     then go_fail (Errorf (''Unsupported auth version: '' @ nat_text (unat (header ! 0))))
     else
     go_bind (from_client (read_full (unat (header ! 1)))) (\<lambda>user.
     go_bind (from_client read_one) (\<lambda>passLen.
     go_bind (from_client (read_full (unat passLen))) (\<lambda>pass.
     if Valid (string_of_bytes user) (string_of_bytes pass)
     then go_bind (to_client [userAuthVersion, authSuccess]) (\<lambda>_.
       go_return \<lparr>au_Method = UserPassAuth, au_Payload = [(''Username'', string_of_bytes user)]\<rparr>)
     else go_bind (to_client [userAuthVersion, authFailure]) (\<lambda>_.
       go_fail UserAuthFailed))))) s2 = (Ok ctx, s')"
    unfolding UserPass_Authenticate_def by (elim go_bind_OkE) (rule that; assumption)
  from k1 have v: "header ! 0 = 1" by (auto simp: go_fail_def userAuthVersion_def split: if_splits)
  with k1 have k2: "go_bind (from_client (read_full (unat (header ! 1)))) (\<lambda>user.
     go_bind (from_client read_one) (\<lambda>passLen.
     go_bind (from_client (read_full (unat passLen))) (\<lambda>pass.
     if Valid (string_of_bytes user) (string_of_bytes pass)
     then go_bind (to_client [userAuthVersion, authSuccess]) (\<lambda>_.
       go_return \<lparr>au_Method = UserPassAuth, au_Payload = [(''Username'', string_of_bytes user)]\<rparr>)
     else go_bind (to_client [userAuthVersion, authFailure]) (\<lambda>_.
       go_fail UserAuthFailed)))) s2 = (Ok ctx, s')"
    unfolding userAuthVersion_def by (simp only: simp_thms if_False)
  then obtain user s3 plen s4 pass s5 where u: "from_client (read_full (unat (header ! 1))) s2 = (Ok user, s3)"
    and p: "from_client read_one s3 = (Ok plen, s4)" "from_client (read_full (unat plen)) s4 = (Ok pass, s5)"
    and k3: "(if Valid (string_of_bytes user) (string_of_bytes pass)
     then go_bind (to_client [userAuthVersion, authSuccess]) (\<lambda>_.
       go_return \<lparr>au_Method = UserPassAuth, au_Payload = [(''Username'', string_of_bytes user)]\<rparr>)
     else go_bind (to_client [userAuthVersion, authFailure]) (\<lambda>_.
       go_fail UserAuthFailed)) s5 = (Ok ctx, s')"
    by (elim go_bind_OkE) (rule that; assumption)
  from k3 have valid: "Valid (string_of_bytes user) (string_of_bytes pass)"
    by (auto simp: go_fail_def split: if_splits elim!: go_bind_OkE)
  with k3 obtain s6 where w2: "to_client [userAuthVersion, authSuccess] s5 = (Ok (), s6)"
    and s': "s' = s6" "ctx = \<lparr>au_Method = UserPassAuth, au_Payload = [(''Username'', string_of_bytes user)]\<rparr>"
    by (auto simp: go_return_def elim!: go_bind_OkE)
  note D = read_full_OkD [OF from_client_Ok [OF h]] read_full_OkD [OF from_client_Ok [OF u]]
    read_one_OkD [OF from_client_Ok [OF p(1)]] read_full_OkD [OF from_client_Ok [OF p(2)]]
  have hd: "header = [1, header ! 1]" using length2_nth [OF D(3)] v by simp
  have "rd_data (sk_in s) = [1, header ! 1] @ user @ [plen] @ pass @ rd_data (sk_in s')"
    using D(1,4,7,8) to_client_fields(1) [OF w1] to_client_fields(1) [OF w2] s'(1)
    by (subst (asm) hd) simp
  moreover have "header ! 1 = of_nat (length user)" "plen = of_nat (length pass)" using D(6,10) by simp_all
  moreover have "length user < 256" "length pass < 256" using D(6,10) by simp_all
  ultimately show ?thesis using valid s'(2) by (intro exI [of _ user] exI [of _ pass]) simp
qed

lemma password_table:
  assumes "sf_AuthMethods conf = []" and "sf_Credentials conf = Some Valid"
  shows "sv_authMethods (socks_New env conf) = [(2, UserPassAuthenticator Valid)]"
  using assms by (simp add: socks_New_def default_config_def auth_table_def UserPassAuth_def Let_def)


lemma UserPass_negotiation:
  assumes "sk_in s = \<lparr>rd_data = [1, 2] @ [1, of_nat (length user)] @ user @ [of_nat (length pass)] @ pass @ rest, rd_end = e\<rparr>"
    and "length user < 256" "length pass < 256" "Valid (string_of_bytes user) (string_of_bytes pass)"
    and rel: "reliable (sk_out s)"
  shows "\<exists>ctx s'. authenticate [(2, UserPassAuthenticator Valid)] s = (Ok ctx, s')
    \<and> sk_in s' = \<lparr>rd_data = rest, rd_end = e\<rparr> \<and> sk_dials s' = sk_dials s"
proof -
  have m: "read_full (Suc 0) \<lparr>rd_data = 2 # xs, rd_end = e\<rparr> = (Ok [2], \<lparr>rd_data = xs, rd_end = e\<rparr>)" for xs
    using read_full_append [of "[2]" 1 xs e] by simp
  have h: "read_full 2 \<lparr>rd_data = 1 # n # xs, rd_end = e\<rparr> = (Ok [1, n], \<lparr>rd_data = xs, rd_end = e\<rparr>)" for n xs
    using read_full_append [of "[1, n]" 2 xs e] by simp
  have up: "read_full (length user) \<lparr>rd_data = user @ xs, rd_end = e\<rparr> = (Ok user, \<lparr>rd_data = xs, rd_end = e\<rparr>)"
    "read_full (length pass) \<lparr>rd_data = pass @ xs, rd_end = e\<rparr> = (Ok pass, \<lparr>rd_data = xs, rd_end = e\<rparr>)" for xs
    by (simp_all add: read_full_append)
  show ?thesis
    using assms
    by (simp add: authenticate_def readMethods_def UserPass_Authenticate_def from_client_def go_bind_def
        go_wrap_def read_one_def to_client_reliable go_return_def m h up userAuthVersion_def)
qed

definition demo_conf :: socks_config where
  "demo_conf = empty_config\<lparr>sf_Credentials := Some (StaticCredentials_Valid [(''foo'', ''bar'')])\<rparr>"

definition demo_login :: socks_io where
  "demo_login = new_socks_io \<lparr>rd_data = [5] @ [1, 2] @ [1, of_nat 3] @ bytes_of_string ''foo'' @ [of_nat 3]
     @ bytes_of_string ''bar'' @ [5, 1, 0, 1, 10, 4, 4, 2, 0, 80], rd_end = EOF\<rparr> fresh_writer"

lemma demo_login_dials:
  "sk_dials (snd (ServeConn demo_net (socks_New demo_net demo_conf) None demo_login)) \<noteq> []"
proof -
  let ?Valid = "StaticCredentials_Valid [(''foo'', ''bar'')]"
  let ?s1 = "demo_login\<lparr>sk_in := \<lparr>rd_data = [1, 2] @ [1, of_nat (length (bytes_of_string ''foo''))] @ bytes_of_string ''foo''
     @ [of_nat (length (bytes_of_string ''bar''))] @ bytes_of_string ''bar'' @ [5, 1, 0, 1, 10, 4, 4, 2, 0, 80], rd_end = EOF\<rparr>\<rparr>"
  have v: "from_client read_one demo_login = (Ok 5, ?s1)"
    by (simp add: from_client_def read_one_def demo_login_def new_socks_io_def)
  have "\<exists>ctx s'. authenticate [(2, UserPassAuthenticator ?Valid)] ?s1 = (Ok ctx, s')
      \<and> sk_in s' = \<lparr>rd_data = [5, 1, 0, 1, 10, 4, 4, 2, 0, 80], rd_end = EOF\<rparr> \<and> sk_dials s' = sk_dials ?s1"
    by (rule UserPass_negotiation [where user = "bytes_of_string ''foo''" and pass = "bytes_of_string ''bar''"])
      (simp_all add: StaticCredentials_Valid_def demo_login_def new_socks_io_def)
  then obtain ctx s2 where au: "authenticate [(2, UserPassAuthenticator ?Valid)] ?s1 = (Ok ctx, s2)"
    "sk_in s2 = \<lparr>rd_data = [5, 1, 0, 1, 10, 4, 4, 2, 0, 80], rd_end = EOF\<rparr>" by blast
  have tbl: "sv_authMethods (socks_New demo_net demo_conf) = [(2, UserPassAuthenticator ?Valid)]"
    by (rule password_table) (simp_all add: demo_conf_def empty_config_def)
  have a: "readAddrSpec \<lparr>rd_data = [1, 10, 4, 4, 2, 0, 80] @ [], rd_end = EOF\<rparr> = (Ok demo_dst, \<lparr>rd_data = [], rd_end = EOF\<rparr>)"
    using readAddrSpec_encode [of demo_dst "[]" EOF] by (simp add: encode_addr_def wire_addr_def be16_alt)
  have "sk_dials (snd (ServeConn demo_net (socks_New demo_net demo_conf) None demo_login))
      = sk_dials s2 @ [AddrSpec_Address demo_dst]"
    by (rule authed_dials [OF v au(1) [folded tbl] _ a])
      (use au(2) in \<open>simp_all add: socks_New_def default_config_def demo_conf_def empty_config_def Let_def\<close>)
  then show ?thesis by simp
qed


section \<open>Replies to failures\<close>

lemma reply_not_Block: "reply_or_fail c addr s \<noteq> (Block, s')"
  by (auto simp: reply_or_fail_def go_wrap_def sendReply_def to_client_def wr_write_def
      split: if_splits prod.splits outcome.splits option.splits)

lemma reply_None:
  assumes "reliable (sk_out s)"
  shows "\<exists>s'. reply_or_fail c None s = (Ok (), s') \<and> sk_targets s' = sk_targets s
     \<and> wr_out (sk_out s') = wr_out (sk_out s) @ [5, c, 0, 1, 0, 0, 0, 0, 0, 0]"
  using to_client_reliable [OF assms, of "[5, c, 0, 1, 0, 0, 0, 0, 0, 0]"]
  by (simp add: reply_or_fail_def sendReply_None go_wrap_def socks5Version_def ipv4Address_def)

definition failure_codes :: "u8 set" where
  "failure_codes = {ruleFailure, networkUnreachable, hostUnreachable, connectionRefused, commandNotSupported}"

text \<open>A run that ends with one failure reply and no target.\<close>

definition refused_with :: "u8 set \<Rightarrow> socks_io \<Rightarrow> socks_io \<Rightarrow> bool" where
  "refused_with codes s s' \<longleftrightarrow> sk_targets s' = sk_targets s \<and>
     (\<exists>c \<in> codes. wr_out (sk_out s') = wr_out (sk_out s) @ [5, c, 0, 1, 0, 0, 0, 0, 0, 0])"

lemma reply_fail_refused:
  assumes rel: "reliable (sk_out s)" and c: "c \<in> codes"
    and run: "go_bind (reply_or_fail c None) (\<lambda>_. go_fail e) s = (res, s')"
  shows "refused_with codes s s'"
  using reply_None [OF rel, of c] run c by (auto simp: refused_with_def go_fail_def go_bind_def)

lemma reply_refused:
  assumes "reliable (sk_out s)" and "c \<in> codes" and "reply_or_fail c None s = (res, s')"
  shows "refused_with codes s s'"
  using reply_None [OF assms(1), of c] assms(2,3) by (auto simp: refused_with_def)

lemma dial_reply_code: "dial_reply err \<in> failure_codes"
  by (simp add: dial_reply_def failure_codes_def)

lemma serve_target_targets:
  assumes "serve_target env target s = (res, s')"
  shows "sk_targets s' \<noteq> sk_targets s \<or> (\<exists>p. res = Panic p)"
proof (cases "tg_local target")
  case None
  with assms show ?thesis by (auto simp: serve_target_def)
next
  case (Some l)
  obtain ip port where l: "l = (ip, port)" by fastforce
  obtain o1 s1 where r: "reply_or_fail successReply (Some \<lparr>FQDN = [], ad_IP = ip, ad_Port = port\<rparr>) s = (o1, s1)" by fastforce
  then have "sk_targets s1 = sk_targets s"
    by (auto simp: reply_or_fail_def go_wrap_def dest: sendReply_fields(3) split: prod.splits outcome.splits)
  moreover obtain res2 t2 s2 where rl: "relay env target s1 = (res2, t2, s2)" by (metis prod_cases3)
  moreover note relay_fields [OF rl]
  moreover have "o1 \<noteq> Block"
    using r reply_not_Block by auto
  ultimately show ?thesis using assms Some l r by (cases o1) (auto simp: serve_target_def)
qed

lemma handleConnect_refused:
  assumes run: "handleConnect env sv req s = (res, s')" and rel: "reliable (sk_out s)"
    and none: "sk_targets s' = sk_targets s" and np: "\<And>p. res \<noteq> Panic p"
  shows "refused_with failure_codes s s'"
proof (cases "allowed sv req")
  case False
  with run have "go_bind (reply_or_fail ruleFailure None) (\<lambda>_. go_fail
        (Errorf (''Connect to '' @ AddrSpec_String (rq_DestAddr req) @ '' blocked by rules''))) s = (res, s')"
    by (simp add: handleConnect_def)
  then show ?thesis by (rule reply_fail_refused [OF rel, rotated]) (simp add: failure_codes_def)
next
  case True
  with run np obtain dst where dst: "rq_realDestAddr req = Some dst"
    by (auto simp: handleConnect_def split: option.splits)
  let ?s = "s\<lparr>sk_dials := sk_dials s @ [AddrSpec_Address dst]\<rparr>"
  show ?thesis
  proof (cases "dial_with env sv (AddrSpec_Address dst)")
    case (Inl err)
    with run True dst have "go_bind (reply_or_fail (dial_reply err) None) (\<lambda>_. go_fail (Errorf
        (''Connect to '' @ AddrSpec_String (rq_DestAddr req) @ '' failed: '' @ error_string err))) ?s = (res, s')"
      by (simp add: handleConnect_def Let_def)
    then have "refused_with failure_codes ?s s'"
      by (rule reply_fail_refused [rotated 2]) (simp_all add: rel dial_reply_code)
    then show ?thesis by (simp add: refused_with_def)
  next
    case (Inr target)
    with run True dst have "serve_target env target ?s = (res, s')"
      by (simp add: handleConnect_def Let_def)
    from serve_target_targets [OF this] none np show ?thesis by simp
  qed
qed

text \<open>C27. Every refused request gets exactly one reply: when handling a request ends without a
  panic and no target was reached, the client has received one ten-byte reply whose code says
  rule failure, network unreachable, host unreachable, connection refused, or command not
  supported, and never the success code.\<close>

theorem failure_gets_one_reply:
  assumes run: "handleRequest env sv req s = (res, s')" and rel: "reliable (sk_out s)"
    and none: "sk_targets s' = sk_targets s" and np: "\<forall>p. res \<noteq> Panic p"
  shows "\<exists>c \<in> failure_codes. wr_out (sk_out s') = wr_out (sk_out s) @ [5, c, 0, 1, 0, 0, 0, 0, 0, 0]"
proof -
  obtain o1 s1 where r: "resolve_dest sv req s = (o1, s1)" by fastforce
  have "refused_with failure_codes s s'"
  proof (cases o1)
    case (Ok req1)
    with r have same: "sk_out s1 = sk_out s" "sk_targets s1 = sk_targets s"
      by (auto simp: resolve_dest_def Let_def go_fail_def elim!: go_bind_OkE split: if_splits option.splits sum.splits)
    let ?req = "rewrite_dest sv req1"
    have k: "(if rq_Command ?req = ConnectCommand then handleConnect env sv ?req
      else if rq_Command ?req = BindCommand then handleBind sv ?req
      else if rq_Command ?req = AssociateCommand then handleAssociate sv ?req
      else go_bind (reply_or_fail commandNotSupported None) (\<lambda>_.
       go_fail (Errorf (''Unsupported command: '' @ nat_text (unat (rq_Command ?req)))))) s1 = (res, s')"
      using run r Ok by (simp add: handleRequest_def go_bind_def Let_def)
    have rel1: "reliable (sk_out s1)" using rel same by simp
    have "refused_with failure_codes s1 s'"
      using k handleConnect_refused [of env sv ?req s1 res s'] rel1 none np same
        reply_fail_refused [OF rel1, of ruleFailure failure_codes] reply_refused [OF rel1, of commandNotSupported failure_codes]
        reply_fail_refused [OF rel1, of commandNotSupported failure_codes]
      by (auto simp: handleBind_def handleAssociate_def failure_codes_def split: if_splits)
    with same show ?thesis by (simp add: refused_with_def)
  next
    case (Err e)
    with run r have "resolve_dest sv req s = (Err e, s')" by (simp add: handleRequest_def go_bind_def)
    then obtain err where "go_bind (reply_or_fail hostUnreachable None) (\<lambda>_. go_fail err)
        (s\<lparr>sk_resolved := sk_resolved s @ [FQDN (rq_DestAddr req)]\<rparr>) = (Err e :: request outcome, s')"
      by (auto simp: resolve_dest_def Let_def split: if_splits option.splits sum.splits)
    then have "refused_with failure_codes (s\<lparr>sk_resolved := sk_resolved s @ [FQDN (rq_DestAddr req)]\<rparr>) s'"
      by (rule reply_fail_refused [rotated 2]) (simp_all add: rel failure_codes_def)
    then show ?thesis by (simp add: refused_with_def)
  next
    case (Panic p)
    with run r np show ?thesis by (auto simp: handleRequest_def go_bind_def)
  next
    case Block
    with r show ?thesis
      by (auto simp: resolve_dest_def Let_def go_fail_def go_bind_def reply_not_Block
          split: if_splits option.splits sum.splits prod.splits outcome.splits)
  qed
  then show ?thesis by (simp add: refused_with_def)
qed

definition demo_request :: request where
  "demo_request = \<lparr>rq_Version = 5, rq_Command = ConnectCommand, rq_AuthContext = None, rq_RemoteAddr = None,
     rq_DestAddr = demo_dst, rq_realDestAddr = None\<rparr>"

theorem failure_gets_one_reply_witness:
  "\<exists>res s'. handleRequest demo_net demo_server demo_request demo_session = (res, s') \<and>
    (\<exists>c \<in> failure_codes. wr_out (sk_out s') = wr_out (sk_out demo_session) @ [5, c, 0, 1, 0, 0, 0, 0, 0, 0])"
proof -
  let ?s = "demo_session\<lparr>sk_dials := sk_dials demo_session @ [AddrSpec_Address demo_dst]\<rparr>"
  have rel: "reliable (sk_out ?s)" by (simp add: demo_session_def new_socks_io_def)
  obtain s' where s': "reply_or_fail (dial_reply (Extern ''connect: connection refused'')) None ?s = (Ok (), s')"
    "sk_targets s' = sk_targets ?s"
    using reply_None [OF rel] by blast
  obtain e where run: "handleRequest demo_net demo_server demo_request demo_session = (Err e, s')"
    using s'(1)
    by (simp add: handleRequest_def resolve_dest_def rewrite_dest_def demo_request_def go_bind_def
        handleConnect_def allowed_def PermitAll_def PermitCommand_Allow_def commands Let_def
        demo_server_simps dial_with_def demo_net_def go_fail_def)
  have "reliable (sk_out demo_session)" by (simp add: demo_session_def new_socks_io_def)
  from failure_gets_one_reply [OF run this] s'(2) run show ?thesis by auto
qed

section \<open>Relaying\<close>

text \<open>How \<open>io.Copy\<close> cuts the stream into chunks does not matter.\<close>

definition chunks_ok :: "net_env \<Rightarrow> bool" where
  "chunks_ok env \<longleftrightarrow> (\<forall>bs. concat (net_chunks env bs) = bs)"

lemma io_Copy_reliable:
  "reliable w \<Longrightarrow> \<exists>w'. io_Copy cs EOF w = (None, w') \<and> wr_out w' = wr_out w @ concat cs \<and> reliable w'"
proof (induction cs arbitrary: w)
  case (Cons c cs)
  let ?w = "w\<lparr>wr_out := wr_out w @ c, wr_cnt := Suc (wr_cnt w)\<rparr>"
  have "reliable ?w" using Cons.prems by simp
  from Cons.IH [OF this] Cons.prems show ?case by (simp add: wr_write_reliable)
qed simp

lemma connect_relays_run:
  assumes al: "allowed sv req" and dst: "rq_realDestAddr req = Some dst"
    and dial: "dial_with env sv (AddrSpec_Address dst) = Inr target"
    and local: "tg_local target = Some (ip, port)" "length ip = 4" "0 \<le> port" "port < 65536"
    and rel: "reliable (sk_out s)" "reliable (tg_out target)"
    and ends: "rd_end (sk_in s) = EOF" "rd_end (tg_in target) = EOF" and ch: "chunks_ok env"
  shows "\<exists>s' t'. handleConnect env sv req s = (Ok (), s')
    \<and> sk_dials s' = sk_dials s @ [AddrSpec_Address dst] \<and> sk_targets s' = sk_targets s @ [t'] \<and> tg_shut t' \<and> tg_closed t' \<and> sk_shut s'
    \<and> wr_out (sk_out s') = wr_out (sk_out s) @ [5, 0, 0, 1] @ ip @ be16 (of_int port) @ rd_data (tg_in target)
    \<and> wr_out (tg_out t') = wr_out (tg_out target) @ rd_data (sk_in s)"
proof -
  let ?s = "s\<lparr>sk_dials := sk_dials s @ [AddrSpec_Address dst]\<rparr>"
  let ?bind = "\<lparr>FQDN = [], ad_IP = ip, ad_Port = port\<rparr>"
  let ?out = "(sk_out s)\<lparr>wr_out := wr_out (sk_out s) @ [5, 0, 0, 1] @ ip @ be16 (of_int port), wr_cnt := Suc (wr_cnt (sk_out s))\<rparr>"
  let ?s1 = "?s\<lparr>sk_out := ?out\<rparr>"
  have reply: "reply_or_fail successReply (Some ?bind) ?s = (Ok (), ?s1)"
    using local(2) rel(1) to_client_reliable [of ?s]
    by (simp add: reply_or_fail_def go_wrap_def sendReply_def format_reply_def reply_msg_def
        socks5Version_def ipv4Address_def successReply_def)
  obtain w1 where w1: "io_Copy (net_chunks env (rd_data (sk_in s))) EOF (tg_out target) = (None, w1)"
    "wr_out w1 = wr_out (tg_out target) @ rd_data (sk_in s)"
    using io_Copy_reliable [OF rel(2)] ch unfolding chunks_ok_def by metis
  have "reliable ?out" using rel(1) by simp
  from io_Copy_reliable [OF this, of "net_chunks env (rd_data (tg_in target))"] obtain w2 where
    w2: "io_Copy (net_chunks env (rd_data (tg_in target))) EOF ?out = (None, w2)"
    "wr_out w2 = wr_out ?out @ rd_data (tg_in target)"
    using ch unfolding chunks_ok_def by auto
  have rl: "relay env target ?s1 = (Ok (), target\<lparr>tg_out := w1, tg_shut := True\<rparr>,
      ?s1\<lparr>sk_out := w2, sk_shut := True\<rparr>)"
    using w1(1) w2(1) ends by (simp add: relay_def Let_def split: prod.splits)
  show ?thesis
    using al dst dial local(1) reply rl w1(2) w2(2)
    by (simp add: handleConnect_def serve_target_def Let_def)
qed

text \<open>After a successful dial, over working streams that end in the ordinary way: the client gets
  the success reply with the proxy's local address, and then every byte the target sends, and the
  target gets every byte the client sent behind its request, those sent ahead included; each
  side sees the end of the other's stream, and the target is closed at the end.\<close>

theorem connect_relays:
  assumes al: "allowed sv req" and dst: "rq_realDestAddr req = Some dst"
    and dial: "dial_with env sv (AddrSpec_Address dst) = Inr target"
    and local: "tg_local target = Some (ip, port)" "length ip = 4" "0 \<le> port" "port < 65536"
    and rel: "reliable (sk_out s)" "reliable (tg_out target)"
    and ends: "rd_end (sk_in s) = EOF" "rd_end (tg_in target) = EOF" and ch: "chunks_ok env"
  shows "\<exists>s' t'. handleConnect env sv req s = (Ok (), s') \<and> sk_targets s' = sk_targets s @ [t'] \<and> tg_shut t' \<and> tg_closed t' \<and> sk_shut s'
    \<and> wr_out (sk_out s') = wr_out (sk_out s) @ [5, 0, 0, 1] @ ip @ be16 (of_int port) @ rd_data (tg_in target)
    \<and> wr_out (tg_out t') = wr_out (tg_out target) @ rd_data (sk_in s)"
  using connect_relays_run [OF assms] by blast

definition demo_target :: dialled where
  "demo_target = \<lparr>tg_local = Some ([192, 168, 1, 7], 40001), tg_in = \<lparr>rd_data = [72, 105], rd_end = EOF\<rparr>,
     tg_out = fresh_writer, tg_shut = False, tg_closed = False\<rparr>"

theorem connect_relays_witness:
  "\<exists>s' t'. handleConnect (demo_net\<lparr>net_Dial := \<lambda>_. Inr demo_target\<rparr>) demo_server
        (demo_request\<lparr>rq_realDestAddr := Some demo_dst\<rparr>)
        (new_socks_io \<lparr>rd_data = [71, 69, 84], rd_end = EOF\<rparr> fresh_writer) = (Ok (), s')
    \<and> sk_targets s' = sk_targets (new_socks_io \<lparr>rd_data = [71, 69, 84], rd_end = EOF\<rparr> fresh_writer) @ [t'] \<and> tg_shut t' \<and> tg_closed t' \<and> sk_shut s'
    \<and> wr_out (sk_out s') = wr_out (sk_out (new_socks_io \<lparr>rd_data = [71, 69, 84], rd_end = EOF\<rparr> fresh_writer))
        @ [5, 0, 0, 1] @ [192, 168, 1, 7] @ be16 (of_int 40001) @ rd_data (tg_in demo_target)
    \<and> wr_out (tg_out t') = wr_out (tg_out demo_target)
        @ rd_data (sk_in (new_socks_io \<lparr>rd_data = [71, 69, 84], rd_end = EOF\<rparr> fresh_writer))"
  by (rule connect_relays)
    (simp_all add: allowed_def demo_server_simps PermitAll_def PermitCommand_Allow_def demo_request_def
      dial_with_def demo_target_def new_socks_io_def chunks_ok_def demo_net_def)

end
