(* ===== verification/SocksSession.thy ===== *)
theory SocksSession
  imports SocksProps
begin

text \<open>
  A whole session with the proxy as \<open>StartSocks5\<close> configures it, from the client's first byte to
  the end of both streams.
\<close>

lemma select_NoAuth: "c \<in> set ms \<Longrightarrow> select_method [(c, au)] ms = Some au"
  by (induction ms) auto

lemma NoAuth_negotiates:
  assumes inp: "sk_in s = \<lparr>rd_data = of_nat (length ms) # ms @ rest, rd_end = e\<rparr>"
    and ms: "0 \<in> set ms" "length ms < 256" and rel: "reliable (sk_out s)"
  shows "authenticate [(0, NoAuthAuthenticator)] s = (Ok \<lparr>au_Method = 0, au_Payload = []\<rparr>,
    s\<lparr>sk_in := \<lparr>rd_data = rest, rd_end = e\<rparr>, sk_out := (sk_out s)\<lparr>wr_out := wr_out (sk_out s) @ [5, 0],
       wr_cnt := Suc (wr_cnt (sk_out s))\<rparr>\<rparr>)"
proof -
  have len: "unat (of_nat (length ms) :: u8) = length ms" using ms(2) by (simp add: unat_of_nat)
  have "readMethods (sk_in s) = (Ok ms, \<lparr>rd_data = rest, rd_end = e\<rparr>)"
    unfolding inp readMethods_def using read_full_append [of ms "length ms" rest e] len
    by (simp add: go_bind_def read_one_def)
  then show ?thesis
    using rel select_NoAuth [OF ms(1)]
    by (simp add: authenticate_def NoAuth_Authenticate_def from_client_def go_bind_def go_wrap_def
        to_client_reliable go_return_def socks5Version_def NoAuth_def)
qed

text \<open>The destination behind a request for \<open>a\<close> when its name, if it has one, resolves to \<open>ip\<close>.\<close>

definition resolved :: "bytes \<Rightarrow> addr_spec \<Rightarrow> addr_spec" where
  "resolved ip a = (if FQDN a = [] then a else a\<lparr>ad_IP := ip\<rparr>)"

lemma resolve_default:
  assumes "FQDN (rq_DestAddr req) \<noteq> [] \<Longrightarrow> net_ResolveIPAddr env (FQDN (rq_DestAddr req)) = Inr ip"
  shows "\<exists>names. resolve_dest (socks_New env empty_config) req s
    = (Ok (req\<lparr>rq_DestAddr := resolved ip (rq_DestAddr req)\<rparr>), s\<lparr>sk_resolved := names\<rparr>)"
  using assms
  by (cases "FQDN (rq_DestAddr req) = []")
    (auto simp: resolve_dest_def socks_New_def default_config_def empty_config_def DNSResolver_Resolve_def
      resolved_def Let_def intro: exI [of _ "sk_resolved s"])

lemma default_server:
  "sv_authMethods (socks_New env empty_config) = [(0, NoAuthAuthenticator)]"
  "allowed (socks_New env empty_config) req = (rq_Command req \<in> {1, 2, 3})"
  "dial_with env (socks_New env empty_config) = net_Dial env"
  "sf_Rewriter (sv_config (socks_New env empty_config)) = None"
  by (simp_all add: socks_New_def default_config_def empty_config_def auth_table_def NoAuth_def Let_def
      allowed_def PermitAll_def PermitCommand_Allow_def commands dial_with_def)

lemma request_relays:
  assumes cmd: "rq_Command req = 1" and a: "rq_DestAddr req = a"
    and name: "FQDN a \<noteq> [] \<Longrightarrow> net_ResolveIPAddr env (FQDN a) = Inr ip"
    and dial: "net_Dial env (AddrSpec_Address (resolved ip a)) = Inr target"
    and local: "tg_local target = Some (lip, port)" "length lip = 4" "0 \<le> port" "port < 65536"
    and rel: "reliable (sk_out s)" "reliable (tg_out target)"
    and ends: "rd_end (sk_in s) = EOF" "rd_end (tg_in target) = EOF" and ch: "chunks_ok env"
  shows "\<exists>s' t'. handleRequest env (socks_New env empty_config) req s = (Ok (), s')
    \<and> sk_dials s' = sk_dials s @ [AddrSpec_Address (resolved ip a)] \<and> sk_targets s' = sk_targets s @ [t']
    \<and> tg_shut t' \<and> tg_closed t' \<and> sk_shut s'
    \<and> wr_out (sk_out s') = wr_out (sk_out s) @ [5, 0, 0, 1] @ lip @ be16 (of_int port) @ rd_data (tg_in target)
    \<and> wr_out (tg_out t') = wr_out (tg_out target) @ rd_data (sk_in s)"
proof -
  let ?sv = "socks_New env empty_config"
  obtain names where res: "resolve_dest ?sv req s
      = (Ok (req\<lparr>rq_DestAddr := resolved ip a\<rparr>), s\<lparr>sk_resolved := names\<rparr>)"
    using resolve_default [of req env ip s] name a by auto
  let ?req = "req\<lparr>rq_DestAddr := resolved ip a, rq_realDestAddr := Some (resolved ip a)\<rparr>"
  have "handleRequest env ?sv req s = handleConnect env ?sv ?req (s\<lparr>sk_resolved := names\<rparr>)"
    using res cmd by (simp add: handleRequest_def go_bind_def rewrite_dest_def default_server commands Let_def)
  moreover have "\<exists>s' t'. handleConnect env ?sv ?req (s\<lparr>sk_resolved := names\<rparr>) = (Ok (), s')
    \<and> sk_dials s' = sk_dials (s\<lparr>sk_resolved := names\<rparr>) @ [AddrSpec_Address (resolved ip a)]
    \<and> sk_targets s' = sk_targets (s\<lparr>sk_resolved := names\<rparr>) @ [t'] \<and> tg_shut t' \<and> tg_closed t' \<and> sk_shut s'
    \<and> wr_out (sk_out s') = wr_out (sk_out (s\<lparr>sk_resolved := names\<rparr>)) @ [5, 0, 0, 1] @ lip @ be16 (of_int port)
        @ rd_data (tg_in target)
    \<and> wr_out (tg_out t') = wr_out (tg_out target) @ rd_data (sk_in (s\<lparr>sk_resolved := names\<rparr>))"
    using cmd dial rel ends
    by (intro connect_relays_run [OF _ _ _ local _ _ _ _ ch]) (simp_all add: default_server)
  ultimately show ?thesis by simp
qed

text \<open>C23. A whole session: a client that offers "no authentication" among its methods and asks for a
  connection, by address or by a name that resolves, gets the method, the success reply and every
  byte the target sends; the target, dialled once at that address, gets every byte the client
  sent behind its request; at the end both are closed. Whatever the methods' number and order, the
  reserved byte, the chunks, and which side ends first.\<close>

theorem session_relays:
  assumes inp: "sk_in s = \<lparr>rd_data = [5, of_nat (length ms)] @ ms @ [5, 1, rsv] @ encode_addr a @ ahead, rd_end = EOF\<rparr>"
    and ms: "0 \<in> set ms" "length ms < 256" and a: "wire_addr a"
    and name: "FQDN a \<noteq> [] \<Longrightarrow> net_ResolveIPAddr env (FQDN a) = Inr ip"
    and dial: "net_Dial env (AddrSpec_Address (resolved ip a)) = Inr target"
    and local: "tg_local target = Some (lip, port)" "length lip = 4" "0 \<le> port" "port < 65536"
    and rel: "reliable (sk_out s)" "reliable (tg_out target)"
    and ends: "rd_end (tg_in target) = EOF" and ch: "chunks_ok env"
  shows "\<exists>s' t'. ServeConn env (socks_New env empty_config) remote s = (Ok (), s')
    \<and> sk_dials s' = sk_dials s @ [AddrSpec_Address (resolved ip a)] \<and> sk_targets s' = sk_targets s @ [t']
    \<and> tg_closed t' \<and> sk_closed s'
    \<and> wr_out (sk_out s') = wr_out (sk_out s) @ [5, 0] @ [5, 0, 0, 1] @ lip @ be16 (of_int port) @ rd_data (tg_in target)
    \<and> wr_out (tg_out t') = wr_out (tg_out target) @ ahead"
proof -
  let ?sv = "socks_New env empty_config" and ?rest = "[5, 1, rsv] @ encode_addr a @ ahead"
  let ?s1 = "s\<lparr>sk_in := \<lparr>rd_data = of_nat (length ms) # ms @ ?rest, rd_end = EOF\<rparr>\<rparr>"
  let ?out = "(sk_out s)\<lparr>wr_out := wr_out (sk_out s) @ [5, 0], wr_cnt := Suc (wr_cnt (sk_out s))\<rparr>"
  let ?s2 = "s\<lparr>sk_in := \<lparr>rd_data = ?rest, rd_end = EOF\<rparr>, sk_out := ?out\<rparr>"
  let ?s3 = "s\<lparr>sk_in := \<lparr>rd_data = ahead, rd_end = EOF\<rparr>, sk_out := ?out\<rparr>"
  let ?req0 = "\<lparr>rq_Version = 5, rq_Command = 1, rq_AuthContext = None, rq_RemoteAddr = None,
       rq_DestAddr = a, rq_realDestAddr = None\<rparr>"
  let ?ctx = "\<lparr>au_Method = 0, au_Payload = []\<rparr>"
  have v: "from_client read_one s = (Ok 5, ?s1)" by (simp add: from_client_def read_one_def inp)
  have au: "authenticate (sv_authMethods ?sv) ?s1 = (Ok ?ctx, ?s2)"
    using NoAuth_negotiates [of ?s1 ms ?rest EOF] ms rel(1) by (simp add: default_server)
  have rq: "read_request ?s2 = (Ok ?req0, ?s3)"
    unfolding read_request_Ok using NewRequest_encode [OF a, of 1 rsv ahead EOF] by (simp add: from_client_def)
  have "\<exists>s' t'. handleRequest env ?sv (with_context ?ctx remote ?req0) ?s3 = (Ok (), s')
    \<and> sk_dials s' = sk_dials ?s3 @ [AddrSpec_Address (resolved ip a)] \<and> sk_targets s' = sk_targets ?s3 @ [t']
    \<and> tg_shut t' \<and> tg_closed t' \<and> sk_shut s'
    \<and> wr_out (sk_out s') = wr_out (sk_out ?s3) @ [5, 0, 0, 1] @ lip @ be16 (of_int port) @ rd_data (tg_in target)
    \<and> wr_out (tg_out t') = wr_out (tg_out target) @ rd_data (sk_in ?s3)"
    using rel ends name
    by (intro request_relays [OF _ _ _ dial local _ _ _ _ ch]) (simp_all add: with_context_def split: option.splits)
  then obtain s' t' where h: "handleRequest env ?sv (with_context ?ctx remote ?req0) ?s3 = (Ok (), s')"
    "sk_dials s' = sk_dials s @ [AddrSpec_Address (resolved ip a)]" "sk_targets s' = sk_targets s @ [t']" "tg_closed t'"
    "wr_out (sk_out s') = wr_out (sk_out s) @ [5, 0] @ [5, 0, 0, 1] @ lip @ be16 (of_int port) @ rd_data (tg_in target)"
    "wr_out (tg_out t') = wr_out (tg_out target) @ ahead"
    by auto
  have "serve_conn_body env ?sv remote s = (Ok (), s')"
    using v au rq h(1)
    by (simp add: serve_conn_body_def serve_request_def go_bind_Ok go_wrap_Ok socks5Version_def with_context_def Let_def)
  with h show ?thesis by (intro exI [of _ "s'\<lparr>sk_closed := True\<rparr>"] exI [of _ t']) (simp add: ServeConn_def)
qed

text \<open>A client that offers two methods and asks for \<open>10.4.4.2:80\<close>, its first bytes sent ahead.\<close>

abbreviation demo_stream :: socks_io where
  "demo_stream \<equiv> new_socks_io \<lparr>rd_data = [5, of_nat (length [2, 0 :: u8])] @ [2, 0] @ [5, 1, 0] @ encode_addr demo_dst
     @ [71, 69, 84], rd_end = EOF\<rparr> fresh_writer"

theorem session_relays_witness:
  "\<exists>s' t'. ServeConn (demo_net\<lparr>net_Dial := \<lambda>_. Inr demo_target\<rparr>)
        (socks_New (demo_net\<lparr>net_Dial := \<lambda>_. Inr demo_target\<rparr>) empty_config) None demo_stream = (Ok (), s')
    \<and> sk_dials s' = sk_dials demo_stream @ [AddrSpec_Address (resolved [] demo_dst)]
    \<and> sk_targets s' = sk_targets demo_stream @ [t'] \<and> tg_closed t' \<and> sk_closed s'
    \<and> wr_out (sk_out s') = wr_out (sk_out demo_stream) @ [5, 0] @ [5, 0, 0, 1] @ [192, 168, 1, 7]
        @ be16 (of_int 40001) @ rd_data (tg_in demo_target)
    \<and> wr_out (tg_out t') = wr_out (tg_out demo_target) @ [71, 69, 84]"
  by (rule session_relays [where ms = "[2, 0]" and rsv = 0])
    (simp_all add: wire_addr_def v4_in_v6_def demo_target_def new_socks_io_def chunks_ok_def demo_net_def)

end
