(* ===== verification/RelayRun.thy ===== *)
theory RelayRun
  imports SocksRequest
begin

text \<open>
  The relay of \<open>handleConnect\<close> with its goroutines (src/socks5/request.go): the two
  \<open>proxy\<close> calls and the loop that waits for their results, one step at a time. The function
  \<open>relay\<close> of SocksRequest condenses a run into three choices; the development shows that it
  has exactly the outcomes of the interleavings, and that every interleaving returns.
\<close>

section \<open>One goroutine\<close>

text \<open>
  \<open>proxy(dst, src, errCh)\<close>: it copies chunk by chunk, shuts the writing half of its
  destination, and sends its result down the channel.
\<close>

datatype proxy_state =
  Copying "bytes list"
| Copied "go_error option"
| Shut "go_error option"
| Reported

record proxy_run =
  px_st :: proxy_state
  px_end :: go_error
  px_out :: writer
  px_shut :: bool

definition proxy_next :: "proxy_run \<Rightarrow> proxy_run \<times> go_error option list" where
  "proxy_next p = (case px_st p of
     Copying [] \<Rightarrow> (p\<lparr>px_st := Copied (if px_end p = EOF then None else Some (px_end p))\<rparr>, [])
   | Copying (c # cs) \<Rightarrow>
       (case wr_write c (px_out p) of
          (Err e, w) \<Rightarrow> (p\<lparr>px_st := Copied (Some e), px_out := w\<rparr>, [])
        | (_, w) \<Rightarrow> (p\<lparr>px_st := Copying cs, px_out := w\<rparr>, []))
   | Copied r \<Rightarrow> (p\<lparr>px_st := Shut r, px_shut := True\<rparr>, [])
   | Shut r \<Rightarrow> (p\<lparr>px_st := Reported\<rparr>, [r])
   | Reported \<Rightarrow> (p, []))"

section \<open>The handler and its two goroutines\<close>

text \<open>
  \<open>rr_errs\<close> is the channel \<open>errCh\<close>, with room for both results; \<open>rr_seen\<close> counts
  the rounds of the waiting loop. The run ends when the handler returns: the target is closed then.
\<close>

record relay_run =
  rr_up :: proxy_run
  rr_down :: proxy_run
  rr_errs :: "go_error option list"
  rr_seen :: nat
  rr_res :: "unit outcome option"

inductive relay_step :: "relay_run \<Rightarrow> relay_run \<Rightarrow> bool" where
  up: "\<lbrakk>rr_res r = None; px_st (rr_up r) \<noteq> Reported; proxy_next (rr_up r) = (p, es)\<rbrakk>
    \<Longrightarrow> relay_step r (r\<lparr>rr_up := p, rr_errs := rr_errs r @ es\<rparr>)"
| down: "\<lbrakk>rr_res r = None; px_st (rr_down r) \<noteq> Reported; proxy_next (rr_down r) = (p, es)\<rbrakk>
    \<Longrightarrow> relay_step r (r\<lparr>rr_down := p, rr_errs := rr_errs r @ es\<rparr>)"
| recv_nil: "\<lbrakk>rr_res r = None; rr_seen r < 2; rr_errs r = None # es\<rbrakk>
    \<Longrightarrow> relay_step r (r\<lparr>rr_errs := es, rr_seen := Suc (rr_seen r)\<rparr>)"
| recv_err: "\<lbrakk>rr_res r = None; rr_seen r < 2; rr_errs r = Some e # es\<rbrakk>
    \<Longrightarrow> relay_step r (r\<lparr>rr_errs := es, rr_res := Some (Err e)\<rparr>)"
| loop_ends: "\<lbrakk>rr_res r = None; \<not> rr_seen r < 2\<rbrakk> \<Longrightarrow> relay_step r (r\<lparr>rr_res := Some (Ok ())\<rparr>)"

definition start_proxy :: "bytes list \<Rightarrow> go_error \<Rightarrow> writer \<Rightarrow> bool \<Rightarrow> proxy_run" where
  "start_proxy cs e w shut = \<lparr>px_st = Copying cs, px_end = e, px_out = w, px_shut = shut\<rparr>"

definition start_relay :: "net_env \<Rightarrow> dialled \<Rightarrow> socks_io \<Rightarrow> relay_run" where
  "start_relay env target s =
     \<lparr>rr_up = start_proxy (net_chunks env (rd_data (sk_in s))) (rd_end (sk_in s)) (tg_out target) (tg_shut target),
      rr_down = start_proxy (net_chunks env (rd_data (tg_in target))) (rd_end (tg_in target)) (sk_out s) (sk_shut s),
      rr_errs = [], rr_seen = 0, rr_res = None\<rparr>"

definition relay_left :: "relay_run \<Rightarrow> dialled \<Rightarrow> socks_io \<Rightarrow> dialled \<times> socks_io" where
  "relay_left r target s =
     (target\<lparr>tg_out := px_out (rr_up r), tg_shut := px_shut (rr_up r)\<rparr>,
      s\<lparr>sk_out := px_out (rr_down r), sk_shut := px_shut (rr_down r)\<rparr>)"

section \<open>What a goroutine has done so far\<close>

lemma io_Copy_append:
  "io_Copy (xs @ ys) e w =
     (case io_Copy xs EOF w of (None, w') \<Rightarrow> io_Copy ys e w' | (Some err, w') \<Rightarrow> (Some err, w'))"
  by (induction xs EOF w rule: io_Copy.induct) (auto split: prod.splits outcome.splits)

lemma snd_io_Copy: "snd (io_Copy cs e w) = snd (io_Copy cs EOF w)"
  by (induction cs e w rule: io_Copy.induct) (auto split: prod.splits outcome.splits)

definition proxy_ok :: "bytes list \<Rightarrow> go_error \<Rightarrow> writer \<Rightarrow> bool \<Rightarrow> proxy_run \<Rightarrow> bool" where
  "proxy_ok cs e w shut p \<longleftrightarrow> px_end p = e \<and> (case px_st p of
     Copying rest \<Rightarrow> \<exists>k. rest = drop k cs \<and> io_Copy (take k cs) EOF w = (None, px_out p) \<and> px_shut p = shut
   | Copied res \<Rightarrow> io_Copy cs e w = (res, px_out p) \<and> px_shut p = shut
   | Shut res \<Rightarrow> io_Copy cs e w = (res, px_out p) \<and> px_shut p
   | Reported \<Rightarrow> snd (io_Copy cs e w) = px_out p \<and> px_shut p)"

lemma start_proxy_ok [simp]: "proxy_ok cs e w shut (start_proxy cs e w shut)"
  by (auto simp: proxy_ok_def start_proxy_def intro: exI [of _ 0])

lemma proxy_next_ok:
  assumes "proxy_ok cs e w shut p" "px_st p \<noteq> Reported" "proxy_next p = (p', es)"
  shows "proxy_ok cs e w shut p' \<and>
    (if px_st p' = Reported then es = [fst (io_Copy cs e w)] else es = [])"
proof (cases "px_st p")
  case (Copying rest)
  then obtain k where k: "rest = drop k cs" "io_Copy (take k cs) EOF w = (None, px_out p)"
    and p: "px_end p = e" "px_shut p = shut"
    using assms(1) by (auto simp: proxy_ok_def)
  have all: "io_Copy cs e w = io_Copy rest e (px_out p)"
    using io_Copy_append [of "take k cs" "drop k cs" e w] k by simp
  show ?thesis
  proof (cases rest)
    case Nil
    then show ?thesis
      using assms(3) Copying p all by (auto simp: proxy_next_def proxy_ok_def)
  next
    case (Cons c rest')
    then have "k < length cs" "c = cs ! k" "rest' = drop (Suc k) cs"
      using k(1) by (metis drop_eq_Nil list.distinct(1) not_le, metis nth_via_drop, metis drop_Suc list.sel(3) tl_drop)
    then have "rest' = drop (Suc k) cs"
      "io_Copy (take (Suc k) cs) EOF w = io_Copy [c] EOF (px_out p)"
      using io_Copy_append [of "take k cs" "[c]" EOF w] k(2) by (simp_all add: take_Suc_conv_app_nth)
    then show ?thesis
      using assms(3) Copying Cons p all
      by (auto simp: proxy_next_def proxy_ok_def wr_write_def split: option.splits if_splits prod.splits intro: exI [of _ "Suc k"])
  qed
next
  case (Copied r)
  then show ?thesis using assms by (auto simp: proxy_next_def proxy_ok_def)
next
  case (Shut r)
  then show ?thesis using assms by (auto simp: proxy_next_def proxy_ok_def)
next
  case Reported
  then show ?thesis using assms by simp
qed

section \<open>The invariant of a run\<close>

definition relay_reports :: "relay_run \<Rightarrow> go_error option list" where
  "relay_reports r = replicate (rr_seen r) None
     @ (case rr_res r of Some (Err e) \<Rightarrow> [Some e] | _ \<Rightarrow> []) @ rr_errs r"

definition arrivals :: "bool \<Rightarrow> bool \<Rightarrow> 'a \<Rightarrow> 'a \<Rightarrow> 'a list set" where
  "arrivals u d e1 e2 =
     (if u then if d then {[e1, e2], [e2, e1]} else {[e1]} else if d then {[e2]} else {[]})"

lemma arrivals_length: "xs \<in> arrivals u d e1 e2 \<Longrightarrow> length xs = of_bool u + of_bool d"
  by (auto simp: arrivals_def split: if_splits)

definition relay_ok :: "net_env \<Rightarrow> dialled \<Rightarrow> socks_io \<Rightarrow> relay_run \<Rightarrow> bool" where
  "relay_ok env target s r \<longleftrightarrow>
     (let up = net_chunks env (rd_data (sk_in s));
          down = net_chunks env (rd_data (tg_in target));
          e1 = fst (io_Copy up (rd_end (sk_in s)) (tg_out target));
          e2 = fst (io_Copy down (rd_end (tg_in target)) (sk_out s)) in
      proxy_ok up (rd_end (sk_in s)) (tg_out target) (tg_shut target) (rr_up r) \<and>
      proxy_ok down (rd_end (tg_in target)) (sk_out s) (sk_shut s) (rr_down r) \<and>
      relay_reports r \<in>
        arrivals (px_st (rr_up r) = Reported) (px_st (rr_down r) = Reported) e1 e2 \<and>
      (case rr_res r of None \<Rightarrow> True | Some (Ok _) \<Rightarrow> rr_seen r = 2 | Some (Err _) \<Rightarrow> True | _ \<Rightarrow> False))"

lemma start_relay_ok [simp]: "relay_ok env target s (start_relay env target s)"
  by (simp add: relay_ok_def start_relay_def relay_reports_def) (simp add: start_proxy_def arrivals_def)

lemma relay_step_ok: "relay_step r r' \<Longrightarrow> relay_ok env target s r \<Longrightarrow> relay_ok env target s r'"
proof (induction rule: relay_step.induct)
  case (up r p es)
  then show ?case
    using proxy_next_ok [OF _ up(2,3)]
    by (auto simp: relay_ok_def relay_reports_def Let_def arrivals_def split: if_splits)
next
  case (down r p es)
  then show ?case
    using proxy_next_ok [OF _ down(2,3)]
    by (auto simp: relay_ok_def relay_reports_def Let_def arrivals_def split: if_splits)
next
  case (recv_nil r es)
  then have "relay_reports (r\<lparr>rr_errs := es, rr_seen := Suc (rr_seen r)\<rparr>) = relay_reports r"
    by (simp add: relay_reports_def replicate_append_same flip: append_assoc)
  then show ?case using recv_nil by (simp add: relay_ok_def Let_def)
next
  case (recv_err r e es)
  then have "relay_reports (r\<lparr>rr_errs := es, rr_res := Some (Err e)\<rparr>) = relay_reports r"
    by (simp add: relay_reports_def)
  then show ?case using recv_err by (simp add: relay_ok_def Let_def)
next
  case (loop_ends r)
  then have "length (relay_reports r) \<le> 2"
    by (auto simp: relay_ok_def Let_def dest!: arrivals_length)
  then have "rr_seen r + length (rr_errs r) \<le> 2"
    using loop_ends by (simp add: relay_reports_def)
  moreover have "relay_reports (r\<lparr>rr_res := Some (Ok ())\<rparr>) = relay_reports r"
    using loop_ends by (simp add: relay_reports_def)
  ultimately show ?case using loop_ends by (simp add: relay_ok_def Let_def)
qed

lemma relay_steps_ok: "relay_step\<^sup>*\<^sup>* r r' \<Longrightarrow> relay_ok env target s r \<Longrightarrow> relay_ok env target s r'"
  by (induction rule: rtranclp_induct) (blast dest: relay_step_ok)+

section \<open>Every outcome of a run is an outcome of \<open>relay\<close>\<close>

lemma proxy_left:
  assumes "proxy_ok cs e w shut p"
  obtains k l where
    "(px_out p, px_shut p) = (if l then (snd (io_Copy cs e w), True) else (snd (io_Copy (take k cs) EOF w), shut))"
proof (cases "px_st p")
  case (Copying rest)
  then obtain k where "px_shut p = shut" "io_Copy (take k cs) EOF w = (None, px_out p)"
    using assms by (auto simp: proxy_ok_def)
  then show thesis using that [of False k] by simp
next
  case (Copied r)
  then show thesis
    using assms snd_io_Copy [of cs e w] that [of False "length cs"] by (simp add: proxy_ok_def)
next
  case (Shut r)
  then show thesis using assms that [of True] by (simp add: proxy_ok_def)
next
  case Reported
  then show thesis using assms that [of True] by (simp add: proxy_ok_def)
qed

lemma proxy_ok_Reported: "proxy_ok cs e w shut p \<Longrightarrow> px_st p = Reported \<Longrightarrow>
    px_shut p \<and> px_out p = snd (io_Copy cs e w)"
  by (simp add: proxy_ok_def)

abbreviation scheduled :: "net_env \<Rightarrow> bool \<Rightarrow> nat \<Rightarrow> bool \<Rightarrow> net_env" where
  "scheduled env u k l \<equiv> env\<lparr>net_up_first := u, net_cut := k, net_late := l\<rparr>"

lemma relay_ok_outcome:
  assumes "relay_ok env target s r" "rr_res r = Some res"
  shows "\<exists>u k l. relay (scheduled env u k l) target s = (res, relay_left r target s)"
proof -
  let ?up = "net_chunks env (rd_data (sk_in s))" and ?down = "net_chunks env (rd_data (tg_in target))"
  let ?c1 = "io_Copy ?up (rd_end (sk_in s)) (tg_out target)"
  let ?c2 = "io_Copy ?down (rd_end (tg_in target)) (sk_out s)"
  have up: "proxy_ok ?up (rd_end (sk_in s)) (tg_out target) (tg_shut target) (rr_up r)"
    and down: "proxy_ok ?down (rd_end (tg_in target)) (sk_out s) (sk_shut s) (rr_down r)"
    and arr: "relay_reports r \<in> arrivals (px_st (rr_up r) = Reported) (px_st (rr_down r) = Reported) (fst ?c1) (fst ?c2)"
    using assms by (simp_all add: relay_ok_def Let_def)
  show ?thesis
  proof (cases res)
    case (Ok v)
    then have "relay_reports r = None # None # rr_errs r"
      using assms by (simp add: relay_ok_def relay_reports_def Let_def numeral_2_eq_2)
    then have "px_st (rr_up r) = Reported" "px_st (rr_down r) = Reported" "fst ?c1 = None" "fst ?c2 = None"
      using arr by (auto simp: arrivals_def split: if_splits)
    then show ?thesis
      using Ok proxy_ok_Reported [OF up] proxy_ok_Reported [OF down]
      by (auto simp: relay_def Let_def split_beta relay_left_def)
  next
    case (Err e)
    then have rep: "relay_reports r = replicate (rr_seen r) None @ Some e # rr_errs r"
      using assms by (simp add: relay_reports_def)
    let ?U = "px_st (rr_up r) = Reported" and ?D = "px_st (rr_down r) = Reported"
    consider "?U" "fst ?c1 = Some e" | "?D" "fst ?c2 = Some e"
      | "?U" "?D" "fst ?c1 = None" "fst ?c2 = Some e" | "?U" "?D" "fst ?c1 = Some e" "fst ?c2 = None"
      using arr rep by (cases "rr_seen r"; cases "rr_seen r - 1")
        (auto simp: arrivals_def split: if_splits)
    then show ?thesis
    proof cases
      case 1
      from down obtain k l where "(px_out (rr_down r), px_shut (rr_down r)) =
          (if l then (snd ?c2, True) else (snd (io_Copy (take k ?down) EOF (sk_out s)), sk_shut s))"
        by (rule proxy_left)
      then have "relay (scheduled env True k l) target s = (res, relay_left r target s)"
        using Err proxy_ok_Reported [OF up 1(1)] 1(2)
        by (cases l) (simp_all add: relay_def Let_def split_beta relay_left_def)
      then show ?thesis by blast
    next
      case 2
      from up obtain k l where "(px_out (rr_up r), px_shut (rr_up r)) =
          (if l then (snd ?c1, True) else (snd (io_Copy (take k ?up) EOF (tg_out target)), tg_shut target))"
        by (rule proxy_left)
      then have "relay (scheduled env False k l) target s = (res, relay_left r target s)"
        using Err proxy_ok_Reported [OF down 2(1)] 2(2)
        by (cases l) (simp_all add: relay_def Let_def split_beta relay_left_def)
      then show ?thesis by blast
    next
      case 3
      then have "relay (scheduled env True 0 True) target s = (res, relay_left r target s)"
        using Err proxy_ok_Reported [OF up \<open>?U\<close>] proxy_ok_Reported [OF down \<open>?D\<close>]
        by (simp add: relay_def Let_def split_beta relay_left_def)
      then show ?thesis by blast
    next
      case 4
      then have "relay (scheduled env False 0 True) target s = (res, relay_left r target s)"
        using Err proxy_ok_Reported [OF up \<open>?U\<close>] proxy_ok_Reported [OF down \<open>?D\<close>]
        by (simp add: relay_def Let_def split_beta relay_left_def)
      then show ?thesis by blast
    qed
  next
    case (Panic p)
    then show ?thesis using assms by (simp add: relay_ok_def Let_def)
  next
    case Block
    then show ?thesis using assms by (simp add: relay_ok_def Let_def)
  qed
qed

section \<open>Every outcome of \<open>relay\<close> is the outcome of a run\<close>

definition quiet :: "proxy_run \<Rightarrow> proxy_run \<Rightarrow> bool" where
  "quiet p p' \<longleftrightarrow> px_st p \<noteq> Reported \<and> proxy_next p = (p', [])"

lemma quiet_copies:
  "io_Copy cs EOF w = (res, w') \<Longrightarrow> \<exists>st. quiet\<^sup>*\<^sup>* \<lparr>px_st = Copying (cs @ rest), px_end = e, px_out = w, px_shut = shut\<rparr>
     \<lparr>px_st = st, px_end = e, px_out = w', px_shut = shut\<rparr> \<and>
     st = (case res of None \<Rightarrow> Copying rest | Some err \<Rightarrow> Copied (Some err))"
proof (induction cs arbitrary: w)
  case Nil
  then show ?case by auto
next
  case (Cons c cs)
  let ?p = "\<lparr>px_st = Copying ((c # cs) @ rest), px_end = e, px_out = w, px_shut = shut\<rparr>"
  obtain r1 w1 where w1: "wr_write c w = (r1, w1)" by fastforce
  show ?case
  proof (cases "\<exists>err. r1 = Err err")
    case True
    then show ?thesis using Cons.prems w1
      by (auto simp: quiet_def proxy_next_def intro!: r_into_rtranclp)
  next
    case False
    then have "quiet ?p \<lparr>px_st = Copying (cs @ rest), px_end = e, px_out = w1, px_shut = shut\<rparr>"
      "io_Copy cs EOF w1 = (res, w')"
      using Cons.prems w1 by (auto simp: quiet_def proxy_next_def split: outcome.splits)
    then show ?thesis using Cons.IH [of w1] by (meson converse_rtranclp_into_rtranclp)
  qed
qed

lemma quiet_partly:
  "\<exists>p. quiet\<^sup>*\<^sup>* (start_proxy cs e w shut) p \<and> px_out p = snd (io_Copy (take k cs) EOF w) \<and> px_shut p = shut"
  using quiet_copies [of "take k cs" w "fst (io_Copy (take k cs) EOF w)" "snd (io_Copy (take k cs) EOF w)" "drop k cs" e shut]
  by (fastforce simp: start_proxy_def)

lemma quiet_wholly:
  "quiet\<^sup>*\<^sup>* (start_proxy cs e w shut)
     \<lparr>px_st = Shut (fst (io_Copy cs e w)), px_end = e, px_out = snd (io_Copy cs e w), px_shut = True\<rparr>"
proof -
  obtain res w' where c: "io_Copy cs EOF w = (res, w')" by fastforce
  let ?copied = "\<lparr>px_st = Copied (fst (io_Copy cs e w)), px_end = e, px_out = snd (io_Copy cs e w), px_shut = shut\<rparr>"
  have all: "io_Copy cs e w = (case res of None \<Rightarrow> io_Copy [] e w' | Some err \<Rightarrow> (Some err, w'))"
    using io_Copy_append [of cs "[]" e w] c by simp
  have "quiet\<^sup>*\<^sup>* (start_proxy cs e w shut) ?copied"
  proof (cases res)
    case None
    then have "quiet\<^sup>*\<^sup>* (start_proxy cs e w shut) \<lparr>px_st = Copying [], px_end = e, px_out = w', px_shut = shut\<rparr>"
      using quiet_copies [OF c, of "[]" e shut] by (simp add: start_proxy_def)
    moreover have "quiet \<lparr>px_st = Copying [], px_end = e, px_out = w', px_shut = shut\<rparr> ?copied"
      using None all by (simp add: quiet_def proxy_next_def)
    ultimately show ?thesis by (rule rtranclp.rtrancl_into_rtrancl)
  next
    case (Some err)
    then show ?thesis
      using quiet_copies [OF c, of "[]" e shut] all by (simp add: start_proxy_def)
  qed
  moreover have "quiet ?copied
     \<lparr>px_st = Shut (fst (io_Copy cs e w)), px_end = e, px_out = snd (io_Copy cs e w), px_shut = True\<rparr>"
    by (simp add: quiet_def proxy_next_def)
  ultimately show ?thesis by (rule rtranclp.rtrancl_into_rtrancl)
qed

lemma quiet_up: "quiet\<^sup>*\<^sup>* p p' \<Longrightarrow> rr_res r = None \<Longrightarrow> relay_step\<^sup>*\<^sup>* (r\<lparr>rr_up := p\<rparr>) (r\<lparr>rr_up := p'\<rparr>)"
proof (induction rule: rtranclp_induct)
  case (step q q')
  have "relay_step (r\<lparr>rr_up := q\<rparr>) (r\<lparr>rr_up := q'\<rparr>)"
    using relay_step.up [of "r\<lparr>rr_up := q\<rparr>" q' "[]"] step by (simp add: quiet_def)
  then show ?case using step by (meson rtranclp.rtrancl_into_rtrancl)
qed simp

lemma quiet_down: "quiet\<^sup>*\<^sup>* p p' \<Longrightarrow> rr_res r = None \<Longrightarrow> relay_step\<^sup>*\<^sup>* (r\<lparr>rr_down := p\<rparr>) (r\<lparr>rr_down := p'\<rparr>)"
proof (induction rule: rtranclp_induct)
  case (step q q')
  have "relay_step (r\<lparr>rr_down := q\<rparr>) (r\<lparr>rr_down := q'\<rparr>)"
    using relay_step.down [of "r\<lparr>rr_down := q\<rparr>" q' "[]"] step by (simp add: quiet_def)
  then show ?case using step by (meson rtranclp.rtrancl_into_rtrancl)
qed simp

definition returns :: "relay_run \<Rightarrow> unit outcome \<Rightarrow> dialled \<times> socks_io \<Rightarrow> dialled \<Rightarrow> socks_io \<Rightarrow> bool" where
  "returns r res left target s \<longleftrightarrow>
     (\<exists>r'. relay_step\<^sup>*\<^sup>* r r' \<and> rr_res r' = Some res \<and> relay_left r' target s = left)"

lemma relay_left_simps [simp]:
  "relay_left (r\<lparr>rr_errs := es\<rparr>) target s = relay_left r target s"
  "relay_left (r\<lparr>rr_seen := n\<rparr>) target s = relay_left r target s"
  "relay_left (r\<lparr>rr_res := x\<rparr>) target s = relay_left r target s"
  by (simp_all add: relay_left_def)

lemma relay_left_up [simp]: "p = rr_up r \<Longrightarrow> relay_left (r\<lparr>rr_up := p\<lparr>px_st := st\<rparr>\<rparr>) target s = relay_left r target s"
  by (simp add: relay_left_def)

lemma relay_left_down [simp]: "p = rr_down r \<Longrightarrow> relay_left (r\<lparr>rr_down := p\<lparr>px_st := st\<rparr>\<rparr>) target s = relay_left r target s"
  by (simp add: relay_left_def)

lemma returns_step: "relay_step r r' \<Longrightarrow> returns r' res left target s \<Longrightarrow> returns r res left target s"
  by (auto simp: returns_def intro: converse_rtranclp_into_rtranclp)

lemma returns_steps: "relay_step\<^sup>*\<^sup>* r r' \<Longrightarrow> returns r' res left target s \<Longrightarrow> returns r res left target s"
  by (auto simp: returns_def intro: rtranclp_trans)

lemma returns_err:
  assumes "rr_res r = None" "rr_seen r < 2" "rr_errs r = Some e # es"
  shows "returns r (Err e) (relay_left r target s) target s"
  unfolding returns_def using relay_step.recv_err [OF assms] by (intro exI conjI, rule r_into_rtranclp) simp_all

lemma returns_ok:
  assumes "rr_res r = None" "\<not> rr_seen r < 2"
  shows "returns r (Ok ()) (relay_left r target s) target s"
  unfolding returns_def using relay_step.loop_ends [OF assms] by (intro exI conjI, rule r_into_rtranclp) simp_all

lemma returns_nil:
  assumes "rr_res r = None" "rr_seen r < 2" "rr_errs r = None # es"
    and "returns (r\<lparr>rr_errs := es, rr_seen := Suc (rr_seen r)\<rparr>) res left target s"
  shows "returns r res left target s"
  using relay_step.recv_nil [OF assms(1-3)] assms(4) by (rule returns_step)

definition first_error :: "go_error option \<Rightarrow> go_error option \<Rightarrow> unit outcome" where
  "first_error x y = (case x of Some e \<Rightarrow> Err e | None \<Rightarrow> (case y of Some e \<Rightarrow> Err e | None \<Rightarrow> Ok ()))"

lemma loop_returns:
  assumes "rr_res r = None" "rr_seen r = 0" "rr_errs r = [x, y]"
  shows "returns r (first_error x y) (relay_left r target s) target s"
proof (cases x)
  case (Some e)
  then show ?thesis using returns_err [of r e "[y]" target s] assms by (simp add: first_error_def)
next
  case None
  let ?r1 = "r\<lparr>rr_errs := [y], rr_seen := Suc (rr_seen r)\<rparr>"
  have "returns ?r1 (first_error x y) (relay_left r target s) target s"
  proof (cases y)
    case (Some e)
    then show ?thesis using returns_err [of ?r1 e "[]" target s] assms None by (simp add: first_error_def)
  next
    case y: None
    let ?r2 = "?r1\<lparr>rr_errs := [], rr_seen := Suc (rr_seen ?r1)\<rparr>"
    have "returns ?r2 (first_error x y) (relay_left r target s) target s"
      using returns_ok [of ?r2 target s] assms None y by (simp add: first_error_def)
    then show ?thesis using returns_nil [of ?r1 "[]"] assms y by simp
  qed
  then show ?thesis using returns_nil [of r "[y]"] assms None by simp
qed

lemma report_up:
  assumes "rr_res r = None" "px_st (rr_up r) = Shut x"
  shows "relay_step r (r\<lparr>rr_up := (rr_up r)\<lparr>px_st := Reported\<rparr>, rr_errs := rr_errs r @ [x]\<rparr>)"
  using assms by (intro relay_step.up) (simp_all add: proxy_next_def)

lemma report_down:
  assumes "rr_res r = None" "px_st (rr_down r) = Shut x"
  shows "relay_step r (r\<lparr>rr_down := (rr_down r)\<lparr>px_st := Reported\<rparr>, rr_errs := rr_errs r @ [x]\<rparr>)"
  using assms by (intro relay_step.down) (simp_all add: proxy_next_def)

lemma up_fails_first:
  assumes "rr_res r = None" "rr_seen r = 0" "rr_errs r = []" "px_st (rr_up r) = Shut (Some e)"
  shows "returns r (Err e) (relay_left r target s) target s"
proof (rule returns_step [OF report_up [OF assms(1,4)]])
  let ?r1 = "r\<lparr>rr_up := (rr_up r)\<lparr>px_st := Reported\<rparr>, rr_errs := rr_errs r @ [Some e]\<rparr>"
  show "returns ?r1 (Err e) (relay_left r target s) target s"
    using returns_err [of ?r1 e "[]" target s] assms by simp
qed

lemma down_fails_first:
  assumes "rr_res r = None" "rr_seen r = 0" "rr_errs r = []" "px_st (rr_down r) = Shut (Some e)"
  shows "returns r (Err e) (relay_left r target s) target s"
proof (rule returns_step [OF report_down [OF assms(1,4)]])
  let ?r1 = "r\<lparr>rr_down := (rr_down r)\<lparr>px_st := Reported\<rparr>, rr_errs := rr_errs r @ [Some e]\<rparr>"
  show "returns ?r1 (Err e) (relay_left r target s) target s"
    using returns_err [of ?r1 e "[]" target s] assms by simp
qed

lemma both_end:
  assumes "rr_res r = None" "rr_seen r = 0" "rr_errs r = []" "px_st (rr_up r) = Shut x" "px_st (rr_down r) = Shut y"
  shows "returns r (if u then first_error x y else first_error y x) (relay_left r target s) target s"
proof (cases u)
  case True
  let ?r1 = "r\<lparr>rr_up := (rr_up r)\<lparr>px_st := Reported\<rparr>, rr_errs := [x]\<rparr>"
  let ?r2 = "?r1\<lparr>rr_down := (rr_down r)\<lparr>px_st := Reported\<rparr>, rr_errs := [x, y]\<rparr>"
  have "relay_step r ?r1" "relay_step ?r1 ?r2"
    using report_up [of r x] report_down [of ?r1 y] assms by simp_all
  moreover have "returns ?r2 (first_error x y) (relay_left r target s) target s"
    using loop_returns [of ?r2 x y target s] assms by simp
  ultimately show ?thesis using True by (simp add: returns_step)
next
  case False
  let ?r1 = "r\<lparr>rr_down := (rr_down r)\<lparr>px_st := Reported\<rparr>, rr_errs := [y]\<rparr>"
  let ?r2 = "?r1\<lparr>rr_up := (rr_up r)\<lparr>px_st := Reported\<rparr>, rr_errs := [y, x]\<rparr>"
  have "relay_step r ?r1" "relay_step ?r1 ?r2"
    using report_down [of r y] report_up [of ?r1 x] assms by simp_all
  moreover have "returns ?r2 (first_error y x) (relay_left r target s) target s"
    using loop_returns [of ?r2 y x target s] assms by simp
  ultimately show ?thesis using False by (simp add: returns_step)
qed

lemma both_move:
  assumes "quiet\<^sup>*\<^sup>* (rr_up r) p" "quiet\<^sup>*\<^sup>* (rr_down r) q" "rr_res r = None"
  shows "relay_step\<^sup>*\<^sup>* r (r\<lparr>rr_up := p, rr_down := q\<rparr>)"
proof -
  have "relay_step\<^sup>*\<^sup>* (r\<lparr>rr_up := rr_up r\<rparr>) (r\<lparr>rr_up := p\<rparr>)"
    by (rule quiet_up [OF assms(1,3)])
  moreover have "relay_step\<^sup>*\<^sup>* (r\<lparr>rr_up := p, rr_down := rr_down r\<rparr>) (r\<lparr>rr_up := p, rr_down := q\<rparr>)"
    using quiet_down [OF assms(2), of "r\<lparr>rr_up := p\<rparr>"] assms(3) by simp
  ultimately show ?thesis by simp
qed

lemma relay_returned:
  assumes "relay (scheduled env u k l) target s = (res, out)"
  shows "returns (start_relay env target s) res out target s"
proof -
  let ?r = "start_relay env target s"
  let ?up = "net_chunks env (rd_data (sk_in s))" and ?down = "net_chunks env (rd_data (tg_in target))"
  let ?c1 = "io_Copy ?up (rd_end (sk_in s)) (tg_out target)"
  let ?c2 = "io_Copy ?down (rd_end (tg_in target)) (sk_out s)"
  let ?p1 = "\<lparr>px_st = Shut (fst ?c1), px_end = rd_end (sk_in s), px_out = snd ?c1, px_shut = True\<rparr>"
  let ?p2 = "\<lparr>px_st = Shut (fst ?c2), px_end = rd_end (tg_in target), px_out = snd ?c2, px_shut = True\<rparr>"
  have q1: "quiet\<^sup>*\<^sup>* (rr_up ?r) ?p1" and q2: "quiet\<^sup>*\<^sup>* (rr_down ?r) ?p2"
    using quiet_wholly by (simp_all add: start_relay_def)
  have r: "rr_res ?r = None" "rr_seen ?r = 0" "rr_errs ?r = []"
    by (simp_all add: start_relay_def)
  consider (ends) "(if u then fst ?c1 else fst ?c2) = None"
    | (up) e where "u" "fst ?c1 = Some e" | (down) e where "\<not> u" "fst ?c2 = Some e"
    by (cases u; cases "if u then fst ?c1 else fst ?c2") auto
  then show ?thesis
  proof cases
    case ends
    let ?r1 = "?r\<lparr>rr_up := ?p1, rr_down := ?p2\<rparr>"
    have "res = (if u then first_error (fst ?c1) (fst ?c2) else first_error (fst ?c2) (fst ?c1))"
      "out = relay_left ?r1 target s"
      using assms ends by (auto simp: relay_def Let_def split_beta first_error_def relay_left_def split: if_splits)
    then have "returns ?r1 res out target s"
      using both_end [of ?r1 "fst ?c1" "fst ?c2" u target s] r by simp
    then show ?thesis by (rule returns_steps [OF both_move [OF q1 q2 r(1)]])
  next
    case (up e)
    obtain p where p: "quiet\<^sup>*\<^sup>* (rr_down ?r) p" "px_out p = snd (io_Copy (take k ?down) EOF (sk_out s))" "px_shut p = sk_shut s"
      using quiet_partly [of ?down "rd_end (tg_in target)" "sk_out s" "sk_shut s" k] by (auto simp: start_relay_def)
    let ?p = "if l then ?p2 else p"
    let ?r1 = "?r\<lparr>rr_up := ?p1, rr_down := ?p\<rparr>"
    have "quiet\<^sup>*\<^sup>* (rr_down ?r) ?p" using p(1) q2 by simp
    moreover have "res = Err e" "out = relay_left ?r1 target s"
      using assms up p by (auto simp: relay_def Let_def split_beta relay_left_def)
    then have "returns ?r1 res out target s"
      using up_fails_first [of ?r1 e target s] r up by simp
    ultimately show ?thesis using returns_steps [OF both_move [OF q1 _ r(1)]] by blast
  next
    case (down e)
    obtain p where p: "quiet\<^sup>*\<^sup>* (rr_up ?r) p" "px_out p = snd (io_Copy (take k ?up) EOF (tg_out target))" "px_shut p = tg_shut target"
      using quiet_partly [of ?up "rd_end (sk_in s)" "tg_out target" "tg_shut target" k] by (auto simp: start_relay_def)
    let ?p = "if l then ?p1 else p"
    let ?r1 = "?r\<lparr>rr_up := ?p, rr_down := ?p2\<rparr>"
    have "quiet\<^sup>*\<^sup>* (rr_up ?r) ?p" using p(1) q1 by simp
    moreover have "res = Err e" "out = relay_left ?r1 target s"
      using assms down p by (auto simp: relay_def Let_def split_beta relay_left_def)
    then have "returns ?r1 res out target s"
      using down_fails_first [of ?r1 e target s] r down by simp
    ultimately show ?thesis using returns_steps [OF both_move [OF _ q2 r(1)]] by blast
  qed
qed

section \<open>Every run returns\<close>

definition proxy_left_steps :: "proxy_state \<Rightarrow> nat" where
  "proxy_left_steps st = (case st of Copying cs \<Rightarrow> length cs + 4 | Copied _ \<Rightarrow> 3 | Shut _ \<Rightarrow> 2 | Reported \<Rightarrow> 0)"

definition relay_left_steps :: "relay_run \<Rightarrow> nat" where
  "relay_left_steps r = proxy_left_steps (px_st (rr_up r)) + proxy_left_steps (px_st (rr_down r))
     + length (rr_errs r) + (if rr_res r = None then 1 else 0)"

lemma proxy_next_decreases:
  "px_st p \<noteq> Reported \<Longrightarrow> proxy_next p = (p', es) \<Longrightarrow>
   proxy_left_steps (px_st p') + length es < proxy_left_steps (px_st p)"
  by (auto simp: proxy_next_def proxy_left_steps_def split: proxy_state.splits list.splits prod.splits outcome.splits)

lemma relay_step_decreases: "relay_step r r' \<Longrightarrow> relay_left_steps r' < relay_left_steps r"
  by (induction rule: relay_step.induct)
    (use proxy_next_decreases in \<open>fastforce simp: relay_left_steps_def\<close>)+

lemma relay_steps_bound: "(relay_step ^^ n) r r' \<Longrightarrow> n + relay_left_steps r' \<le> relay_left_steps r"
proof (induction n arbitrary: r')
  case (Suc n)
  then obtain q where "(relay_step ^^ n) r q" "relay_step q r'" by auto
  then show ?case using Suc.IH [of q] relay_step_decreases [of q r'] by simp
qed simp

lemma relay_progress:
  assumes "relay_ok env target s r" "rr_res r = None"
  shows "\<exists>r'. relay_step r r'"
proof (cases "px_st (rr_up r) = Reported \<and> px_st (rr_down r) = Reported")
  case True
  then have n: "rr_seen r + length (rr_errs r) = 2"
    using assms by (auto simp: relay_ok_def Let_def relay_reports_def dest!: arrivals_length)
  show ?thesis
  proof (cases "rr_errs r")
    case Nil
    then show ?thesis using n relay_step.loop_ends [OF assms(2)] by fastforce
  next
    case (Cons x es)
    then show ?thesis
      using n relay_step.recv_nil [OF assms(2), of es] relay_step.recv_err [OF assms(2), of _ es]
      by (cases x) fastforce+
  qed
next
  case False
  then show ?thesis
    using relay_step.up [OF assms(2)] relay_step.down [OF assms(2)] by (metis surj_pair)
qed

text \<open>C24. The goroutines of a relay, interleaved at will: the handler of a connect request can return
  a result, leaving the target and the client as they are then, exactly when \<open>relay\<close> yields it
  for some choice of the copy that reports first, of how far the other one has come, and of whether
  that one has shut its destination. So no schedule loses, duplicates or reorders a chunk, an error
  of either copy is never taken for success, and success means both streams were relayed whole.\<close>

theorem relay_is_interleaving:
  "(\<exists>r. relay_step\<^sup>*\<^sup>* (start_relay env target s) r \<and> rr_res r = Some res \<and>
        relay_left r target s = (target', s')) \<longleftrightarrow>
   (\<exists>u k l. relay (env\<lparr>net_up_first := u, net_cut := k, net_late := l\<rparr>) target s = (res, target', s'))"
proof
  assume "\<exists>r. relay_step\<^sup>*\<^sup>* (start_relay env target s) r \<and> rr_res r = Some res \<and>
    relay_left r target s = (target', s')"
  then obtain r where r: "relay_step\<^sup>*\<^sup>* (start_relay env target s) r" "rr_res r = Some res"
    "relay_left r target s = (target', s')"
    by blast
  then show "\<exists>u k l. relay (scheduled env u k l) target s = (res, target', s')"
    using relay_ok_outcome [OF relay_steps_ok [OF r(1) start_relay_ok] r(2)] by simp
next
  assume "\<exists>u k l. relay (scheduled env u k l) target s = (res, target', s')"
  then have "returns (start_relay env target s) res (target', s') target s"
    using relay_returned by blast
  then show "\<exists>r. relay_step\<^sup>*\<^sup>* (start_relay env target s) r \<and> rr_res r = Some res \<and>
    relay_left r target s = (target', s')"
    by (simp add: returns_def)
qed

text \<open>C25. A relay of two streams that end always returns, whatever the schedule and the failures of
  the writers: no run is longer than the two streams' chunks and nine further steps, and a run in which
  the handler has not returned can go on.\<close>

theorem relay_always_returns:
  assumes "(relay_step ^^ n) (start_relay env target s) r"
  shows "n \<le> length (net_chunks env (rd_data (sk_in s))) + length (net_chunks env (rd_data (tg_in target))) + 9 \<and>
    (rr_res r = None \<longleftrightarrow> (\<exists>r'. relay_step r r'))"
proof
  have "relay_left_steps (start_relay env target s) =
      length (net_chunks env (rd_data (sk_in s))) + length (net_chunks env (rd_data (tg_in target))) + 9"
    by (simp add: relay_left_steps_def start_relay_def start_proxy_def proxy_left_steps_def)
  then show "n \<le> length (net_chunks env (rd_data (sk_in s))) + length (net_chunks env (rd_data (tg_in target))) + 9"
    using relay_steps_bound [OF assms] by simp
next
  have "relay_ok env target s r"
    using relay_steps_ok [OF _ start_relay_ok] assms by (meson relpowp_imp_rtranclp)
  moreover have "\<And>r'. relay_step r r' \<Longrightarrow> rr_res r = None"
    by (erule relay_step.cases) simp_all
  ultimately show "rr_res r = None \<longleftrightarrow> (\<exists>r'. relay_step r r')"
    using relay_progress by blast
qed

text \<open>Two bytes from the client, one from the target, each a chunk of its own.\<close>

definition demo_relay_env :: net_env where
  "demo_relay_env = \<lparr>net_ResolveIPAddr = (\<lambda>_. Inl EOF), net_Dial = (\<lambda>_. Inl EOF),
     net_chunks = map (\<lambda>b. [b]), net_up_first = True, net_cut = 0, net_late = False\<rparr>"

definition demo_relay_target :: dialled where
  "demo_relay_target = \<lparr>tg_local = None, tg_in = \<lparr>rd_data = [9], rd_end = EOF\<rparr>, tg_out = fresh_writer,
     tg_shut = False, tg_closed = False\<rparr>"

definition demo_relay_io :: socks_io where
  "demo_relay_io = new_socks_io \<lparr>rd_data = [1, 2], rd_end = EOF\<rparr> fresh_writer"

theorem relay_always_returns_witness:
  "\<exists>n r. (relay_step ^^ n) (start_relay demo_relay_env demo_relay_target demo_relay_io) r
     \<and> rr_res r = Some (Ok ()) \<and> wr_out (px_out (rr_up r)) = [1, 2] \<and> n \<le> 12"
proof -
  let ?start = "start_relay demo_relay_env demo_relay_target demo_relay_io"
  let ?out = "(demo_relay_target\<lparr>tg_out := fresh_writer\<lparr>wr_out := [1, 2], wr_cnt := 2\<rparr>, tg_shut := True\<rparr>,
      demo_relay_io\<lparr>sk_out := fresh_writer\<lparr>wr_out := [9], wr_cnt := 1\<rparr>, sk_shut := True\<rparr>)"
  have "relay (scheduled demo_relay_env True 0 False) demo_relay_target demo_relay_io = (Ok (), ?out)"
    by (simp add: relay_def demo_relay_env_def demo_relay_target_def demo_relay_io_def new_socks_io_def
        fresh_writer_def wr_write_def)
  from relay_returned [OF this] obtain r where r: "relay_step\<^sup>*\<^sup>* ?start r" "rr_res r = Some (Ok ())"
    "relay_left r demo_relay_target demo_relay_io = ?out"
    by (auto simp: returns_def)
  moreover obtain n where "(relay_step ^^ n) ?start r"
    using r(1) by (meson rtranclp_imp_relpowp)
  moreover note relay_always_returns [OF this]
  moreover have "wr_out (px_out (rr_up r)) = [1, 2]"
    using arg_cong [OF r(3), of "\<lambda>p. wr_out (tg_out (fst p))"] by (simp add: relay_left_def)
  ultimately show ?thesis
    by (auto simp: demo_relay_env_def demo_relay_target_def demo_relay_io_def new_socks_io_def)
qed

end
