(* ===== verification/SocksWire.thy ===== *)
theory SocksWire
  imports SocksProps
begin

text \<open>
  The language of requests: the grammar of RFC 1928 as an inductive relation between an address and
  its bytes, and that the parser accepts exactly that.
\<close>

inductive on_wire :: "addr_spec \<Rightarrow> bytes \<Rightarrow> bool" where
  v4: "length ip = 4 \<Longrightarrow> length p = 2 \<Longrightarrow> on_wire \<lparr>FQDN = [], ad_IP = ip, ad_Port = of_be16 p\<rparr> (1 # ip @ p)"
| v6: "length ip = 16 \<Longrightarrow> length p = 2 \<Longrightarrow> on_wire \<lparr>FQDN = [], ad_IP = ip, ad_Port = of_be16 p\<rparr> (4 # ip @ p)"
| name: "length n = unat k \<Longrightarrow> length p = 2 \<Longrightarrow>
    on_wire \<lparr>FQDN = string_of_bytes n, ad_IP = [], ad_Port = of_be16 p\<rparr> (3 # k # n @ p)"

inductive_cases on_wireE: "on_wire a bs"

lemma port_bytes: "length p = 2 \<Longrightarrow> \<exists>x y. p = [x, y]"
  by (auto simp: length_Suc_conv numeral_2_eq_2)

lemma readAddrSpec_wire:
  assumes "on_wire a bs"
  shows "readAddrSpec \<lparr>rd_data = bs @ rest, rd_end = e\<rparr> = (Ok a, \<lparr>rd_data = rest, rd_end = e\<rparr>)"
  using assms
  by (cases rule: on_wire.cases) (auto simp: readAddrSpec_def address_types go_simps go_return_def)

lemma read_full_used: "read_full n r = (Ok xs, r') \<Longrightarrow> rd_data r = xs @ rd_data r' \<and> length xs = n"
  by (simp add: read_full_OkD)

lemma readAddrSpec_OkD:
  assumes "readAddrSpec r = (Ok a, r')"
  shows "\<exists>bs. on_wire a bs \<and> rd_data r = bs @ rd_data r'"
proof -
  obtain t r1 d r2 p where t: "rd_data r = t # rd_data r1" and p: "length p = 2" "rd_data r2 = p @ rd_data r'"
    and a: "a = d\<lparr>ad_Port := of_be16 p\<rparr>"
    and d: "(if t = 1 then go_bind (read_full 4) (\<lambda>addr. go_return \<lparr>FQDN = [], ad_IP = addr, ad_Port = 0\<rparr>)
        else if t = 4 then go_bind (read_full 16) (\<lambda>addr. go_return \<lparr>FQDN = [], ad_IP = addr, ad_Port = 0\<rparr>)
        else if t = 3 then go_bind read_one (\<lambda>n. go_bind (read_full (unat n)) (\<lambda>fqdn.
             go_return \<lparr>FQDN = string_of_bytes fqdn, ad_IP = [], ad_Port = 0\<rparr>))
        else go_fail UnrecognizedAddrType) r1 = (Ok d, r2)"
    using assms unfolding readAddrSpec_def address_types
    by (auto simp: go_return_def elim!: go_bind_OkE dest!: read_one_OkD read_full_used)
  from d consider
      (v4) ip where "t = 1" "d = \<lparr>FQDN = [], ad_IP = ip, ad_Port = 0\<rparr>" "length ip = 4" "rd_data r1 = ip @ rd_data r2"
    | (v6) ip where "t = 4" "d = \<lparr>FQDN = [], ad_IP = ip, ad_Port = 0\<rparr>" "length ip = 16" "rd_data r1 = ip @ rd_data r2"
    | (name) k n where "t = 3" "d = \<lparr>FQDN = string_of_bytes n, ad_IP = [], ad_Port = 0\<rparr>" "length n = unat k"
        "rd_data r1 = k # n @ rd_data r2"
    by (auto simp: go_return_def go_fail_def split: if_splits elim!: go_bind_OkE dest!: read_one_OkD read_full_used)
  then show ?thesis
  proof cases
    case v4
    with t p a on_wire.v4 [of ip p] show ?thesis by auto
  next
    case v6
    with t p a on_wire.v6 [of ip p] show ?thesis by auto
  next
    case name
    with t p a on_wire.name [of n k p] show ?thesis by auto
  qed
qed

lemma readAddrSpec_iff:
  "readAddrSpec r = (Ok a, r') \<longleftrightarrow>
     (\<exists>bs. on_wire a bs \<and> rd_data r = bs @ rd_data r') \<and> rd_end r' = rd_end r"
  (is "?L \<longleftrightarrow> ?R")
proof
  assume ?L
  then show ?R using readAddrSpec_OkD addr_reader.keeps_end by metis
next
  assume ?R
  then obtain bs where "on_wire a bs" "rd_data r = bs @ rd_data r'" "rd_end r' = rd_end r" by blast
  then show ?L using readAddrSpec_wire [of a bs "rd_data r'" "rd_end r"] by (cases r; cases r') simp
qed

text \<open>The header in front of the address.\<close>

lemma NewRequest_iff_header:
  "NewRequest r = (Ok req, r') \<longleftrightarrow>
    (\<exists>cmd rsv a r1. read_full 3 r = (Ok [5, cmd, rsv], r1) \<and> readAddrSpec r1 = (Ok a, r')
      \<and> req = \<lparr>rq_Version = 5, rq_Command = cmd, rq_AuthContext = None, rq_RemoteAddr = None,
          rq_DestAddr = a, rq_realDestAddr = None\<rparr>)"
  (is "?L \<longleftrightarrow> ?R")
proof
  assume ?L
  then obtain h r1 a where h: "read_full 3 r = (Ok h, r1)" "h ! 0 = 5" and a: "readAddrSpec r1 = (Ok a, r')"
    and req: "req = \<lparr>rq_Version = 5, rq_Command = h ! 1, rq_AuthContext = None, rq_RemoteAddr = None,
          rq_DestAddr = a, rq_realDestAddr = None\<rparr>"
    by (auto simp: NewRequest_def socks5Version_def go_return_def go_fail_def split: if_splits
        elim!: go_bind_OkE dest!: go_wrap_OkE)
  have "length h = 3" using h(1) by (rule read_full_OkD)
  then obtain x y z where "h = [x, y, z]" by (auto simp: length_Suc_conv numeral_3_eq_3)
  with h a req show ?R by auto
next
  assume ?R
  then show ?L by (auto simp: NewRequest_def socks5Version_def go_simps)
qed

text \<open>C26. The requests the proxy accepts are exactly those of the grammar of RFC 1928: version 5, a
  command, a reserved byte and an address in one of the three forms, read to its last byte and
  not beyond. What it accepts is thus always an address of 4 or 16 bytes, or a name, with a port
  of two bytes; anything else is refused. (A name of length zero is in the grammar.)\<close>

theorem request_language:
  "NewRequest r = (Ok req, r') \<longleftrightarrow>
    (\<exists>cmd rsv a bs. on_wire a bs \<and> rd_data r = [5, cmd, rsv] @ bs @ rd_data r'
      \<and> req = \<lparr>rq_Version = 5, rq_Command = cmd, rq_AuthContext = None, rq_RemoteAddr = None,
          rq_DestAddr = a, rq_realDestAddr = None\<rparr>) \<and> rd_end r' = rd_end r"
  (is "_ = (?G \<and> _)")
proof
  assume L: "NewRequest r = (Ok req, r')"
  with NewRequest_iff_header obtain cmd rsv a r1 where h: "read_full 3 r = (Ok [5, cmd, rsv], r1)"
    and a: "readAddrSpec r1 = (Ok a, r')" and req: "req = \<lparr>rq_Version = 5, rq_Command = cmd,
      rq_AuthContext = None, rq_RemoteAddr = None, rq_DestAddr = a, rq_realDestAddr = None\<rparr>" by metis
  from a readAddrSpec_iff obtain bs where bs: "on_wire a bs" "rd_data r1 = bs @ rd_data r'" by metis
  have "rd_data r = [5, cmd, rsv] @ bs @ rd_data r'" using read_full_OkD(1) [OF h] bs(2) by simp
  with bs(1) req have ?G by blast
  with request_reader.keeps_end [OF L] show "?G \<and> rd_end r' = rd_end r" by blast
next
  assume R: "?G \<and> rd_end r' = rd_end r"
  then obtain cmd rsv a bs where bs: "on_wire a bs" and r: "rd_data r = [5, cmd, rsv] @ bs @ rd_data r'"
    and req: "req = \<lparr>rq_Version = 5, rq_Command = cmd, rq_AuthContext = None, rq_RemoteAddr = None,
          rq_DestAddr = a, rq_realDestAddr = None\<rparr>" by blast
  let ?r1 = "\<lparr>rd_data = bs @ rd_data r', rd_end = rd_end r\<rparr>"
  have "read_full 3 r = (Ok [5, cmd, rsv], ?r1)"
    using read_full_append [of "[5, cmd, rsv]" 3 "bs @ rd_data r'" "rd_end r"] r by (cases r) simp
  moreover have "readAddrSpec ?r1 = (Ok a, r')"
    unfolding readAddrSpec_iff using bs R by auto
  ultimately show "NewRequest r = (Ok req, r')" unfolding NewRequest_iff_header using req by blast
qed

end
