(* ===== verification/TextCodes.thy ===== *)
theory TextCodes
  imports Prelude
begin

text \<open>
  \<open>utils/hash.go\<close>: \<open>Hex\<close> and \<open>B64\<close>, the two texts of a digest, with the encoders of \<open>encoding/hex\<close> and
  \<open>base64.RawStdEncoding\<close> (no padding) written out.
\<close>

definition hex_digits :: string where
  "hex_digits = ''0123456789abcdef''"

definition Hex :: "bytes \<Rightarrow> string" where
  "Hex inp = concat (map (\<lambda>b. [hex_digits ! (unat b div 16), hex_digits ! (unat b mod 16)]) inp)"

definition b64_digits :: string where
  "b64_digits = ''ABCDEFGHIJKLMNOPQRSTUVWXYZabcdefghijklmnopqrstuvwxyz0123456789+/''"

text \<open>Three bytes are four groups of six bits; what is short of three bytes is filled with zero bits.\<close>

fun sextets :: "nat list \<Rightarrow> nat list" where
  "sextets (a # b # c # rest) =
     a div 4 # ((a mod 4) * 16 + b div 16) # ((b mod 16) * 4 + c div 64) # c mod 64 # sextets rest"
| "sextets [a, b] = [a div 4, ((a mod 4) * 16 + b div 16), (b mod 16) * 4]"
| "sextets [a] = [a div 4, (a mod 4) * 16]"
| "sextets [] = []"

definition B64 :: "bytes \<Rightarrow> string" where
  "B64 inp = map ((!) b64_digits) (sextets (map unat inp))"

section \<open>Reading the texts back\<close>

definition position :: "string \<Rightarrow> char \<Rightarrow> nat" where
  "position alphabet c = length (takeWhile (\<lambda>d. d \<noteq> c) alphabet)"

lemma position_nth:
  assumes "distinct alphabet" "n < length alphabet"
  shows "position alphabet (alphabet ! n) = n"
proof -
  have "takeWhile (\<lambda>d. d \<noteq> alphabet ! n) alphabet = take n alphabet"
    by (rule takeWhile_eq_take_P_nth) (use assms in \<open>auto simp: nth_eq_iff_index_eq\<close>)
  then show ?thesis using assms by (simp add: position_def)
qed

lemma hex_digits_ok: "distinct hex_digits" "length hex_digits = 16"
  by (simp_all add: hex_digits_def)

lemma b64_digits_ok: "distinct b64_digits" "length b64_digits = 64"
  by (simp_all add: b64_digits_def)

fun unhex :: "string \<Rightarrow> bytes" where
  "unhex (c # d # rest) = of_nat (position hex_digits c * 16 + position hex_digits d) # unhex rest"
| "unhex _ = []"

fun unsextets :: "nat list \<Rightarrow> nat list" where
  "unsextets (p # q # r # s # rest) =
     (p * 4 + q div 16) # ((q mod 16) * 16 + r div 4) # ((r mod 4) * 64 + s) # unsextets rest"
| "unsextets [p, q, r] = [(p * 4 + q div 16), ((q mod 16) * 16 + r div 4)]"
| "unsextets [p, q] = [(p * 4 + q div 16)]"
| "unsextets _ = []"

definition unb64 :: "string \<Rightarrow> bytes" where
  "unb64 s = map of_nat (unsextets (map (position b64_digits) s))"

lemma byte_unat_less [simp]: "unat (b :: u8) < 256"
  using unsigned_less [of b] by simp

lemma unhex_Hex: "unhex (Hex bs) = bs"
proof (induction bs)
  case (Cons b bs)
  have "unat b div 16 < 16" using byte_unat_less [of b] by (simp add: less_mult_imp_div_less)
  with Cons show ?case by (simp add: Hex_def position_nth hex_digits_ok)
qed (simp add: Hex_def)

lemma regroup:
  assumes "(n :: nat) < 256"
  shows "n div 16 div 16 = 0" "n mod 16 + 16 * (n div 16 mod 16) = n"
    "n div 64 div 4 = 0" "n mod 64 + 64 * (n div 64 mod 4) = n"
proof -
  have "n div 16 < 16" "n div 64 < 4" using assms by (simp_all add: less_mult_imp_div_less)
  then show "n div 16 div 16 = 0" "n mod 16 + 16 * (n div 16 mod 16) = n"
    "n div 64 div 4 = 0" "n mod 64 + 64 * (n div 64 mod 4) = n" by simp_all
qed

lemma unsextets_sextets: "\<forall>n \<in> set ns. n < 256 \<Longrightarrow> unsextets (sextets ns) = ns"
  by (induction ns rule: sextets.induct) (simp_all add: regroup algebra_simps)

lemma sextets_bound: "\<forall>n \<in> set ns. n < 256 \<Longrightarrow> n \<in> set (sextets ns) \<Longrightarrow> n < 64"
  by (induction ns rule: sextets.induct) auto

lemma unb64_B64: "unb64 (B64 bs) = bs"
proof -
  have "map (position b64_digits) (B64 bs) = sextets (map unat bs)"
    using sextets_bound [of "map unat bs"]
    by (auto simp: B64_def comp_def position_nth b64_digits_ok intro!: map_idI)
  then show ?thesis by (simp add: unb64_def unsextets_sextets comp_def)
qed

lemma length_Hex: "length (Hex bs) = 2 * length bs"
  by (induction bs) (simp_all add: Hex_def)

lemma length_B64: "length (B64 bs) = (4 * length bs + 2) div 3"
proof -
  have "length (sextets ns) = (4 * length ns + 2) div 3" for ns
    by (induction ns rule: sextets.induct) auto
  then show ?thesis by (simp add: B64_def)
qed

end
