(* ===== verification/Transport.thy ===== *)
theory Transport
  imports ServerConn ClientConn Fixtures
begin

text \<open>
  The two ends of a connection together. With the same key string both ends derive the same
  cipher, and what one end's writing goroutine sends, message by message, the other end's reading
  loop hands to its handler, in order and unchanged. Then what each end accepts, and where the
  16-bit length field sets the limit.
\<close>

section \<open>Both ends derive the same cipher\<close>

lemma crypto_agree:
  assumes lib: "crypto_ok lib" and key: "cc_key cc = sc_key sc"
    and plain: "cc_aesgcm cc = None" "sc_aesgcm sc = None"
  shows "\<exists>a. sc_crypto lib sc = (None, sc\<lparr>sc_aesgcm := a\<rparr>)
    \<and> cc_crypto lib cc = (None, cc\<lparr>cc_aesgcm := a\<rparr>)
    \<and> (\<forall>g. a = Some g \<longrightarrow> aead_ok g) \<and> (a = None \<longleftrightarrow> sc_key sc = [])"
proof (cases "sc_key sc = []")
  case True
  with key plain have "sc_crypto lib sc = (None, sc\<lparr>sc_aesgcm := None\<rparr>)"
    "cc_crypto lib cc = (None, cc\<lparr>cc_aesgcm := None\<rparr>)"
    by (simp_all add: sc_crypto_def cc_crypto_def)
  with True show ?thesis by (intro exI [of _ None]) simp
next
  case False
  obtain a where "makeAES128GCM lib (sc_key sc) = Inr a" "aead_ok a"
    using makeAES_total [OF lib] by blast
  with False key show ?thesis
    by (intro exI [of _ "Some a"]) (simp add: sc_crypto_def cc_crypto_def)
qed

definition short_data :: "bytes \<Rightarrow> bool" where
  "short_data d \<longleftrightarrow> length d + 16 < 65536"

lemma short_data_fits:
  "short_data d \<Longrightarrow> (\<And>g. a = Some g \<Longrightarrow> aead_ok g) \<Longrightarrow> length n = nonce_len a \<Longrightarrow> frame_fits a n d"
  by (auto simp: short_data_def frame_fits_def nonce_len_def split: option.splits)

lemma frames_fit:
  assumes "\<And>g. a = Some g \<Longrightarrow> aead_ok g" and "list_all short_data ds"
    and "\<forall>n \<in> set ns. length n = nonce_len a"
  shows "\<forall>(n, d) \<in> set (zip ns ds). frame_fits a n d"
  using assms by (auto simp: list_all_iff dest: set_zip_leftD set_zip_rightD intro!: short_data_fits)

section \<open>Both ends run the same routine\<close>

lemma decode_frame_errors:
  "decode_frame e a r = (case decode_frame e' a r of
     (Err x, r') \<Rightarrow> (Err (if x = e' then e else x), r') | res \<Rightarrow> res)"
  if "e' \<noteq> rd_end r" "e' \<noteq> ErrUnexpectedEOF"
  using that unfolding decode_frame_def
  by (auto simp: go_bind_def read_full_def go_basic_defs split: option.splits)

text \<open>C17. The client's \<open>write\<close> and \<open>read\<close> and the server's, two copies of one routine, agree: from
  the same cipher, stream and entropy they put the same bytes on the stream with the same result,
  failed writes included, and they read the same data and leave the same rest; a body that does
  not open is the only result they name differently.\<close>

theorem ends_agree:
  assumes cipher: "sc_aesgcm sc = cc_aesgcm cc" and stream: "sc_conn sc = cc_conn cc"
    and bufs: "sc_buf_ok sc" "cc_buf_ok cc" and live: "rd_end r \<noteq> ErrCiperNotMatch"
  shows "fst (sc_write d (sc, rand)) = fst (cc_write d (cc, rand))
    \<and> sc_conn (fst (snd (sc_write d (sc, rand)))) = cc_conn (fst (snd (cc_write d (cc, rand))))
    \<and> snd (snd (sc_write d (sc, rand))) = snd (snd (cc_write d (cc, rand)))
    \<and> cc_read cc r = (case sc_read sc r of
        (Err e, r') \<Rightarrow> (Err (if e = ErrCiperNotMatch then errOpen else e), r') | res \<Rightarrow> res)"
proof -
  have "cc_read cc r = (case sc_read sc r of
      (Err e, r') \<Rightarrow> (Err (if e = ErrCiperNotMatch then errOpen else e), r') | res \<Rightarrow> res)"
    unfolding sc_read_spec [OF bufs(1)] cc_read_spec [OF bufs(2)] cipher
    by (rule decode_frame_errors) (use live in auto)
  then show ?thesis
    using cipher stream
    by (auto simp: sc_write_def cc_write_def sc_flush_def cc_flush_def Let_def
        split: option.splits prod.splits outcome.splits)
qed

section \<open>From the client to the server\<close>

lemma client_to_server_run:
  assumes lib: "crypto_ok lib" and key: "cc_key cc = sc_key sc"
    and new: "cc_aesgcm cc = None" "sc_aesgcm sc = None" "sc_buf_ok sc"
    and ready: "cc_ready cc" "cc_out cc = []"
    and short: "list_all short_data ds"
    and rand: "length ds * nonce_len (cc_aesgcm (snd (cc_crypto lib cc))) \<le> length (rd_data rand)"
    and handler: "deliver f ds st = (Ok (), st')"
  shows "\<exists>cc' rand'. write_seq cc_write ds (snd (cc_crypto lib cc), rand) = (Ok (), (cc', rand'))
    \<and> sc_read_loop (Some f) (snd (sc_crypto lib sc)) \<lparr>rd_data = cc_out cc', rd_end = EOF\<rparr> st
      = (Err EOF, \<lparr>rd_data = [], rd_end = EOF\<rparr>, st')"
proof -
  obtain a where a: "sc_crypto lib sc = (None, sc\<lparr>sc_aesgcm := a\<rparr>)"
    "cc_crypto lib cc = (None, cc\<lparr>cc_aesgcm := a\<rparr>)" "\<And>g. a = Some g \<Longrightarrow> aead_ok g"
    using crypto_agree [OF lib key new(1,2)] by blast
  let ?cc = "cc\<lparr>cc_aesgcm := a\<rparr>" and ?sc = "sc\<lparr>sc_aesgcm := a\<rparr>"
  have "cc_ready ?cc" "cc_out ?cc = []" using ready by (simp_all add: cc_ready_def cc_out_def)
  with cli_writer.write_seq_frames [of ?cc ds rand] rand a(2) obtain cc' rand' ns
    where w: "write_seq cc_write ds (?cc, rand) = (Ok (), (cc', rand'))" "length ns = length ds"
      "\<forall>n \<in> set ns. length n = nonce_len a"
      "cc_out cc' = concat (map (\<lambda>(n, d). frame a n d) (zip ns ds))"
    by auto
  have "\<forall>(n, d) \<in> set (zip ns ds). sc_fits ?sc n d"
    using frames_fit [OF a(3) short w(3)] new(3) by (auto simp: sc_fits_def sc_buf_ok_def)
  from srv_codec.frames_in_order [OF this, of "[]" EOF] w(2)
  have "reads (sc_read ?sc) \<lparr>rd_data = cc_out cc', rd_end = EOF\<rparr> ds \<lparr>rd_data = [], rd_end = EOF\<rparr>"
    by (simp add: w(4))
  from sc_read_loop_reads [OF this handler] w(1) a(1,2) show ?thesis
    using sc_read_loop_stops [of ?sc "\<lparr>rd_data = [], rd_end = EOF\<rparr>" EOF "\<lparr>rd_data = [], rd_end = EOF\<rparr>"]
    by (simp add: sc_read_def go_bind_def read_full_def)
qed

text \<open>C5. Client to server: two ends with the same key string; the client's writing goroutine
  sends a list of messages over a working stream. It succeeds, and the server's reading loop, on
  exactly the bytes sent, hands its handler exactly those messages in that order and then stops
  with the stream's end. Holds with and without encryption, for every nonce drawn.\<close>

theorem client_to_server:
  assumes lib: "crypto_ok lib" and key: "cc_key cc = sc_key sc"
    and new: "cc_aesgcm cc = None" "sc_aesgcm sc = None" "sc_buf_ok sc"
    and ready: "cc_ready cc" "cc_out cc = []"
    and short: "list_all short_data ds"
    and rand: "length ds * nonce_len (cc_aesgcm (snd (cc_crypto lib cc))) \<le> length (rd_data rand)"
    and handler: "deliver f ds st = (Ok (), st')"
  shows "\<exists>cc' rand'. write_seq cc_write ds (snd (cc_crypto lib cc), rand) = (Ok (), (cc', rand'))
    \<and> sc_read_loop (Some f) (snd (sc_crypto lib sc)) \<lparr>rd_data = cc_out cc', rd_end = EOF\<rparr> st
      = (Err EOF, \<lparr>rd_data = [], rd_end = EOF\<rparr>, st')"
  by (rule client_to_server_run [OF assms])

definition demo_cc :: "string \<Rightarrow> client_conn" where
  "demo_cc key = (NewClientConn ''8.8.8.80:8080'' key 0 False)\<lparr>cc_conn := Some fresh_writer\<rparr>"

definition demo_sc :: "string \<Rightarrow> server_conn" where
  "demo_sc key = NewServerConn fresh_writer key True False"

definition demo_collect :: "bytes \<Rightarrow> (bytes list, unit) go" where
  "demo_collect d st = (Ok (), st @ [d])"

lemma demo_ends [simp]:
  "cc_key (demo_cc k) = k" "sc_key (demo_sc k) = k" "cc_aesgcm (demo_cc k) = None"
  "sc_aesgcm (demo_sc k) = None" "sc_buf_ok (demo_sc k)" "cc_buf_ok (demo_cc k)"
  "cc_conn (demo_cc k) = Some fresh_writer" "cc_ready (demo_cc k)" "sc_ready (demo_sc k)" "cc_out (demo_cc k) = []" "sc_out (demo_sc k) = []"
  by (simp_all add: demo_cc_def demo_sc_def NewClientConn_def NewServerConn_def cc_buf_ok_def
      sc_buf_ok_def cc_ready_def sc_ready_def cc_out_def sc_out_def)
    (simp_all add: fresh_writer_def)

lemma demo_crypto_cipher:
  "key \<noteq> [] \<Longrightarrow> makeAES128GCM demo_crypto key
     = Inr (demo_aead (take 16 (bytes_of_string key @ replicate 16 0)))"
  by (simp add: makeAES128GCM_def aes_NewCipher_def MD5_def demo_crypto_def min_def)

theorem client_to_server_witness:
  "\<exists>cc' rand'. write_seq cc_write [[1, 2, 3], [], [4]]
       (snd (cc_crypto demo_crypto (demo_cc ''hahaha'')), \<lparr>rd_data = replicate 36 7, rd_end = EOF\<rparr>)
     = (Ok (), (cc', rand'))
   \<and> sc_read_loop (Some demo_collect) (snd (sc_crypto demo_crypto (demo_sc ''hahaha'')))
       \<lparr>rd_data = cc_out cc', rd_end = EOF\<rparr> []
     = (Err EOF, \<lparr>rd_data = [], rd_end = EOF\<rparr>, [[1, 2, 3], [], [4]])"
  by (rule client_to_server)
    (simp_all add: short_data_def demo_collect_def cc_crypto_def demo_crypto_cipher nonce_len_def)

theorem ends_agree_witness:
  "let sc = snd (sc_crypto demo_crypto (demo_sc ''k'')); cc = snd (cc_crypto demo_crypto (demo_cc ''k''));
       rand = \<lparr>rd_data = replicate 20 7, rd_end = EOF\<rparr>; r = \<lparr>rd_data = [1, 3, 0, 5, 6, 7], rd_end = EOF\<rparr> in
   fst (sc_write [1, 2] (sc, rand)) = fst (cc_write [1, 2] (cc, rand))
   \<and> sc_conn (fst (snd (sc_write [1, 2] (sc, rand)))) = cc_conn (fst (snd (cc_write [1, 2] (cc, rand))))
   \<and> snd (snd (sc_write [1, 2] (sc, rand))) = snd (snd (cc_write [1, 2] (cc, rand)))
   \<and> cc_read cc r = (case sc_read sc r of
        (Err e, r') \<Rightarrow> (Err (if e = ErrCiperNotMatch then errOpen else e), r') | res \<Rightarrow> res)"
  unfolding Let_def
proof (rule ends_agree)
  show "sc_buf_ok (snd (sc_crypto demo_crypto (demo_sc ''k'')))" by (simp add: sc_buf_ok_crypto)
  show "cc_buf_ok (snd (cc_crypto demo_crypto (demo_cc ''k'')))"
    by (simp add: cc_crypto_def demo_crypto_cipher cc_buf_ok_def) (simp add: demo_cc_def NewClientConn_def)
  show "sc_conn (snd (sc_crypto demo_crypto (demo_sc ''k''))) = cc_conn (snd (cc_crypto demo_crypto (demo_cc ''k'')))"
    by (simp add: sc_crypto_def cc_crypto_def demo_crypto_cipher)
      (simp add: demo_sc_def demo_cc_def NewServerConn_def)
qed (simp_all add: sc_crypto_def cc_crypto_def demo_crypto_cipher)

section \<open>From the server to the client\<close>

lemma cc_read_loop_reads:
  assumes "reads (cc_read cc) r ds r1" and "deliver f ds st = (Ok (), st1)"
  shows "cc_read_loop (Some f) cc r st = cc_read_loop (Some f) cc r1 st1"
  using assms
proof (induction arbitrary: st rule: reads.induct)
  case (reads_Nil r)
  then show ?case by simp
next
  case (reads_Cons r x r1 xs r2)
  from reads_Cons.prems obtain o1 st2 where f: "f x st = (o1, st2)"
    and o1: "\<forall>p. o1 \<noteq> Panic p" "o1 \<noteq> Block" and del: "deliver f xs st2 = (Ok (), st1)"
    by (auto split: prod.splits outcome.splits)
  have "cc_read_loop (Some f) cc r st = cc_read_loop (Some f) cc r1 st2"
    using f o1 reads_Cons.hyps(1)
    by (cases o1) (simp_all add: cc_read_loop.simps [of _ _ r])
  then show ?case using reads_Cons.IH [OF del] by simp
qed

lemma cc_readProcess_frames:
  assumes crypto: "cc_crypto lib cc = (None, cc\<lparr>cc_aesgcm := a\<rparr>)" and buf: "cc_buf_ok cc" "cc_conn cc \<noteq> None"
    and fits: "\<forall>(n, d) \<in> set nds. frame_fits a n d" and handler: "deliver f (map snd nds) st = (Ok (), st')"
  shows "\<exists>cc'. cc_readProcess lib (Some f) cc
      \<lparr>rd_data = concat (map (\<lambda>(n, d). frame a n d) nds), rd_end = EOF\<rparr> st
    = (Err EOF, cc', \<lparr>rd_data = [], rd_end = EOF\<rparr>, st') \<and> \<not> cc_connected cc'"
proof -
  let ?cc = "cc\<lparr>cc_aesgcm := a\<rparr>"
  have "\<forall>(n, d) \<in> set nds. cc_fits ?cc n d" using fits buf by (auto simp: cc_fits_def cc_buf_ok_def)
  from cli_codec.frames_in_order [OF this, of "[]" EOF]
  have "reads (cc_read ?cc) \<lparr>rd_data = concat (map (\<lambda>(n, d). frame a n d) nds), rd_end = EOF\<rparr>
      (map snd nds) \<lparr>rd_data = [], rd_end = EOF\<rparr>"
    by simp
  from cc_read_loop_reads [OF this handler]
  have "cc_read_loop (Some f) ?cc \<lparr>rd_data = concat (map (\<lambda>(n, d). frame a n d) nds), rd_end = EOF\<rparr> st
      = (Err EOF, \<lparr>rd_data = [], rd_end = EOF\<rparr>, st')"
    by (simp add: cc_read_loop.simps [of _ _ "\<lparr>rd_data = [], rd_end = EOF\<rparr>"] cc_read_def
        go_bind_def read_full_def)
  then show ?thesis using buf(2) by (simp add: cc_readProcess_def crypto POE_def cc_shut_def cc_setConnected_def)
qed

text \<open>Server to client: the same for the other direction, the server's writing goroutine and
  the client's \<open>readProcess\<close>, whose result is the stream's end as an error: the run loop then
  reconnects.\<close>

theorem server_to_client:
  assumes lib: "crypto_ok lib" and key: "cc_key cc = sc_key sc"
    and new: "cc_aesgcm cc = None" "sc_aesgcm sc = None" "cc_buf_ok cc" "cc_conn cc \<noteq> None"
    and ready: "sc_ready sc" "sc_out sc = []"
    and short: "list_all short_data ds"
    and rand: "length ds * nonce_len (sc_aesgcm (snd (sc_crypto lib sc))) \<le> length (rd_data rand)"
    and handler: "deliver f ds st = (Ok (), st')"
  shows "\<exists>sc' rand' cc'. write_seq sc_write ds (snd (sc_crypto lib sc), rand) = (Ok (), (sc', rand'))
    \<and> cc_readProcess lib (Some f) cc \<lparr>rd_data = sc_out sc', rd_end = EOF\<rparr> st
      = (Err EOF, cc', \<lparr>rd_data = [], rd_end = EOF\<rparr>, st') \<and> \<not> cc_connected cc'"
proof -
  obtain a where a: "sc_crypto lib sc = (None, sc\<lparr>sc_aesgcm := a\<rparr>)"
    "cc_crypto lib cc = (None, cc\<lparr>cc_aesgcm := a\<rparr>)" "\<And>g. a = Some g \<Longrightarrow> aead_ok g"
    using crypto_agree [OF lib key new(1,2)] by blast
  let ?cc = "cc\<lparr>cc_aesgcm := a\<rparr>" and ?sc = "sc\<lparr>sc_aesgcm := a\<rparr>"
  have "sc_ready ?sc" "sc_out ?sc = []" using ready by (simp_all add: sc_ready_def sc_out_def)
  with srv_writer.write_seq_frames [of ?sc ds rand] rand a(1) obtain sc' rand' ns
    where w: "write_seq sc_write ds (?sc, rand) = (Ok (), (sc', rand'))" "length ns = length ds"
      "\<forall>n \<in> set ns. length n = nonce_len a"
      "sc_out sc' = concat (map (\<lambda>(n, d). frame a n d) (zip ns ds))"
    by auto
  have "\<forall>(n, d) \<in> set (zip ns ds). frame_fits a n d" by (rule frames_fit [OF a(3) short w(3)])
  from cc_readProcess_frames [OF a(2) new(3,4) this, of f st st'] handler w(1,2,4) a(1) show ?thesis by auto
qed

theorem server_to_client_witness:
  "\<exists>sc' rand' cc'. write_seq sc_write [[9], [8, 7]]
       (snd (sc_crypto demo_crypto (demo_sc ''k'')), \<lparr>rd_data = replicate 24 1, rd_end = EOF\<rparr>)
     = (Ok (), (sc', rand'))
   \<and> cc_readProcess demo_crypto (Some demo_collect) (demo_cc ''k'')
       \<lparr>rd_data = sc_out sc', rd_end = EOF\<rparr> []
     = (Err EOF, cc', \<lparr>rd_data = [], rd_end = EOF\<rparr>, [[9], [8, 7]]) \<and> \<not> cc_connected cc'"
  by (rule server_to_client)
    (simp_all add: short_data_def demo_collect_def sc_crypto_def demo_crypto_cipher nonce_len_def)

section \<open>How the reading goroutine ends\<close>

lemma sc_read_no_Block: "fst (sc_read sc r) \<noteq> Block"
  by (auto simp: sc_read_def go_bind_def read_full_def go_basic_defs Let_def split: option.splits)

lemma sc_read_loop_delivers:
  assumes "\<And>d st. fst (f d st) \<noteq> Block"
  shows "\<exists>ds r0 res r1. reads (sc_read sc) r ds r0
    \<and> sc_read_loop (Some f) sc r st = (res, r1, snd (deliver f ds st)) \<and> res \<noteq> Block"
proof (induction "Some f" sc r st rule: sc_read_loop.induct)
  case (1 sc r st)
  obtain o1 r' where rd: "sc_read sc r = (o1, r')" by fastforce
  show ?case
  proof (cases o1)
    case (Ok d)
    obtain o2 st' where f: "f d st = (o2, st')" by fastforce
    have "o2 \<noteq> Block" using assms [of d st] f by simp
    show ?thesis
    proof (cases "\<exists>p. o2 = Panic p")
      case True
      with rd Ok f show ?thesis
        by (intro exI [of _ "[d]"] exI [of _ r'])
          (auto simp: sc_read_loop.simps [of _ _ r] reads_Cons_simp)
    next
      case False
      have next_turn: "sc_read_loop (Some f) sc r st = sc_read_loop (Some f) sc r' st'"
        and more: "deliver f (d # ds) st = deliver f ds st'" for ds
        using rd Ok f False \<open>o2 \<noteq> Block\<close> by (cases o2; simp add: sc_read_loop.simps [of _ _ r])+
      have "\<exists>ds r0 res r1. reads (sc_read sc) r' ds r0
          \<and> sc_read_loop (Some f) sc r' st' = (res, r1, snd (deliver f ds st')) \<and> res \<noteq> Block"
        using False f rd Ok \<open>o2 \<noteq> Block\<close> by (cases o2) (use 1 in auto)
      then obtain ds r0 res r1 where ih: "reads (sc_read sc) r' ds r0"
        "sc_read_loop (Some f) sc r' st' = (res, r1, snd (deliver f ds st'))" "res \<noteq> Block" by blast
      show ?thesis
        using ih rd Ok unfolding next_turn
        by (intro exI [of _ "d # ds"] exI [of _ r0]) (auto simp: reads_Cons_simp more simp del: deliver.simps)
    qed
  next
    case Block
    then show ?thesis using sc_read_no_Block [of sc r] rd by simp
  qed (use rd in \<open>auto simp: sc_read_loop.simps [of _ _ r] intro!: exI [of _ "[]"]\<close>)
qed


text \<open>A handler that panics on the second message.\<close>

definition demo_panics :: "bytes \<Rightarrow> (bytes list, unit) go" where
  "demo_panics d st = (if d = [2] then (Panic ''runtime error'', st) else (Ok (), st @ [d]))"


section \<open>What a reading end accepts\<close>

text \<open>C7. Authenticity of sealed frames: when the server, with a key, reads a frame whose first
  byte is not 0, the bytes it took off the stream are the sealing of exactly the data returned
  under the nonce carried in the frame. No other sealed frame is accepted.\<close>

theorem sealed_read_authentic:
  assumes key: "sc_aesgcm sc = Some g" "aead_ok g" "sc_buf_ok sc"
    and rd: "sc_read sc r = (Ok d, r')" and sealed: "hd (rd_data r) \<noteq> 0"
  shows "\<exists>b len n. rd_data r = [b] @ len @ Seal g n d @ n @ rd_data r' \<and> length n = NonceSize g
    \<and> unat (of_le16 len) = length (Seal g n d)"
proof -
  from rd have "decode_frame ErrCiperNotMatch (Some g) r = (Ok d, r')"
    using sc_read_spec [OF key(3)] key(1) by simp
  from decode_frame_OkD [OF this] sealed obtain b len body n
    where "rd_data r = [b] @ len @ body @ n @ rd_data r'" "length n = NonceSize g"
      "Open g n body = Some d" "length body = unat (of_le16 len)"
    by auto
  moreover from this have "body = Seal g n d" using aead_okD(3) [OF key(2)] by blast
  ultimately show ?thesis by (intro exI [of _ b] exI [of _ len] exI [of _ n]) simp
qed

theorem sealed_read_authentic_witness:
  "\<exists>b len n. frame (Some (demo_aead [1])) (replicate 12 5) [42]
       = [b] @ len @ Seal (demo_aead [1]) n [42] @ n @ []
     \<and> length n = NonceSize (demo_aead [1])
     \<and> unat (of_le16 len) = length (Seal (demo_aead [1]) n [42])"
proof -
  let ?sc = "(demo_sc ''k'')\<lparr>sc_aesgcm := Some (demo_aead [1])\<rparr>"
  let ?r = "\<lparr>rd_data = frame (Some (demo_aead [1])) (replicate 12 5) [42], rd_end = EOF\<rparr>"
  have buf: "sc_buf_ok ?sc" by (simp add: demo_sc_def NewServerConn_def sc_buf_ok_def)
  then have "sc_fits ?sc (replicate 12 5) [42]"
    by (simp add: sc_fits_def frame_fits_def)
  from srv_codec.roundtrip [OF this, of "[]" EOF]
  have rd: "sc_read ?sc ?r = (Ok [42], \<lparr>rd_data = [], rd_end = EOF\<rparr>)" by simp
  have "hd (rd_data ?r) \<noteq> 0" by (simp add: frame_def Let_def)
  with sealed_read_authentic [OF _ _ buf rd, of "demo_aead [1]"] show ?thesis by simp
qed

text \<open>What a client without a key writes is the plain frame of its data.\<close>

lemma keyless_write:
  assumes "cc_aesgcm cc = None" "cc_ready cc" "cc_out cc = []"
  shows "\<exists>cc'. cc_write d (cc, rand) = (Ok (), (cc', rand)) \<and> cc_out cc' = frame None [] d"
  using cli_writer.write_frame [OF assms(2), of rand d] assms by (auto simp: nonce_len_def)

text \<open>C34. A key on the server does not keep a client without it from being served: what such a client
  writes is marked unsealed, and \<open>read\<close> hands it on as it is, whatever the server's cipher.\<close>

theorem unsealed_accepted_despite_key:
  assumes "cc_aesgcm cc = None" "cc_ready cc" "cc_out cc = []" and "sc_buf_ok sc" and "length d < 65536"
  shows "\<exists>cc'. cc_write d (cc, rand) = (Ok (), (cc', rand))
    \<and> sc_read sc \<lparr>rd_data = cc_out cc' @ rest, rd_end = e\<rparr> = (Ok d, \<lparr>rd_data = rest, rd_end = e\<rparr>)"
proof -
  have "sc_read sc \<lparr>rd_data = frame None [] d @ rest, rd_end = e\<rparr> = (Ok d, \<lparr>rd_data = rest, rd_end = e\<rparr>)"
    using assms(4,5) read_full_append [of "[0]" 1]
    by (simp add: sc_read_spec decode_frame_def frame_def frame_body_def go_simps unat_le16_len)
  with keyless_write [OF assms(1-3), of d rand] show ?thesis by auto
qed

theorem unsealed_accepted_despite_key_witness:
  "\<exists>cc'. cc_write [1, 2] (demo_cc [], \<lparr>rd_data = [], rd_end = EOF\<rparr>) = (Ok (), (cc', \<lparr>rd_data = [], rd_end = EOF\<rparr>))
    \<and> sc_read (snd (sc_crypto demo_crypto (demo_sc ''secret''))) \<lparr>rd_data = cc_out cc' @ [3], rd_end = EOF\<rparr>
     = (Ok [1, 2], \<lparr>rd_data = [3], rd_end = EOF\<rparr>)"
  by (rule unsealed_accepted_despite_key) (simp_all add: sc_buf_ok_crypto)

section \<open>The limit of the length field\<close>

text \<open>C40. Without encryption, data of \<open>65536 + k\<close> bytes is written without an error, with the length
  field \<open>k\<close>: the reader takes the first \<open>k\<close> bytes for the message and goes on in the middle of the
  data. The bound of the round-trip theorems is sharp.\<close>

theorem long_data_truncated:
  assumes "cc_aesgcm cc = None" "cc_ready cc" "cc_out cc = []" and "sc_buf_ok sc"
    and long: "65536 \<le> length d" "length d < 131072"
  shows "\<exists>cc'. cc_write d (cc, rand) = (Ok (), (cc', rand))
    \<and> sc_read sc \<lparr>rd_data = cc_out cc' @ rest, rd_end = e\<rparr>
    = (Ok (take (length d - 65536) d), \<lparr>rd_data = drop (length d - 65536) d @ rest, rd_end = e\<rparr>)"
proof -
  have len: "unat (of_nat (length d) :: u16) = length d - 65536"
    using long by (simp add: unat_of_nat mod_if)
  have body: "read_full (length d - 65536) \<lparr>rd_data = d @ rest, rd_end = e\<rparr>
      = (Ok (take (length d - 65536) d), \<lparr>rd_data = drop (length d - 65536) d @ rest, rd_end = e\<rparr>)"
    using long by (simp add: read_full_def)
  have "sc_read sc \<lparr>rd_data = frame None [] d @ rest, rd_end = e\<rparr>
    = (Ok (take (length d - 65536) d), \<lparr>rd_data = drop (length d - 65536) d @ rest, rd_end = e\<rparr>)"
    using assms(4) read_full_append [of "[0]" 1] body
    by (simp add: sc_read_spec decode_frame_def frame_def frame_body_def go_simps len)
  with keyless_write [OF assms(1-3), of d rand] show ?thesis by auto
qed

theorem long_data_truncated_witness:
  "\<exists>cc'. cc_write (replicate 65538 7) (demo_cc [], \<lparr>rd_data = [], rd_end = EOF\<rparr>)
      = (Ok (), (cc', \<lparr>rd_data = [], rd_end = EOF\<rparr>))
    \<and> sc_read (demo_sc []) \<lparr>rd_data = cc_out cc' @ [], rd_end = EOF\<rparr>
     = (Ok (take (length (replicate 65538 (7 :: u8)) - 65536) (replicate 65538 7)),
        \<lparr>rd_data = drop (length (replicate 65538 (7 :: u8)) - 65536) (replicate 65538 7) @ [], rd_end = EOF\<rparr>)"
  by (rule long_data_truncated) simp_all

section \<open>Panics\<close>

text \<open>Reading never panics on a connection with a key: no length field exceeds the buffer. On
  a connection without one, a frame marked sealed does panic, on the nil cipher, once its body is
  read; that ends the reading loop of this connection alone.\<close>

theorem read_panics_iff:
  assumes buf: "sc_buf_ok sc"
  shows "(\<exists>p r'. sc_read sc r = (Panic p, r')) \<longleftrightarrow>
    sc_aesgcm sc = None \<and> 3 \<le> length (rd_data r) \<and> hd (rd_data r) \<noteq> 0
    \<and> unat (of_le16 (take 2 (drop 1 (rd_data r)))) + 3 \<le> length (rd_data r)"
  unfolding sc_read_spec [OF buf] decode_frame_def
  by (auto simp: go_bind_def read_full_def go_basic_defs split: option.splits if_splits)

theorem read_panics_iff_witness:
  "\<exists>p r'. sc_read (demo_sc []) \<lparr>rd_data = [1, 1, 0, 9], rd_end = EOF\<rparr> = (Panic p, r')"
  using read_panics_iff [of "demo_sc []" "\<lparr>rd_data = [1, 1, 0, 9], rd_end = EOF\<rparr>"]
  by (simp add: of_le16_def)

end
