(* ===== verification/Pipe.thy ===== *)
theory Pipe
  imports Transport "HOL-Library.Sublist"
begin

text \<open>
  One direction of a stream between writing goroutines and a reading one: what the writers have put
  on it (\<open>pipe_out\<close>) for the messages they took, and what the reader has made of the bytes that
  have arrived so far (\<open>arrives\<close>). Both ends of a connection are instances of either side.
\<close>

section \<open>Reading from a part of the stream\<close>

context frame_codec
begin

lemma reads_frames_prefix:
  assumes "\<forall>(n, d) \<in> set nds. fits c n d"
    and "reads (dec c) \<lparr>rd_data = concat (map (\<lambda>(n, d). frm c n d) nds), rd_end = e\<rparr> ds r'"
  shows "prefix ds (map snd nds)"
  using assms
proof (induction nds arbitrary: ds)
  case Nil
  then show ?case using reads_bounded [OF Nil.prems(2)] by simp
next
  case (Cons nd nds)
  obtain n d where nd: "nd = (n, d)" by fastforce
  show ?case
  proof (cases ds)
    case (Cons x xs)
    have "fits c n d" using Cons.prems(1) nd by simp
    from roundtrip [OF this] Cons.prems(2) Cons nd have "x = d"
      "reads (dec c) \<lparr>rd_data = concat (map (\<lambda>(n, d). frm c n d) nds), rd_end = e\<rparr> xs r'"
      by (auto simp: reads_Cons_simp)
    with Cons.IH Cons.prems(1) Cons nd show ?thesis by simp
  qed simp
qed

text \<open>What is read from a part of a stream of frames, the last of which may be incomplete.\<close>

lemma reads_part_prefix:
  assumes fits: "\<forall>(n, d) \<in> set nds. fits c n d" and last: "fits c n d" "prefix tail (frm c n d)"
    and part: "concat (map (\<lambda>(n, d). frm c n d) nds) @ tail = part @ rest"
    and rd: "reads (dec c) \<lparr>rd_data = part, rd_end = e\<rparr> ds r'"
  shows "prefix ds (map snd nds @ [d])"
proof -
  obtain more' where m: "frm c n d = tail @ more'" using last(2) by (auto elim: prefixE)
  have "part @ (rest @ more') = concat (map (\<lambda>(n, d). frm c n d) (nds @ [(n, d)]))"
    using part by (simp add: m append_assoc [symmetric] del: append_assoc)
  with reads_extends [OF rd, of "rest @ more'"] have
    "reads (dec c) \<lparr>rd_data = concat (map (\<lambda>(n, d). frm c n d) (nds @ [(n, d)])), rd_end = e\<rparr> ds
       (r'\<lparr>rd_data := rd_data r' @ rest @ more'\<rparr>)"
    by simp
  from reads_frames_prefix [OF _ this] fits last(1) show ?thesis by auto
qed

end

section \<open>One direction of the stream\<close>

text \<open>
  What has been put on a stream whose writers took the messages of a log: while it is open, exactly
  the frames of the log; once it is closed, the frames of a first part of the log, and then perhaps
  a piece of the frame of the message behind.
\<close>

definition stream_of :: "aead option \<Rightarrow> (bytes \<times> bytes) list \<Rightarrow> bytes" where
  "stream_of a nds = concat (map (\<lambda>(n, d). frame a n d) nds)"

definition pipe_out :: "aead option \<Rightarrow> bool \<Rightarrow> bytes \<Rightarrow> bytes list \<Rightarrow> bool" where
  "pipe_out a open sent log \<longleftrightarrow> (\<exists>nds tail. (\<forall>(n, d) \<in> set nds. frame_fits a n d)
     \<and> sent = stream_of a nds @ tail
     \<and> (if open then tail = [] \<and> map snd nds = log
        else tail = [] \<and> prefix (map snd nds) log
           \<or> (\<exists>n d. frame_fits a n d \<and> prefix tail (frame a n d) \<and> prefix (map snd nds @ [d]) log)))"

lemma pipe_out_start: "pipe_out a open [] []"
  unfolding pipe_out_def stream_of_def by (intro exI [of _ "[]"]) simp

lemma pipe_out_close: "pipe_out a open sent log \<Longrightarrow> pipe_out a False sent (log @ l)"
  unfolding pipe_out_def by (cases "open") (fastforce)+

lemma pipe_out_reads:
  assumes "pipe_out a open sent log" and "sent = part @ rest"
    and rd: "reads (decode_frame err a) \<lparr>rd_data = part, rd_end = e\<rparr> got r'"
  shows "prefix got log"
proof -
  from pipe_out_close [OF assms(1), of "[]"] obtain nds tail
    where fits: "\<forall>(n, d) \<in> set nds. frame_fits a n d" and sent: "sent = stream_of a nds @ tail"
      and t: "tail = [] \<and> prefix (map snd nds) log
        \<or> (\<exists>n d. frame_fits a n d \<and> prefix tail (frame a n d) \<and> prefix (map snd nds @ [d]) log)"
    by (auto simp: pipe_out_def)
  from t show ?thesis
  proof
    assume "tail = [] \<and> prefix (map snd nds) log"
    moreover from this have "reads (decode_frame err a)
        \<lparr>rd_data = concat (map (\<lambda>(n, d). frame a n d) nds), rd_end = e\<rparr> got (r'\<lparr>rd_data := rd_data r' @ rest\<rparr>)"
      using spec_codec.reads_extends [OF rd, of rest] sent assms(2) by (simp add: stream_of_def)
    ultimately show ?thesis using spec_codec.reads_frames_prefix [OF fits] prefix_order.trans by blast
  next
    assume "\<exists>n d. frame_fits a n d \<and> prefix tail (frame a n d) \<and> prefix (map snd nds @ [d]) log"
    then obtain n d where nd: "frame_fits a n d" "prefix tail (frame a n d)" "prefix (map snd nds @ [d]) log" by blast
    have "concat (map (\<lambda>(n, d). frame a n d) nds) @ tail = part @ rest"
      using sent assms(2) by (simp add: stream_of_def)
    from spec_codec.reads_part_prefix [OF fits nd(1,2) this rd] nd(3) show ?thesis
      using prefix_order.trans by blast
  qed
qed

text \<open>One write: it succeeds, and the stream has one frame more, or fails, and is closed then.\<close>

lemma pipe_out_write:
  assumes p: "pipe_out a (\<not> wr_closed w) (wr_out w) log" and fits: "frame_fits a n d"
    and wr: "wr_write (frame a n d) w = (res, w')"
  shows "pipe_out a (res = Ok ()) (wr_out w') (log @ [d])"
proof (cases "wr_closed w")
  case True
  with wr have "res \<noteq> Ok ()" "w' = w" by (auto simp: wr_write_def)
  with pipe_out_close [OF p, of "[d]"] show ?thesis by simp
next
  case False
  with p obtain nds where nds: "\<forall>(n, d) \<in> set nds. frame_fits a n d" "wr_out w = stream_of a nds"
    "map snd nds = log" by (auto simp: pipe_out_def)
  from wr False consider (ok) "res = Ok ()" "wr_out w' = wr_out w @ frame a n d"
    | (fail) k where "res \<noteq> Ok ()" "wr_out w' = wr_out w @ take k (frame a n d)"
    by (auto simp: wr_write_def split: option.splits prod.splits)
  then show ?thesis
  proof cases
    case ok
    with nds fits show ?thesis
      unfolding pipe_out_def by (intro exI [of _ "nds @ [(n, d)]"]) (auto simp: stream_of_def)
  next
    case fail
    have "prefix (take k (frame a n d)) (frame a n d)" by (rule take_is_prefix)
    with fail nds fits show ?thesis
      unfolding pipe_out_def by (intro exI [of _ nds] exI [of _ "take k (frame a n d)"]) auto
  qed
qed

section \<open>Either end writes frames\<close>

lemma encode_frame_cases:
  assumes "encode_frame a d rand = (r, rand')"
  obtains (Frame) n where "r = Ok (frame a n d)" "length n = nonce_len a" | (Fail) e where "r = Err e"
proof (cases a)
  case None
  with assms have "r = Ok (frame a [] d)" by (simp add: encode_frame_def go_return_def)
  with None show ?thesis by (intro Frame) (simp_all add: nonce_len_def)
next
  case (Some g)
  show ?thesis
  proof (cases "NonceSize g \<le> length (rd_data rand)")
    case True
    with Some assms show ?thesis
      by (intro Frame [of "take (NonceSize g) (rd_data rand)"])
        (auto simp: encode_frame_def nonce_len_def go_bind_def read_full_def go_return_def)
  next
    case False
    with Some assms that(2) show ?thesis by (auto simp: encode_frame_def go_bind_def read_full_def)
  qed
qed

definition sealing_ok :: "aead option \<Rightarrow> bool" where
  "sealing_ok a \<longleftrightarrow> (\<forall>g. a = Some g \<longrightarrow> aead_ok g)"

lemma encoded_pipe:
  assumes enc: "encode_frame a d rand = (r, rand')" and a: "sealing_ok a" and d: "short_data d"
    and p: "pipe_out a (\<not> wr_closed w) (wr_out w) log"
  shows "case r of Ok buf \<Rightarrow> (\<forall>res w'. wr_write buf w = (res, w') \<longrightarrow>
      pipe_out a (res = Ok ()) (wr_out w') (log @ [d]) \<and> wr_closed w' = wr_closed w
      \<and> prefix (wr_out w) (wr_out w') \<and> (res = Ok () \<longrightarrow> \<not> wr_closed w))
    | Err e \<Rightarrow> pipe_out a False (wr_out w) (log @ [d]) | _ \<Rightarrow> False"
  using enc
proof (cases rule: encode_frame_cases)
  case (Frame n)
  have fits: "frame_fits a n d" using short_data_fits [OF d _ Frame(2)] a by (simp add: sealing_ok_def)
  show ?thesis
  proof (simp add: Frame(1), intro allI impI)
    fix res w' assume wr: "wr_write (frame a n d) w = (res, w')"
    with wr_write_appends [OF wr] have "wr_closed w' = wr_closed w" "prefix (wr_out w) (wr_out w')"
      "res = Ok () \<longrightarrow> \<not> wr_closed w"
      by (auto simp: wr_write_def split: if_splits)
    with pipe_out_write [OF p fits wr] show "pipe_out a (res = Ok ()) (wr_out w') (log @ [d])
      \<and> wr_closed w' = wr_closed w \<and> prefix (wr_out w) (wr_out w') \<and> (res = Ok () \<longrightarrow> \<not> wr_closed w)"
      by blast
  qed
next
  case (Fail e)
  with pipe_out_close [OF p] show ?thesis by simp
qed

lemma cc_write_pipe:
  assumes wr: "cc_write d (cc, rand) = (res, (cc', rand'))" and w: "cc_conn cc = Some w"
    and a: "sealing_ok (cc_aesgcm cc)" and d: "short_data d"
    and p: "pipe_out (cc_aesgcm cc) (\<not> wr_closed w) (wr_out w) log"
  shows "\<exists>w'. cc_conn cc' = Some w' \<and> pipe_out (cc_aesgcm cc) (res = Ok ()) (wr_out w') (log @ [d])
    \<and> prefix (wr_out w) (wr_out w') \<and> wr_closed w' = wr_closed w \<and> (res = Ok () \<longrightarrow> \<not> wr_closed w)"
proof -
  obtain r rand1 where enc: "encode_frame (cc_aesgcm cc) d rand = (r, rand1)" by fastforce
  from encoded_pipe [OF enc a d p] wr show ?thesis
    by (cases r) (auto simp: cc_write_spec [OF w] enc cc_flush_def w split: prod.splits)
qed

lemma sc_write_pipe:
  assumes wr: "sc_write d (sc, rand) = (res, (sc', rand'))" and w: "sc_conn sc = Some w"
    and a: "sealing_ok (sc_aesgcm sc)" and d: "short_data d"
    and p: "pipe_out (sc_aesgcm sc) (\<not> wr_closed w) (wr_out w) log"
  shows "\<exists>w'. sc_conn sc' = Some w' \<and> pipe_out (sc_aesgcm sc) (res = Ok ()) (wr_out w') (log @ [d])
    \<and> prefix (wr_out w) (wr_out w') \<and> wr_closed w' = wr_closed w \<and> (res = Ok () \<longrightarrow> \<not> wr_closed w)"
proof -
  obtain r rand1 where enc: "encode_frame (sc_aesgcm sc) d rand = (r, rand1)" by fastforce
  from encoded_pipe [OF enc a d p] wr show ?thesis
    by (cases r) (auto simp: sc_write_spec [OF w] enc sc_flush_def w split: prod.splits)
qed

section \<open>What arrives\<close>

text \<open>What has been handed over was read from the bytes delivered; while the end still reads, what it has
  not read yet is in its buffer.\<close>

definition arrives :: "go_error \<Rightarrow> aead option \<Rightarrow> bytes \<Rightarrow> nat \<Rightarrow> bytes list \<Rightarrow> bool \<Rightarrow> reader \<Rightarrow> bool" where
  "arrives err a sent k got reading inp \<longleftrightarrow> k \<le> length sent
     \<and> (\<exists>e buf. reads (decode_frame err a) \<lparr>rd_data = take k sent, rd_end = e\<rparr> got buf \<and> (reading \<longrightarrow> buf = inp))"

lemma arrives_sent:
  assumes ar: "arrives err a sent k got rd inp" and "prefix sent sent'"
  shows "arrives err a sent' k got rd inp"
proof -
  from ar have k: "k \<le> length sent" by (simp add: arrives_def)
  with assms(2) have "take k sent' = take k sent" "k \<le> length sent'" by (auto simp: prefix_def)
  with ar show ?thesis by (simp add: arrives_def)
qed

lemma arrives_idle: "arrives err a sent k got rd inp \<Longrightarrow> (rd' \<Longrightarrow> rd \<and> inp' = inp) \<Longrightarrow> arrives err a sent k got rd' inp'"
  by (auto simp: arrives_def)

lemma arrives_read:
  assumes "arrives err a sent k got True inp" and "decode_frame err a inp = (Ok d, inp')"
  shows "arrives err a sent k (got @ [d]) rd inp'"
proof -
  have "reads (decode_frame err a) inp [d] inp'" using assms(2) by (auto intro: reads.intros)
  with assms(1) reads_append show ?thesis by (fastforce simp: arrives_def)
qed

lemma arrives_deliver:
  assumes "arrives err a sent k got rd inp" and n: "k + n \<le> length sent"
  shows "arrives err a sent (k + n) got rd (inp\<lparr>rd_data := rd_data inp @ take n (drop k sent)\<rparr>)"
proof -
  obtain e buf where rd: "reads (decode_frame err a) \<lparr>rd_data = take k sent, rd_end = e\<rparr> got buf"
    "rd \<longrightarrow> buf = inp" using assms(1) by (auto simp: arrives_def)
  from spec_codec.reads_extends [OF rd(1), of "take n (drop k sent)"] rd(2) n show ?thesis
    unfolding arrives_def
    by (intro conjI exI [of _ e] exI [of _ "buf\<lparr>rd_data := rd_data buf @ take n (drop k sent)\<rparr>"])
      (simp_all add: take_add)
qed

lemma arrives_prefix:
  assumes "arrives err a sent k got rd inp" and "pipe_out a open sent log"
  shows "prefix got log"
  using assms pipe_out_reads [OF assms(2), of "take k sent" "drop k sent"] by (auto simp: arrives_def)

lemma reads_split: "reads p r (xs @ ys) r2 \<Longrightarrow> \<exists>r1. reads p r xs r1 \<and> reads p r1 ys r2"
  by (induction xs arbitrary: r) (auto simp: reads_Cons_simp)

text \<open>When all that was sent on an open stream has arrived, what is missing can be read.\<close>

lemma arrived_all:
  assumes ar: "arrives err a sent (length sent) got True inp" and p: "pipe_out a True sent log"
  shows "\<exists>ds r'. log = got @ ds \<and> reads (decode_frame err a) inp ds r'"
proof -
  from ar obtain e where rd: "reads (decode_frame err a) \<lparr>rd_data = sent, rd_end = e\<rparr> got inp"
    by (auto simp: arrives_def)
  from p obtain nds where nds: "\<forall>(n, d) \<in> set nds. frame_fits a n d" "sent = stream_of a nds" "map snd nds = log"
    by (auto simp: pipe_out_def)
  from spec_codec.frames_in_order [OF nds(1), of err "[]" e] nds(2,3)
  have all: "reads (decode_frame err a) \<lparr>rd_data = sent, rd_end = e\<rparr> log \<lparr>rd_data = [], rd_end = e\<rparr>"
    by (simp add: stream_of_def)
  from arrives_prefix [OF ar p] obtain ds where ds: "log = got @ ds" by (auto elim: prefixE)
  from reads_split [OF all [unfolded ds]] obtain r1
    where "reads (decode_frame err a) \<lparr>rd_data = sent, rd_end = e\<rparr> got r1"
      "reads (decode_frame err a) r1 ds \<lparr>rd_data = [], rd_end = e\<rparr>" by blast
  with reads_det [OF rd] ds show ?thesis by blast
qed

end
