(* ===== verification/ServerConnRun.thy ===== *)
theory ServerConnRun
  imports ServerConn Fixtures
begin

text \<open>
  The goroutines of one server connection as a step relation: the reading goroutine
  (\<open>readProcess\<close>) with the two channel operations of \<open>Stop\<close> as separate steps, the writing
  goroutine (\<open>writeProcess\<close>), whose \<open>select\<close> may take any ready case, and any number of senders
  (\<open>SendPacket\<close>). A connection becomes known to senders through the handler, so they start after
  the reading goroutine has set up the cipher. A handler may return or panic. When either goroutine
  ends it closes the stream and the session: a read may then fail at any time (what is buffered
  may still be read) and every write fails. The cleanup of the server runs between the last read
  and the closing. What was accepted into the queue and what the writing goroutine took from it,
  with the cipher then in force, is recorded.
\<close>

section \<open>The machine\<close>

datatype reader_phase = RStarting | RReading | RCleaning | RStopping | RClosing | RDone

record sc_run =
  run_sc :: server_conn
  run_rand :: reader
  run_in :: reader
  run_reader :: reader_phase
  run_writing :: bool
  run_accepted :: "bytes list"
  run_log :: "(bytes option \<times> aead option) list"

definition scr_init :: "server_conn \<Rightarrow> reader \<Rightarrow> reader \<Rightarrow> sc_run" where
  "scr_init sc rand inp = \<lparr>run_sc = sc, run_rand = rand, run_in = inp, run_reader = RStarting,
     run_writing = True, run_accepted = [], run_log = []\<rparr>"

text \<open>What a turn of the writing goroutine takes from the queue.\<close>

definition turn_takes :: "wp_case \<Rightarrow> server_conn \<Rightarrow> (bytes option \<times> aead option) list" where
  "turn_takes sel sc = (case sel of
     CaseWrite \<Rightarrow> (case ch_buf (sc_chanWrite sc) of
        [] \<Rightarrow> [(None, sc_aesgcm sc)] | x # xs \<Rightarrow> [(Some x, sc_aesgcm sc)])
   | CaseClose \<Rightarrow> [])"

inductive scr_step :: "crypto_lib \<Rightarrow> sc_run \<Rightarrow> sc_run \<Rightarrow> bool" for lib where
  start: "run_reader r = RStarting \<Longrightarrow> sc_crypto lib (run_sc r) = (None, sc') \<Longrightarrow>
    scr_step lib r (r\<lparr>run_sc := sc', run_reader := RReading\<rparr>)"
| start_panics: "run_reader r = RStarting \<Longrightarrow> sc_crypto lib (run_sc r) = (Some e, sc') \<Longrightarrow>
    scr_step lib r (r\<lparr>run_sc := sc', run_reader := RCleaning\<rparr>)"
| read: "run_reader r = RReading \<Longrightarrow> sc_read (run_sc r) (run_in r) = (Ok d, in') \<Longrightarrow>
    scr_step lib r (r\<lparr>run_in := in'\<rparr>)"
| handler_panics: "run_reader r = RReading \<Longrightarrow> sc_read (run_sc r) (run_in r) = (Ok d, in') \<Longrightarrow>
    scr_step lib r (r\<lparr>run_in := in', run_reader := RCleaning\<rparr>)"
| read_fails: "run_reader r = RReading \<Longrightarrow> sc_read (run_sc r) (run_in r) = (res, in') \<Longrightarrow>
    (\<And>d. res \<noteq> Ok d) \<Longrightarrow>
    scr_step lib r (r\<lparr>run_in := in', run_reader := RCleaning\<rparr>)"
| read_cut: "run_reader r = RReading \<Longrightarrow> sc_cut (run_sc r) \<Longrightarrow>
    scr_step lib r (r\<lparr>run_reader := RCleaning\<rparr>)"
| clean: "run_reader r = RCleaning \<Longrightarrow>
    scr_step lib r (r\<lparr>run_sc := sc_shut (run_sc r), run_reader := RStopping\<rparr>)"
| stop_send: "run_reader r = RStopping \<Longrightarrow> chan_send True (sc_chanClose (run_sc r)) = (Ok u, cc) \<Longrightarrow>
    scr_step lib r (r\<lparr>run_sc := (run_sc r)\<lparr>sc_chanClose := cc\<rparr>, run_reader := RClosing\<rparr>)"
| stop_close: "run_reader r = RClosing \<Longrightarrow> chan_close (sc_chanWrite (run_sc r)) = (Ok u, cw) \<Longrightarrow>
    scr_step lib r (r\<lparr>run_sc := (run_sc r)\<lparr>sc_chanWrite := cw\<rparr>, run_reader := RDone\<rparr>)"
| send: "run_reader r \<noteq> RStarting \<Longrightarrow> sc_Write d (run_sc r) = (Ok u, sc') \<Longrightarrow>
    scr_step lib r (r\<lparr>run_sc := sc', run_accepted := run_accepted r
       @ (if ch_closed (sc_chanWrite (run_sc r)) then [] else [d])\<rparr>)"
| turn: "run_writing r \<Longrightarrow> sc_write_turn sel (run_sc r, run_rand r) = (Ok True, (sc', rand')) \<Longrightarrow>
    scr_step lib r (r\<lparr>run_sc := sc', run_rand := rand', run_log := run_log r @ turn_takes sel (run_sc r)\<rparr>)"
| exit: "run_writing r \<Longrightarrow> sc_write_turn sel (run_sc r, run_rand r) = (res, (sc', rand')) \<Longrightarrow>
    res \<noteq> Ok True \<Longrightarrow> res \<noteq> Block \<Longrightarrow>
    scr_step lib r (r\<lparr>run_sc := sc_write_exit sc', run_rand := rand', run_writing := False,
       run_log := run_log r @ turn_takes sel (run_sc r)\<rparr>)"

inductive_cases scr_stepE: "scr_step lib r r'"

inductive scr_reach :: "crypto_lib \<Rightarrow> sc_run \<Rightarrow> sc_run \<Rightarrow> bool" for lib and r0 where
  reach_init: "scr_reach lib r0 r0"
| reach_step: "scr_reach lib r0 r \<Longrightarrow> scr_step lib r r' \<Longrightarrow> scr_reach lib r0 r'"

text \<open>\<open>Stop\<close> is its two steps in sequence.\<close>

lemma sc_Stop_steps:
  "sc_Stop sc = (Ok (), sc') \<longleftrightarrow> (\<exists>cc cw. chan_send True (sc_chanClose sc) = (Ok (), cc)
     \<and> chan_close (sc_chanWrite sc) = (Ok (), cw) \<and> sc' = sc\<lparr>sc_chanClose := cc, sc_chanWrite := cw\<rparr>)"
  by (auto simp: sc_Stop_def chan_send_def chan_close_def)

section \<open>What the operations leave alone\<close>

lemma sc_write_frame:
  assumes "sc_write d (sc, rand) = (res, (sc', rand'))"
  shows "sc_chanWrite sc' = sc_chanWrite sc" "sc_chanClose sc' = sc_chanClose sc"
    "sc_aesgcm sc' = sc_aesgcm sc" "sc_key sc' = sc_key sc" "sc_isClosed sc' = sc_isClosed sc"
    "res \<noteq> Block" "sc_cut sc' = sc_cut sc" "sc_conn sc' = None \<longleftrightarrow> sc_conn sc = None"
    "sc_cut sc \<Longrightarrow> res \<noteq> Ok ()"
  using assms
  by (auto simp: sc_write_def sc_flush_def wr_write_def read_full_def Let_def sc_cut_def
      split: option.splits prod.splits outcome.splits if_splits)

text \<open>A turn of the writing goroutine that does not wait: it takes the head of the queue, the nil
  slice of the closed, empty queue, or the stop token.\<close>

lemma sc_write_turn_cases:
  assumes "sc_write_turn sel (sc, rand) = (res, (sc', rand'))" and "res \<noteq> Block"
  obtains (Write) x xs where "sel = CaseWrite" "ch_buf (sc_chanWrite sc) = x # xs"
      "sc_chanWrite sc' = (sc_chanWrite sc)\<lparr>ch_buf := xs\<rparr>" "sc_chanClose sc' = sc_chanClose sc"
      "turn_takes sel sc = [(Some x, sc_aesgcm sc)]" "res \<noteq> Ok False"
  | (Drained) "sel = CaseWrite" "ch_buf (sc_chanWrite sc) = []" "ch_closed (sc_chanWrite sc)"
      "sc_chanWrite sc' = sc_chanWrite sc" "sc_chanClose sc' = sc_chanClose sc"
      "turn_takes sel sc = [(None, sc_aesgcm sc)]" "res \<noteq> Ok False"
  | (Close) b bs where "sel = CaseClose" "ch_buf (sc_chanClose sc) = b # bs" "res = Ok (b \<noteq> True)"
      "sc_chanWrite sc' = sc_chanWrite sc" "sc_chanClose sc' = (sc_chanClose sc)\<lparr>ch_buf := bs\<rparr>"
      "turn_takes sel sc = []"
  | (Closed) "sel = CaseClose" "ch_buf (sc_chanClose sc) = []" "ch_closed (sc_chanClose sc)"
proof (cases sel)
  case CaseWrite
  show ?thesis
  proof (cases "chan_recv (sc_chanWrite sc)")
    case (Pair o1 c)
    with assms CaseWrite obtain v where v: "o1 = Ok v"
      by (cases o1) (auto simp: sc_write_turn_def)
    define buf where "buf = (case v of Some b \<Rightarrow> b | None \<Rightarrow> [])"
    obtain o2 sc2 r2 where w: "sc_write buf (sc\<lparr>sc_chanWrite := c\<rparr>, rand) = (o2, (sc2, r2))"
      by (metis prod_cases3)
    from w have "o2 \<noteq> Block" by (rule sc_write_frame(6))
    with assms Pair v w CaseWrite have "sc' = sc2" "res \<noteq> Ok False"
      by (auto simp: sc_write_turn_def buf_def split: outcome.splits)
    with sc_write_frame [OF w] have fr: "sc_chanWrite sc' = c" "sc_chanClose sc' = sc_chanClose sc"
      "res \<noteq> Ok False" by simp_all
    show ?thesis
    proof (cases v)
      case None
      with Pair v have "ch_buf (sc_chanWrite sc) = [] \<and> ch_closed (sc_chanWrite sc) \<and> c = sc_chanWrite sc"
        by (simp add: chan_recv_None [symmetric])
      with fr CaseWrite show ?thesis by (intro Drained) (simp_all add: turn_takes_def)
    next
      case (Some x)
      with Pair v obtain xs where "ch_buf (sc_chanWrite sc) = x # xs" "c = (sc_chanWrite sc)\<lparr>ch_buf := xs\<rparr>"
        using chan_recv_Some [of "sc_chanWrite sc" x c] by auto
      with fr CaseWrite show ?thesis by (intro Write) (simp_all add: turn_takes_def)
    qed
  qed
next
  case CaseClose
  show ?thesis
  proof (cases "ch_buf (sc_chanClose sc)")
    case Nil
    with assms CaseClose show ?thesis
      by (intro Closed) (auto simp: sc_write_turn_def chan_recv_def split: if_splits)
  next
    case (Cons b bs)
    with assms CaseClose show ?thesis
      by (intro Close) (auto simp: sc_write_turn_def chan_recv_def turn_takes_def)
  qed
qed

lemma sc_shut_cut [simp]: "sc_conn sc \<noteq> None \<Longrightarrow> sc_cut (sc_shut sc)" "sc_conn (sc_shut sc) = None \<longleftrightarrow> sc_conn sc = None"
  by (auto simp: sc_shut_def sc_cut_def)

lemma sc_cut_upd [simp]: "sc_cut (sc\<lparr>sc_chanWrite := x\<rparr>) = sc_cut sc" "sc_cut (sc\<lparr>sc_chanClose := y\<rparr>) = sc_cut sc"
  by (simp_all add: sc_cut_def)

lemma sc_write_turn_fields:
  assumes "sc_write_turn sel (sc, rand) = (res, (sc', rand'))"
  shows "sc_aesgcm sc' = sc_aesgcm sc" "sc_key sc' = sc_key sc" "sc_isClosed sc' = sc_isClosed sc"
    "sc_cut sc' = sc_cut sc" "sc_conn sc' = None \<longleftrightarrow> sc_conn sc = None"
  using assms
  by (auto simp: sc_write_turn_def split: wp_case.splits prod.splits outcome.splits
      dest: sc_write_frame)

section \<open>The invariant\<close>

text \<open>
  The two channels within their capacities; the queue closed exactly when the reading goroutine is
  done; the stop token where the phases say it is; a connection whose goroutine has ended is marked
  closed; what was accepted is what was taken and then what waits.
\<close>

definition taken :: "(bytes option \<times> aead option) list \<Rightarrow> bytes list" where
  "taken l = List.map_filter fst l"

lemma taken_simps [simp]:
  "taken [] = []" "taken (l @ l') = taken l @ taken l'"
  "taken [(Some x, g)] = [x]" "taken [(None, g)] = []"
  by (simp_all add: taken_def List.map_filter_def)

definition chans_ok :: "sc_run \<Rightarrow> bool" where
  "chans_ok r \<longleftrightarrow> (let cw = sc_chanWrite (run_sc r); cc = sc_chanClose (run_sc r) in
     ch_cap cw = 2 \<and> length (ch_buf cw) \<le> 2 \<and> ch_cap cc = 1 \<and> \<not> ch_closed cc
     \<and> (ch_closed cw \<longleftrightarrow> run_reader r = RDone)
     \<and> (run_reader r \<in> {RStarting, RReading, RCleaning, RStopping} \<longrightarrow> ch_buf cc = [])
     \<and> (run_reader r \<in> {RClosing, RDone} \<longrightarrow> ch_buf cc = (if run_writing r then [True] else []) \<or>
          \<not> run_writing r \<and> ch_buf cc = [True]))"

definition log_ok :: "sc_run \<Rightarrow> bool" where
  "log_ok r \<longleftrightarrow> run_accepted r = taken (run_log r) @ ch_buf (sc_chanWrite (run_sc r))
     \<and> (run_reader r = RStarting \<longrightarrow> run_log r = [] \<and> run_accepted r = [])"

definition ended_ok :: "sc_run \<Rightarrow> bool" where
  "ended_ok r \<longleftrightarrow> (run_reader r \<in> {RStopping, RClosing, RDone} \<or> \<not> run_writing r \<longleftrightarrow> sc_isClosed (run_sc r))
     \<and> (sc_isClosed (run_sc r) \<longrightarrow> sc_cut (run_sc r)) \<and> sc_conn (run_sc r) \<noteq> None"

definition scr_inv :: "sc_run \<Rightarrow> bool" where
  "scr_inv r \<longleftrightarrow> chans_ok r \<and> log_ok r \<and> ended_ok r"

lemma scr_inv_init: "scr_inv (scr_init (NewServerConn w key h nd) rand inp)"
  by (simp add: scr_inv_def chans_ok_def log_ok_def ended_ok_def scr_init_def NewServerConn_def
      make_chan_def)

lemma sc_crypto_frame:
  "sc_crypto lib sc = (res, sc') \<Longrightarrow> sc_chanWrite sc' = sc_chanWrite sc
     \<and> sc_chanClose sc' = sc_chanClose sc \<and> sc_isClosed sc' = sc_isClosed sc \<and> sc_key sc' = sc_key sc
     \<and> sc_conn sc' = sc_conn sc \<and> sc_cut sc' = sc_cut sc"
  by (auto simp: sc_crypto_def sc_cut_def split: if_splits sum.splits)

lemma sc_Write_cases:
  assumes "sc_Write d sc = (Ok u, sc')"
  obtains "ch_closed (sc_chanWrite sc)" "sc' = sc"
  | "\<not> ch_closed (sc_chanWrite sc)" "length (ch_buf (sc_chanWrite sc)) < ch_cap (sc_chanWrite sc)"
    "sc' = sc\<lparr>sc_chanWrite := (sc_chanWrite sc)\<lparr>ch_buf := ch_buf (sc_chanWrite sc) @ [d]\<rparr>\<rparr>"
  using assms by (auto simp: sc_Write_def chan_send_def split: if_splits)

lemma turn_inv:
  assumes inv: "scr_inv r" and run: "run_writing r"
    and t: "sc_write_turn sel (run_sc r, run_rand r) = (Ok True, (sc', rand'))"
  shows "scr_inv (r\<lparr>run_sc := sc', run_rand := rand', run_log := run_log r @ turn_takes sel (run_sc r)\<rparr>)"
proof -
  note fields = sc_write_turn_fields [OF t]
  have idle: "run_reader r = RStarting \<Longrightarrow> ch_buf (sc_chanWrite (run_sc r)) = []"
    using inv by (auto simp: scr_inv_def log_ok_def)
  have nb: "Ok True \<noteq> Block" by simp
  from t nb show ?thesis
  proof (cases rule: sc_write_turn_cases)
    case (Write x xs)
    then show ?thesis using inv run fields idle
      by (auto simp: scr_inv_def chans_ok_def log_ok_def ended_ok_def Let_def)
  next
    case Drained
    then show ?thesis using inv run fields
      by (auto simp: scr_inv_def chans_ok_def log_ok_def ended_ok_def Let_def)
  next
    case (Close b bs)
    then show ?thesis using inv run
      by (cases "run_reader r") (auto simp: scr_inv_def chans_ok_def Let_def)
  next
    case Closed
    then show ?thesis using inv by (auto simp: scr_inv_def chans_ok_def Let_def)
  qed
qed

lemma exit_inv:
  assumes inv: "scr_inv r" and run: "run_writing r"
    and t: "sc_write_turn sel (run_sc r, run_rand r) = (res, (sc', rand'))" and res: "res \<noteq> Block"
  shows "scr_inv (r\<lparr>run_sc := sc_write_exit sc', run_rand := rand', run_writing := False,
       run_log := run_log r @ turn_takes sel (run_sc r)\<rparr>)" (is "scr_inv ?r")
proof -
  have "ended_ok ?r"
    using inv sc_write_turn_fields(5) [OF t] by (simp add: scr_inv_def ended_ok_def sc_write_exit_def)
  moreover have "chans_ok ?r \<and> log_ok ?r"
  proof -
    have idle: "run_reader r = RStarting \<Longrightarrow> ch_buf (sc_chanWrite (run_sc r)) = []"
      using inv by (auto simp: scr_inv_def log_ok_def)
    from t res show ?thesis
    proof (cases rule: sc_write_turn_cases)
      case (Write x xs)
      then show ?thesis using inv run idle
        by (auto simp: scr_inv_def chans_ok_def log_ok_def Let_def sc_write_exit_def)
    next
      case Drained
      then show ?thesis using inv run
        by (auto simp: scr_inv_def chans_ok_def log_ok_def Let_def sc_write_exit_def)
    next
      case (Close b bs)
      then show ?thesis using inv run
        by (cases "run_reader r")
          (auto simp: scr_inv_def chans_ok_def log_ok_def Let_def sc_write_exit_def)
    next
      case Closed
      then show ?thesis using inv by (auto simp: scr_inv_def chans_ok_def Let_def)
    qed
  qed
  ultimately show ?thesis by (simp add: scr_inv_def)
qed

lemma scr_step_inv:
  assumes "scr_step lib r r'" and inv: "scr_inv r"
  shows "scr_inv r'"
  using assms(1)
proof (cases rule: scr_step.cases)
  case (start sc')
  with inv sc_crypto_frame [OF start(3)] show ?thesis
    by (auto simp: scr_inv_def chans_ok_def log_ok_def ended_ok_def Let_def)
next
  case (start_panics e sc')
  with inv sc_crypto_frame [OF start_panics(3)] show ?thesis
    by (auto simp: scr_inv_def chans_ok_def log_ok_def ended_ok_def Let_def)
next
  case (read d in')
  with inv show ?thesis by (auto simp: scr_inv_def chans_ok_def log_ok_def ended_ok_def Let_def)
next
  case (handler_panics d in')
  with inv show ?thesis by (auto simp: scr_inv_def chans_ok_def log_ok_def ended_ok_def Let_def)
next
  case (read_fails res in')
  with inv show ?thesis by (auto simp: scr_inv_def chans_ok_def log_ok_def ended_ok_def Let_def)
next
  case read_cut
  with inv show ?thesis by (auto simp: scr_inv_def chans_ok_def log_ok_def ended_ok_def Let_def)
next
  case clean
  with inv show ?thesis by (auto simp: scr_inv_def chans_ok_def log_ok_def ended_ok_def Let_def)
next
  case (stop_send u cc)
  with inv show ?thesis
    by (auto simp: scr_inv_def chans_ok_def log_ok_def ended_ok_def Let_def chan_send_Ok)
next
  case (stop_close u cw)
  with inv show ?thesis
    by (auto simp: scr_inv_def chans_ok_def log_ok_def ended_ok_def Let_def chan_close_Ok)
next
  case (send d u sc')
  from send(3) show ?thesis
    by (cases rule: sc_Write_cases)
      (use inv send in \<open>auto simp: scr_inv_def chans_ok_def log_ok_def ended_ok_def Let_def\<close>)
next
  case (turn sel sc' rand')
  with turn_inv [OF inv turn(2,3)] show ?thesis by simp
next
  case (exit sel res sc' rand')
  with exit_inv [OF inv exit(2,3)] show ?thesis by simp
qed

lemma scr_reach_inv: "scr_reach lib r0 r \<Longrightarrow> scr_inv r0 \<Longrightarrow> scr_inv r"
  by (induction rule: scr_reach.induct) (auto intro: scr_step_inv)

section \<open>Properties of every run\<close>

abbreviation new_run :: "writer \<Rightarrow> string \<Rightarrow> bool \<Rightarrow> bool \<Rightarrow> reader \<Rightarrow> reader \<Rightarrow> sc_run" where
  "new_run w key h nd rand inp \<equiv> scr_init (NewServerConn w key h nd) rand inp"

lemma new_run_inv: "scr_reach lib (new_run w key h nd rand inp) r \<Longrightarrow> scr_inv r"
  using scr_reach_inv scr_inv_init by blast

lemma scr_reach_trans:
  "scr_reach lib r1 r2 \<Longrightarrow> scr_reach lib r0 r1 \<Longrightarrow> scr_reach lib r0 r2"
  by (induction rule: scr_reach.induct) (auto intro: scr_reach.reach_step)

text \<open>C10. The queue of a connection loses, duplicates and reorders nothing while it runs: at every
  moment, the messages accepted so far are those the writing goroutine has taken, in order,
  followed by at most two that wait.\<close>

theorem queue_is_fifo:
  assumes "scr_reach lib (new_run w key h nd rand inp) r"
  shows "run_accepted r = taken (run_log r) @ ch_buf (sc_chanWrite (run_sc r))
    \<and> length (ch_buf (sc_chanWrite (run_sc r))) \<le> 2"
  using new_run_inv [OF assms] by (simp add: scr_inv_def log_ok_def chans_ok_def Let_def)

text \<open>A run: the cipher is set up, two messages are queued and one is written.\<close>

definition demo_run :: sc_run where
  "demo_run = new_run fresh_writer [] True False \<lparr>rd_data = [], rd_end = EOF\<rparr> \<lparr>rd_data = [], rd_end = EOF\<rparr>"

lemma demo_run_start: "scr_step lib demo_run (demo_run\<lparr>run_reader := RReading\<rparr>)"
proof -
  have "sc_crypto lib (run_sc demo_run) = (None, run_sc demo_run)"
    by (simp add: demo_run_def scr_init_def sc_crypto_def NewServerConn_def)
  moreover have "run_reader demo_run = RStarting" by (simp add: demo_run_def scr_init_def)
  ultimately have "scr_step lib demo_run (demo_run\<lparr>run_sc := run_sc demo_run, run_reader := RReading\<rparr>)"
    by (intro scr_step.start)
  then show ?thesis by simp
qed

definition queue_run :: "sc_run \<Rightarrow> bytes \<Rightarrow> sc_run" where
  "queue_run r d = r\<lparr>run_sc := (run_sc r)\<lparr>sc_chanWrite := (sc_chanWrite (run_sc r))
       \<lparr>ch_buf := ch_buf (sc_chanWrite (run_sc r)) @ [d]\<rparr>\<rparr>, run_accepted := run_accepted r @ [d]\<rparr>"

lemma queue_run_step:
  assumes "run_reader r \<noteq> RStarting" and "\<not> ch_closed (sc_chanWrite (run_sc r))"
    and "length (ch_buf (sc_chanWrite (run_sc r))) < ch_cap (sc_chanWrite (run_sc r))"
  shows "scr_step lib r (queue_run r d)"
proof -
  let ?sc = "(run_sc r)\<lparr>sc_chanWrite := (sc_chanWrite (run_sc r))
       \<lparr>ch_buf := ch_buf (sc_chanWrite (run_sc r)) @ [d]\<rparr>\<rparr>"
  have "sc_Write d (run_sc r) = (Ok (), ?sc)" using assms by (simp add: sc_Write_def chan_send_def)
  from scr_step.send [OF assms(1) this] assms(2) show ?thesis by (simp add: queue_run_def)
qed

definition demo_queued :: sc_run where
  "demo_queued = queue_run (queue_run (demo_run\<lparr>run_reader := RReading\<rparr>) [7]) [8]"

lemma demo_queued_reach: "scr_reach lib demo_run demo_queued"
proof -
  let ?r = "demo_run\<lparr>run_reader := RReading\<rparr>"
  have 1: "scr_step lib ?r (queue_run ?r [7])"
    by (rule queue_run_step) (simp_all add: demo_run_def scr_init_def NewServerConn_def make_chan_def)
  have 2: "scr_step lib (queue_run ?r [7]) demo_queued"
    unfolding demo_queued_def
    by (rule queue_run_step)
      (simp_all add: queue_run_def demo_run_def scr_init_def NewServerConn_def make_chan_def)
  from reach_init have "scr_reach lib demo_run demo_run" .
  from reach_step [OF reach_step [OF reach_step [OF this demo_run_start] 1] 2] show ?thesis .
qed

theorem queue_is_fifo_witness:
  "run_accepted demo_queued = taken (run_log demo_queued) @ ch_buf (sc_chanWrite (run_sc demo_queued))
    \<and> length (ch_buf (sc_chanWrite (run_sc demo_queued))) \<le> 2"
  by (rule queue_is_fifo [OF demo_queued_reach [where lib = demo_crypto, unfolded demo_run_def]])

text \<open>A sender waits exactly when two messages wait already and the connection has not been
  stopped; otherwise \<open>Write\<close> returns, also on the closed channel. It never panics.\<close>

theorem send_waits_iff:
  assumes "scr_reach lib (new_run w key h nd rand inp) r"
  shows "fst (sc_Write d (run_sc r)) =
    (if run_reader r \<noteq> RDone \<and> length (ch_buf (sc_chanWrite (run_sc r))) = 2 then Block else Ok ())"
  using new_run_inv [OF assms]
  by (auto simp: scr_inv_def chans_ok_def Let_def sc_Write_def chan_send_def)

theorem send_waits_iff_witness:
  "fst (sc_Write [9] (run_sc demo_queued)) = (if run_reader demo_queued \<noteq> RDone
      \<and> length (ch_buf (sc_chanWrite (run_sc demo_queued))) = 2 then Block else Ok ())"
  by (rule send_waits_iff [OF demo_queued_reach [where lib = demo_crypto, unfolded demo_run_def]])

section \<open>Shutting down\<close>

lemma stop_token_exit:
  assumes inv: "scr_inv r" and "run_reader r = RDone" and run: "run_writing r"
  shows "\<exists>r'. scr_step lib r r' \<and> run_reader r' = RDone \<and> \<not> run_writing r'
    \<and> run_accepted r' = run_accepted r \<and> run_log r' = run_log r"
proof -
  have cc: "ch_buf (sc_chanClose (run_sc r)) = [True]"
    using assms by (simp add: scr_inv_def chans_ok_def Let_def)
  let ?sc = "(run_sc r)\<lparr>sc_chanClose := (sc_chanClose (run_sc r))\<lparr>ch_buf := []\<rparr>\<rparr>"
  have "sc_write_turn CaseClose (run_sc r, run_rand r) = (Ok False, (?sc, run_rand r))"
    using cc by (simp add: sc_write_turn_def chan_recv_def)
  from scr_step.exit [OF run this] assms(2) show ?thesis
    by (intro exI conjI) (assumption | simp add: turn_takes_def)+
qed

text \<open>What is left for the two goroutines to do once the connection is closed.\<close>

definition reader_rank :: "reader_phase \<Rightarrow> nat" where
  "reader_rank ph = (case ph of RStarting \<Rightarrow> 5 | RReading \<Rightarrow> 4 | RCleaning \<Rightarrow> 3 | RStopping \<Rightarrow> 2
     | RClosing \<Rightarrow> 1 | RDone \<Rightarrow> 0)"

definition remaining :: "sc_run \<Rightarrow> nat" where
  "remaining r = reader_rank (run_reader r) + (if run_writing r then 1 else 0)
     + (if run_reader r \<in> {RStarting, RReading} then length (rd_data (run_in r)) else 0)"

lemma remaining_0: "remaining r = 0 \<longleftrightarrow> run_reader r = RDone \<and> \<not> run_writing r"
  by (auto simp: remaining_def reader_rank_def split: reader_phase.splits)

lemma cut_turn: "sc_cut sc \<Longrightarrow> sc_write_turn CaseWrite (sc, rand) \<noteq> (Ok True, st)"
  using sc_write_frame(9) [of "case v of None \<Rightarrow> [] | Some b \<Rightarrow> b" "sc\<lparr>sc_chanWrite := c\<rparr>" rand "Ok ()" "fst st" "snd st"
      for v c]
  by (cases st) (auto simp: sc_write_turn_def split: prod.splits outcome.splits)

lemma closed_turn:
  assumes inv: "scr_inv r" and closed: "sc_isClosed (run_sc r)"
  shows "sc_write_turn sel (run_sc r, run_rand r) \<noteq> (Ok True, st)"
proof (cases sel)
  case CaseWrite
  with inv closed cut_turn show ?thesis by (simp add: scr_inv_def ended_ok_def)
next
  case CaseClose
  with inv show ?thesis
    by (cases "run_reader r") (auto simp: scr_inv_def chans_ok_def Let_def sc_write_turn_def chan_recv_def split: if_splits)
qed

text \<open>Every step from a closed connection is a step of one of the two goroutines, which leaves less to
  do, or a sender's, which leaves both where they are.\<close>

lemma closed_step:
  assumes st: "scr_step lib r r'" and inv: "scr_inv r" and closed: "sc_isClosed (run_sc r)"
  shows "sc_isClosed (run_sc r') \<and> (remaining r' < remaining r
    \<or> remaining r' = remaining r \<and> (\<exists>d. sc_Write d (run_sc r) = (Ok (), run_sc r')))"
  using st
proof (cases rule: scr_step.cases)
  case (send d u sc')
  from send(3) have "sc_isClosed sc' = sc_isClosed (run_sc r)" by (cases rule: sc_Write_cases) simp_all
  with send closed show ?thesis by (auto simp: remaining_def)
next
  case (turn sel sc' rand')
  with closed_turn [OF inv closed] show ?thesis by blast
next
  case (read d in')
  with closed sc_read_progress [OF read(3)] show ?thesis by (simp add: remaining_def)
next
  case (start sc')
  with closed sc_crypto_frame [OF start(3)] show ?thesis by (simp add: remaining_def reader_rank_def)
next
  case (start_panics e sc')
  with closed sc_crypto_frame [OF start_panics(3)] show ?thesis by (simp add: remaining_def reader_rank_def)
qed (use closed in \<open>simp_all add: remaining_def reader_rank_def sc_write_exit_def\<close>)

lemma closed_progress:
  assumes inv: "scr_inv r" and closed: "sc_isClosed (run_sc r)" and todo: "remaining r \<noteq> 0"
  shows "\<exists>r'. scr_step lib r r' \<and> remaining r' < remaining r"
proof (cases "run_reader r")
  case RStarting
  obtain res sc' where c: "sc_crypto lib (run_sc r) = (res, sc')" by fastforce
  with RStarting scr_step.start [OF RStarting] scr_step.start_panics [OF RStarting] show ?thesis
    by (cases res) (fastforce simp: remaining_def reader_rank_def)+
next
  case RReading
  moreover from inv closed have "sc_cut (run_sc r)" by (simp add: scr_inv_def ended_ok_def)
  ultimately have "scr_step lib r (r\<lparr>run_reader := RCleaning\<rparr>)" by (rule scr_step.read_cut)
  with RReading show ?thesis by (fastforce simp: remaining_def reader_rank_def)
next
  case RCleaning
  from scr_step.clean [OF this] RCleaning show ?thesis by (fastforce simp: remaining_def reader_rank_def)
next
  case RStopping
  with inv obtain cc where "chan_send True (sc_chanClose (run_sc r)) = (Ok (), cc)"
    by (auto simp: scr_inv_def chans_ok_def Let_def chan_send_Ok)
  from scr_step.stop_send [OF RStopping this] RStopping show ?thesis
    by (fastforce simp: remaining_def reader_rank_def)
next
  case RClosing
  with inv obtain cw where "chan_close (sc_chanWrite (run_sc r)) = (Ok (), cw)"
    by (auto simp: scr_inv_def chans_ok_def Let_def chan_close_Ok)
  from scr_step.stop_close [OF RClosing this] RClosing show ?thesis
    by (fastforce simp: remaining_def reader_rank_def)
next
  case RDone
  with todo have "run_writing r" by (auto simp: remaining_0)
  from stop_token_exit [OF inv RDone this] RDone \<open>run_writing r\<close> show ?thesis
    by (fastforce simp: remaining_def)
qed

text \<open>C21. Whichever goroutine of a connection ends first, the other follows, whatever the scheduler
  does. From the moment the connection is marked closed, every step is one of the two goroutines',
  and leaves strictly less for them to do, or is a sender's, who gets \<open>Ok\<close> and delays nothing;
  while something is left to do, such a step is possible; and when nothing is left, both have
  ended.\<close>

theorem shutdown_completes:
  assumes reach: "scr_reach lib (new_run w key h nd rand inp) r" and closed: "sc_isClosed (run_sc r)"
  shows "(\<forall>r'. scr_step lib r r' \<longrightarrow> sc_isClosed (run_sc r') \<and> (remaining r' < remaining r
      \<or> remaining r' = remaining r \<and> (\<exists>d. sc_Write d (run_sc r) = (Ok (), run_sc r'))))
    \<and> (remaining r \<noteq> 0 \<longrightarrow> (\<exists>r'. scr_step lib r r' \<and> remaining r' < remaining r))
    \<and> (remaining r = 0 \<longleftrightarrow> run_reader r = RDone \<and> \<not> run_writing r)"
  using closed_step [OF _ new_run_inv [OF reach] closed] closed_progress [OF new_run_inv [OF reach] closed]
    remaining_0 by blast

text \<open>The moment comes as soon as either goroutine has ended, and not before.\<close>

lemma closed_iff_ended:
  assumes "scr_reach lib (new_run w key h nd rand inp) r"
  shows "sc_isClosed (run_sc r) \<longleftrightarrow> run_reader r \<in> {RStopping, RClosing, RDone} \<or> \<not> run_writing r"
  using new_run_inv [OF assms] by (auto simp: scr_inv_def ended_ok_def)

text \<open>In particular both can always reach their end.\<close>

lemma closed_ends:
  assumes "scr_inv r" and "sc_isClosed (run_sc r)"
  shows "\<exists>r'. scr_reach lib r r' \<and> run_reader r' = RDone \<and> \<not> run_writing r'"
  using assms
proof (induction "remaining r" arbitrary: r rule: less_induct)
  case less
  show ?case
  proof (cases "remaining r = 0")
    case True
    with reach_init show ?thesis using remaining_0 by blast
  next
    case False
    with closed_progress [OF less.prems] obtain r1 where r1: "scr_step lib r r1" "remaining r1 < remaining r" by blast
    with less.hyps [OF r1(2)] scr_step_inv [OF r1(1) less.prems(1)] closed_step [OF r1(1) less.prems]
    obtain r2 where "scr_reach lib r1 r2" "run_reader r2 = RDone" "\<not> run_writing r2" by blast
    with scr_reach_trans [OF this(1) reach_step [OF reach_init r1(1)]] show ?thesis by blast
  qed
qed

text \<open>The end of the stream while two messages wait.\<close>

definition stop_run :: "sc_run \<Rightarrow> sc_run" where
  "stop_run r = r\<lparr>run_sc := sc_shut (run_sc r), run_reader := RStopping\<rparr>"

lemma demo_stop_reach: "scr_reach lib demo_run (stop_run demo_queued)"
proof -
  let ?r = "demo_queued\<lparr>run_reader := RCleaning\<rparr>"
  have rd: "sc_read (run_sc demo_queued) (run_in demo_queued) = (Err EOF, run_in demo_queued)"
    by (simp add: demo_queued_def queue_run_def demo_run_def scr_init_def sc_read_def go_bind_def read_full_def)
  have "run_reader demo_queued = RReading" by (simp add: demo_queued_def queue_run_def)
  from scr_step.read_fails [OF this rd] have "scr_step lib demo_queued ?r" by simp
  moreover from scr_step.clean [of ?r lib] have "scr_step lib ?r (stop_run demo_queued)"
    by (simp add: stop_run_def)
  ultimately show ?thesis using demo_queued_reach reach_step by blast
qed

theorem shutdown_completes_witness:
  "\<exists>r'. scr_step demo_crypto (stop_run demo_queued) r' \<and> remaining r' < 3 \<and> sc_isClosed (run_sc r')"
proof -
  have closed: "sc_isClosed (run_sc (stop_run demo_queued))" by (simp add: stop_run_def)
  have left: "remaining (stop_run demo_queued) = 3"
    by (simp add: remaining_def reader_rank_def stop_run_def demo_queued_def queue_run_def demo_run_def scr_init_def)
  from shutdown_completes [OF demo_stop_reach [unfolded demo_run_def] closed, of demo_crypto]
  show ?thesis unfolding left by auto
qed

text \<open>What was accepted may be dropped at shutdown: \<open>select\<close> may take the stop token before the
  messages that wait. There is a run, without any failing write, that ends with both goroutines
  gone and an accepted message that was never written.\<close>

theorem shutdown_may_drop:
  "\<exists>r. scr_reach lib (new_run fresh_writer [] True False \<lparr>rd_data = [], rd_end = EOF\<rparr>
        \<lparr>rd_data = [], rd_end = EOF\<rparr>) r
     \<and> run_reader r = RDone \<and> \<not> run_writing r \<and> run_accepted r = [[7], [8]] \<and> run_log r = []"
proof -
  let ?r = "stop_run demo_queued"
  have inv: "scr_inv ?r"
    using scr_reach_inv [OF demo_stop_reach [where lib = lib]] scr_inv_init by (simp add: demo_run_def)
  have facts: "run_reader ?r = RStopping" "run_writing ?r" "run_accepted ?r = [[7], [8]]" "run_log ?r = []"
    by (simp_all add: stop_run_def demo_queued_def queue_run_def demo_run_def scr_init_def)
  obtain u cc where cc: "chan_send True (sc_chanClose (run_sc ?r)) = (Ok u, cc)"
    using inv facts by (auto simp: scr_inv_def chans_ok_def Let_def chan_send_Ok)
  let ?r1 = "?r\<lparr>run_sc := (run_sc ?r)\<lparr>sc_chanClose := cc\<rparr>, run_reader := RClosing\<rparr>"
  have s1: "scr_step lib ?r ?r1" by (rule scr_step.stop_send [OF facts(1) cc])
  have inv1: "scr_inv ?r1" by (rule scr_step_inv [OF s1 inv])
  then obtain v cw where cw: "chan_close (sc_chanWrite (run_sc ?r1)) = (Ok v, cw)"
    by (auto simp: scr_inv_def chans_ok_def Let_def chan_close_Ok)
  let ?r2 = "?r1\<lparr>run_sc := (run_sc ?r1)\<lparr>sc_chanWrite := cw\<rparr>, run_reader := RDone\<rparr>"
  have s2: "scr_step lib ?r1 ?r2" by (rule scr_step.stop_close [OF _ cw]) simp
  have "scr_inv ?r2" by (rule scr_step_inv [OF s2 inv1])
  then obtain r3 where r3: "scr_step lib ?r2 r3" "run_reader r3 = RDone" "\<not> run_writing r3"
    "run_accepted r3 = run_accepted ?r2" "run_log r3 = run_log ?r2"
    using stop_token_exit [of ?r2 lib] facts(2) by auto
  have "scr_reach lib demo_run r3"
    by (rule reach_step [OF reach_step [OF reach_step [OF demo_stop_reach s1] s2] r3(1)])
  with r3 facts show ?thesis unfolding demo_run_def by (intro exI [of _ r3]) simp
qed

section \<open>Sealing\<close>

definition sealed_ok :: "sc_run \<Rightarrow> bool" where
  "sealed_ok r \<longleftrightarrow> sc_key (run_sc r) \<noteq> [] \<and>
     (run_reader r \<noteq> RStarting \<longrightarrow> sc_aesgcm (run_sc r) \<noteq> None) \<and>
     (\<forall>(x, g) \<in> set (run_log r). g \<noteq> None)"

lemma turn_takes_cipher: "(x, g) \<in> set (turn_takes sel sc) \<Longrightarrow> g = sc_aesgcm sc"
  by (auto simp: turn_takes_def split: wp_case.splits list.splits)

lemma idle_turn:
  assumes "scr_inv r" "run_reader r = RStarting"
  shows "fst (sc_write_turn sel (run_sc r, rand)) = Block"
  using assms
  by (cases sel) (auto simp: scr_inv_def log_ok_def chans_ok_def Let_def sc_write_turn_def chan_recv_def)

lemma sealed_step:
  assumes "scr_step lib r r'" and lib: "crypto_ok lib" and inv: "scr_inv r" and ok: "sealed_ok r"
  shows "sealed_ok r'"
  using assms(1)
proof (cases rule: scr_step.cases)
  case (start sc')
  with ok makeAES_total(1) [OF lib] show ?thesis
    by (auto simp: sealed_ok_def sc_crypto_def split: if_splits sum.splits)
next
  case (start_panics e sc')
  with ok obtain a where "makeAES128GCM lib (sc_key (run_sc r)) = Inr a"
    using makeAES_total(1) [OF lib] by blast
  with start_panics ok show ?thesis by (simp add: sealed_ok_def sc_crypto_def)
next
  case (send d u sc')
  from send(3) show ?thesis
    by (cases rule: sc_Write_cases) (use ok send in \<open>auto simp: sealed_ok_def\<close>)
next
  case (turn sel sc' rand')
  then have "run_reader r \<noteq> RStarting" using idle_turn [OF inv, of sel "run_rand r"] by auto
  with ok turn sc_write_turn_fields [OF turn(3)] show ?thesis
    by (auto simp: sealed_ok_def dest: turn_takes_cipher)
next
  case (exit sel res sc' rand')
  then have "run_reader r \<noteq> RStarting" using idle_turn [OF inv, of sel "run_rand r"] by auto
  with ok exit sc_write_turn_fields [OF exit(3)] show ?thesis
    by (auto simp: sealed_ok_def sc_write_exit_def dest: turn_takes_cipher)
qed (use ok in \<open>auto simp: sealed_ok_def\<close>)


text \<open>A run with a key in which a message is queued and written.\<close>

definition keyed_run :: sc_run where
  "keyed_run = new_run fresh_writer ''k'' True False \<lparr>rd_data = replicate 12 3, rd_end = EOF\<rparr>
     \<lparr>rd_data = [], rd_end = EOF\<rparr>"

lemma busy_turn:
  assumes "ch_buf (sc_chanWrite sc) = x # xs"
  shows "fst (sc_write_turn CaseWrite (sc, rand)) \<noteq> Block"
proof -
  let ?sc = "sc\<lparr>sc_chanWrite := (sc_chanWrite sc)\<lparr>ch_buf := xs\<rparr>\<rparr>"
  obtain o2 sc2 r2 where w: "sc_write x (?sc, rand) = (o2, (sc2, r2))" by (metis prod_cases3)
  with sc_write_frame(6) [OF w] assms show ?thesis
    by (cases o2) (simp_all add: sc_write_turn_def chan_recv_def)
qed

lemma keyed_run_writes:
  "\<exists>r. scr_reach demo_crypto keyed_run r \<and> map fst (run_log r) = [Some [7]]"
proof -
  obtain g where g: "makeAES128GCM demo_crypto ''k'' = Inr g" using makeAES_total(1) demo_crypto_ok by blast
  let ?r1 = "keyed_run\<lparr>run_sc := (run_sc keyed_run)\<lparr>sc_aesgcm := Some g\<rparr>, run_reader := RReading\<rparr>"
  have s1: "scr_step demo_crypto keyed_run ?r1"
    by (rule scr_step.start) (simp_all add: keyed_run_def scr_init_def NewServerConn_def sc_crypto_def g)
  have s2: "scr_step demo_crypto ?r1 (queue_run ?r1 [7])"
    by (rule queue_run_step) (simp_all add: keyed_run_def scr_init_def NewServerConn_def make_chan_def)
  let ?r2 = "queue_run ?r1 [7]"
  have run: "run_writing ?r2" "run_log ?r2 = []" "ch_buf (sc_chanWrite (run_sc ?r2)) = [[7]]"
    by (simp_all add: queue_run_def keyed_run_def scr_init_def NewServerConn_def make_chan_def)
  obtain res sc' rand' where t: "sc_write_turn CaseWrite (run_sc ?r2, run_rand ?r2) = (res, (sc', rand'))"
    by (metis prod_cases3)
  have takes: "map fst (turn_takes CaseWrite (run_sc ?r2)) = [Some [7]]"
    using run by (simp add: turn_takes_def)
  have reach: "scr_reach demo_crypto keyed_run ?r2"
    by (rule reach_step [OF reach_step [OF reach_init s1] s2])
  show ?thesis
  proof (cases "res = Ok True")
    case True
    from reach_step [OF reach scr_step.turn [OF run(1) t [unfolded True]]] takes run(2)
    show ?thesis by (intro exI conjI) (assumption | simp)+
  next
    case False
    moreover have "res \<noteq> Block" using busy_turn [OF run(3), of "run_rand ?r2"] unfolding t by simp
    ultimately show ?thesis
      using reach_step [OF reach scr_step.exit [OF run(1) t]] takes run(2)
      by (intro exI conjI) (assumption | simp)+
  qed
qed


end
