(* ===== verification/ClientConnRun.thy ===== *)
theory ClientConnRun
  imports ClientConn Fixtures
begin

text \<open>
  The goroutines of one client connection as a step relation: \<open>run\<close>, which connects, starts a
  writing goroutine, reads until the stream fails and connects again; the writing goroutines it
  has started, which all serve the same unbuffered channel; and the callers of \<open>Close\<close>, who offer
  a token on an unbuffered channel that \<open>run\<close>, at the top of its loop, and every writing goroutine
  receive from. Goroutines that only differ in name are counted. What dialling yields, which
  stream it brings and whether a handler panics is the environment's choice. A goroutine that ends
  closes the stream the connection then has: a read of it may then fail at any time and every
  write fails. A panic nothing recovers ends the program.
\<close>

section \<open>The machine\<close>

datatype run_phase = RunInit | RunTop | RunDial | RunEnter | RunReading | RunExited | RunCrashed

record cc_run =
  cr_cc :: client_conn
  cr_rand :: reader
  cr_in :: reader
  cr_phase :: run_phase
  cr_spawned :: nat
  cr_writers :: nat
  cr_closers :: nat
  cr_connects :: nat
  cr_log :: "(bytes \<times> aead option) list"

definition ccr_init :: "client_conn \<Rightarrow> reader \<Rightarrow> reader \<Rightarrow> cc_run" where
  "ccr_init cc rand inp = \<lparr>cr_cc = cc, cr_rand = rand, cr_in = inp, cr_phase = RunInit,
     cr_spawned = 0, cr_writers = 0, cr_closers = 0, cr_connects = 0, cr_log = []\<rparr>"

text \<open>A connection that is marked connected is not dialled: its stream stays the one it was, which has
  nothing more to read when it has been closed.\<close>

definition stream_after :: "client_conn \<Rightarrow> reader \<Rightarrow> reader \<Rightarrow> reader" where
  "stream_after cc old new = (if \<not> cc_IsConnected cc then new
     else if cc_cut cc then \<lparr>rd_data = [], rd_end = Extern ''read on closed stream''\<rparr> else old)"

text \<open>The program after a panic that nothing recovers.\<close>

definition crash :: "cc_run \<Rightarrow> cc_run" where
  "crash r = r\<lparr>cr_phase := RunCrashed, cr_spawned := 0, cr_writers := 0, cr_closers := 0\<rparr>"

inductive ccr_step :: "crypto_lib \<Rightarrow> cc_run \<Rightarrow> cc_run \<Rightarrow> bool" for lib where
  init: "cr_phase r = RunInit \<Longrightarrow> cc_crypto lib (cr_cc r) = (None, cc') \<Longrightarrow>
    ccr_step lib r (r\<lparr>cr_cc := cc', cr_phase := RunTop\<rparr>)"
| init_panics: "cr_phase r = RunInit \<Longrightarrow> cc_crypto lib (cr_cc r) = (Some e, cc') \<Longrightarrow>
    ccr_step lib r (r\<lparr>cr_cc := cc', cr_phase := RunExited\<rparr>)"
| top_close: "cr_phase r = RunTop \<Longrightarrow> cr_closers r = Suc k \<Longrightarrow>
    ccr_step lib r (r\<lparr>cr_closers := k, cr_phase := RunExited\<rparr>)"
| top_default: "cr_phase r = RunTop \<Longrightarrow> cr_closers r = 0 \<Longrightarrow> ccr_step lib r (r\<lparr>cr_phase := RunDial\<rparr>)"
| dial_fails: "cr_phase r = RunDial \<Longrightarrow> cc_tryConnect dial (cr_cc r) = (Err e, cc') \<Longrightarrow>
    ccr_step lib r (r\<lparr>cr_cc := cc', cr_phase := RunTop\<rparr>)"
| dial: "cr_phase r = RunDial \<Longrightarrow> cc_tryConnect dial (cr_cc r) = (Ok u, cc') \<Longrightarrow>
    ccr_step lib r (r\<lparr>cr_cc := cc', cr_in := stream_after (cr_cc r) (cr_in r) inp,
      cr_phase := RunEnter, cr_spawned := Suc (cr_spawned r), cr_connects := Suc (cr_connects r)\<rparr>)"
| enter: "cr_phase r = RunEnter \<Longrightarrow> cc_crypto lib (cr_cc r) = (None, cc') \<Longrightarrow>
    ccr_step lib r (r\<lparr>cr_cc := cc', cr_phase := RunReading\<rparr>)"
| setup_panics: "cr_phase r = RunEnter \<Longrightarrow> cc_crypto lib (cr_cc r) = (Some e, cc') \<Longrightarrow>
    ccr_step lib r (r\<lparr>cr_cc := cc_shut cc', cr_phase := RunExited\<rparr>)"
| read: "cr_phase r = RunReading \<Longrightarrow> cc_conn (cr_cc r) \<noteq> None \<Longrightarrow> cc_read (cr_cc r) (cr_in r) = (Ok d, in') \<Longrightarrow>
    ccr_step lib r (r\<lparr>cr_in := in'\<rparr>)"
| handler_panics: "cr_phase r = RunReading \<Longrightarrow> cc_conn (cr_cc r) \<noteq> None \<Longrightarrow> cc_read (cr_cc r) (cr_in r) = (Ok d, in') \<Longrightarrow>
    ccr_step lib r (r\<lparr>cr_in := in', cr_cc := cc_shut (cr_cc r), cr_phase := RunExited\<rparr>)"
| read_panics: "cr_phase r = RunReading \<Longrightarrow> cc_conn (cr_cc r) \<noteq> None \<Longrightarrow> cc_read (cr_cc r) (cr_in r) = (Panic p, in') \<Longrightarrow>
    ccr_step lib r (r\<lparr>cr_in := in', cr_cc := cc_shut (cr_cc r), cr_phase := RunExited\<rparr>)"
| read_fails: "cr_phase r = RunReading \<Longrightarrow> cc_conn (cr_cc r) \<noteq> None \<Longrightarrow> cc_read (cr_cc r) (cr_in r) = (Err e, in') \<Longrightarrow>
    ccr_step lib r (r\<lparr>cr_in := in', cr_cc := cc_shut (cr_cc r), cr_phase := RunTop\<rparr>)"
| read_nil: "cr_phase r = RunReading \<Longrightarrow> cc_conn (cr_cc r) = None \<Longrightarrow>
    ccr_step lib r (r\<lparr>cr_cc := cc_shut (cr_cc r), cr_phase := RunExited\<rparr>)"
| read_cut: "cr_phase r = RunReading \<Longrightarrow> cc_cut (cr_cc r) \<Longrightarrow>
    ccr_step lib r (r\<lparr>cr_cc := cc_shut (cr_cc r), cr_phase := RunTop\<rparr>)"
| writer_starts: "cr_spawned r = Suc k \<Longrightarrow>
    ccr_step lib r (r\<lparr>cr_cc := cc_setConnected True (cr_cc r), cr_spawned := k,
      cr_writers := Suc (cr_writers r)\<rparr>)"
| writes: "cr_writers r = Suc k \<Longrightarrow>
    cc_write_turn (CcWrite d) (cr_cc r, cr_rand r) = (Ok True, (cc', rand')) \<Longrightarrow>
    ccr_step lib r (r\<lparr>cr_cc := cc', cr_rand := rand', cr_log := cr_log r @ [(d, cc_aesgcm (cr_cc r))]\<rparr>)"
| write_fails: "cr_writers r = Suc k \<Longrightarrow>
    cc_write_turn (CcWrite d) (cr_cc r, cr_rand r) = (res, (cc', rand')) \<Longrightarrow> res \<noteq> Ok True \<Longrightarrow>
    cc_write_exit cc' = (Ok u, cc'') \<Longrightarrow>
    ccr_step lib r (r\<lparr>cr_cc := cc'', cr_rand := rand', cr_writers := k,
      cr_log := cr_log r @ [(d, cc_aesgcm (cr_cc r))]\<rparr>)"
| write_crashes: "cr_writers r = Suc k \<Longrightarrow>
    cc_write_turn (CcWrite d) (cr_cc r, cr_rand r) = (res, (cc', rand')) \<Longrightarrow> res \<noteq> Ok True \<Longrightarrow>
    cc_write_exit cc' = (Panic p, cc'') \<Longrightarrow> ccr_step lib r (crash r)"
| writer_closes: "cr_writers r = Suc k \<Longrightarrow> cr_closers r = Suc n \<Longrightarrow>
    cc_write_turn CcClose (cr_cc r, cr_rand r) = (Ok False, (cc', rand')) \<Longrightarrow>
    cc_write_exit cc' = (Ok u, cc'') \<Longrightarrow>
    ccr_step lib r (r\<lparr>cr_cc := cc'', cr_rand := rand', cr_writers := k, cr_closers := n\<rparr>)"
| close_crashes: "cr_writers r = Suc k \<Longrightarrow> cr_closers r = Suc n \<Longrightarrow>
    cc_write_turn CcClose (cr_cc r, cr_rand r) = (Ok False, (cc', rand')) \<Longrightarrow>
    cc_write_exit cc' = (Panic p, cc'') \<Longrightarrow> ccr_step lib r (crash r)"
| close_called: "cr_phase r \<noteq> RunCrashed \<Longrightarrow> ccr_step lib r (r\<lparr>cr_closers := Suc (cr_closers r)\<rparr>)"

inductive_cases ccr_stepE: "ccr_step lib r r'"

inductive ccr_reach :: "crypto_lib \<Rightarrow> cc_run \<Rightarrow> cc_run \<Rightarrow> bool" for lib and r0 where
  reach_init: "ccr_reach lib r0 r0"
| reach_step: "ccr_reach lib r0 r \<Longrightarrow> ccr_step lib r r' \<Longrightarrow> ccr_reach lib r0 r'"

abbreviation new_cc_run :: "string \<Rightarrow> string \<Rightarrow> int \<Rightarrow> bool \<Rightarrow> reader \<Rightarrow> reader \<Rightarrow> cc_run" where
  "new_cc_run addr key i nd rand inp \<equiv> ccr_init (NewClientConn addr key i nd) rand inp"

lemma ccr_reach_trans:
  "ccr_reach lib r1 r2 \<Longrightarrow> ccr_reach lib r0 r1 \<Longrightarrow> ccr_reach lib r0 r2"
  by (induction rule: ccr_reach.induct) (auto intro: ccr_reach.reach_step)

section \<open>What the operations leave alone\<close>

lemma cc_crypto_frame:
  "cc_crypto lib cc = (res, cc') \<Longrightarrow> cc_key cc' = cc_key cc \<and> cc_connected cc' = cc_connected cc
     \<and> cc_conn cc' = cc_conn cc"
  by (auto simp: cc_crypto_def split: if_splits sum.splits)

lemma cc_tryConnect_frame:
  "cc_tryConnect dial cc = (res, cc') \<Longrightarrow> cc_key cc' = cc_key cc \<and> cc_aesgcm cc' = cc_aesgcm cc
     \<and> cc_connected cc' = cc_connected cc"
  by (auto simp: cc_tryConnect_def Let_def split: if_splits sum.splits)

lemma cc_setConnected_frame [simp]:
  "cc_key (cc_setConnected v cc) = cc_key cc" "cc_aesgcm (cc_setConnected v cc) = cc_aesgcm cc"
  "cc_connected (cc_setConnected v cc) = v" "cc_conn (cc_setConnected v cc) = cc_conn cc"
  by (simp_all add: cc_setConnected_def)

lemma cc_shut_frame [simp]:
  "cc_key (cc_shut cc) = cc_key cc" "cc_aesgcm (cc_shut cc) = cc_aesgcm cc" "\<not> cc_connected (cc_shut cc)"
  "cc_conn (cc_shut cc) = map_option wr_close (cc_conn cc)"
  by (simp_all add: cc_shut_def)

lemma cc_write_exit_frame:
  assumes "cc_write_exit cc = (res, cc')"
  shows "cc_key cc' = cc_key cc" "cc_aesgcm cc' = cc_aesgcm cc" "\<not> cc_connected cc'"
    "res = Ok u \<longleftrightarrow> cc_conn cc \<noteq> None" "res = Ok u \<Longrightarrow> cc' = cc_shut cc"
  using assms by (auto simp: cc_write_exit_def split: option.splits)

lemma crash_simps [simp]:
  "cr_phase (crash r) = RunCrashed" "cr_spawned (crash r) = 0" "cr_writers (crash r) = 0"
  "cr_closers (crash r) = 0" "cr_cc (crash r) = cr_cc r" "cr_in (crash r) = cr_in r"
  "cr_connects (crash r) = cr_connects r" "cr_log (crash r) = cr_log r"
  by (simp_all add: crash_def)

lemma cc_write_turn_frame:
  assumes "cc_write_turn sel (cc, rand) = (res, (cc', rand'))"
  shows "cc_key cc' = cc_key cc" "cc_aesgcm cc' = cc_aesgcm cc" "cc_conn cc' = None \<longleftrightarrow> cc_conn cc = None"
  using assms
  by (auto simp: cc_write_turn_def cc_write_def cc_flush_def wr_write_def read_full_def Let_def
      split: ccw_case.splits option.splits prod.splits outcome.splits if_splits)

section \<open>The end of \<open>run\<close> is final\<close>

text \<open>On a closed stream a writing goroutine writes nothing and ends with the message it takes.\<close>

lemma cc_write_cut:
  assumes "cc_cut cc" and "cc_write_turn (CcWrite d) (cc, rand) = (res, (cc', rand'))"
  shows "res \<noteq> Ok True" "cc_conn cc' = cc_conn cc"
  using assms
  by (auto simp: cc_cut_def cc_write_turn_def cc_write_def cc_flush_def wr_write_def read_full_def Let_def
      split: option.splits prod.splits outcome.splits if_splits)

lemma cc_cut_shut [simp]: "cc_cut cc \<Longrightarrow> cc_cut (cc_shut cc)" "cc_out (cc_shut cc) = cc_out cc"
  by (auto simp: cc_cut_def cc_out_def split: option.splits)

lemma cc_cut_conn: "cc_conn cc' = cc_conn cc \<Longrightarrow> cc_cut cc' = cc_cut cc \<and> cc_out cc' = cc_out cc"
  by (simp add: cc_cut_def cc_out_def)

definition exited_from :: "cc_run \<Rightarrow> cc_run \<Rightarrow> bool" where
  "exited_from r r' \<longleftrightarrow> cr_phase r' = RunExited \<and> cr_connects r' = cr_connects r \<and> cr_in r' = cr_in r
     \<and> cc_cut (cr_cc r') \<and> cc_out (cr_cc r') = cc_out (cr_cc r)
     \<and> length (cr_log r') + cr_spawned r' + cr_writers r' \<le> length (cr_log r) + cr_spawned r + cr_writers r"

lemma exited_step:
  assumes "ccr_step lib r r'" and ph: "cr_phase r = RunExited" and w: "cc_cut (cr_cc r)"
  shows "exited_from r r'"
proof -
  have conn: "cc_conn (cr_cc r) \<noteq> None" using w by (auto simp: cc_cut_def split: option.splits)
  from assms(1) show ?thesis
  proof (cases rule: ccr_step.cases)
    case (write_crashes k d res cc' rand' p cc'')
    with conn cc_write_cut(2) [OF w write_crashes(3)] cc_write_exit_frame(4) [OF write_crashes(5)] show ?thesis by auto
  next
    case (close_crashes k n cc' rand' p cc'')
    with conn cc_write_turn_frame(3) [OF close_crashes(4)] cc_write_exit_frame(4) [OF close_crashes(5)] show ?thesis by auto
  next
    case (write_fails k d res cc' rand' u cc'')
    with w ph cc_cut_conn [OF cc_write_cut(2) [OF w write_fails(3)]] cc_write_exit_frame(5) [OF write_fails(5)]
    show ?thesis by (simp add: exited_from_def)
  next
    case (writer_closes k n cc' rand' u cc'')
    with w ph cc_write_exit_frame(5) [OF writer_closes(5)] show ?thesis
      by (simp add: exited_from_def cc_write_turn_def)
  next
    case (writes k d cc' rand')
    with cc_write_cut(1) [OF w writes(3)] show ?thesis by simp
  next
    case (writer_starts k)
    with ph w cc_cut_conn [of "cc_setConnected True (cr_cc r)" "cr_cc r"] show ?thesis by (simp add: exited_from_def)
  qed (use ph w in \<open>auto simp: exited_from_def\<close>)
qed

lemma exited_reach:
  assumes "ccr_reach lib r r'" and "cr_phase r = RunExited" and "cc_cut (cr_cc r)"
  shows "exited_from r r'"
  using assms
proof (induction rule: ccr_reach.induct)
  case reach_init
  then show ?case by (simp add: exited_from_def)
next
  case (reach_step r1 r2)
  then show ?case using exited_step [OF reach_step.hyps(2)] by (simp add: exited_from_def)
qed

text \<open>C31. A panic while a message is handled takes the connection out for good: \<open>readProcess\<close>
  returns nil, \<open>run\<close> leaves its loop, and from then on, whatever happens, nothing is read, the
  server is not dialled again and not a byte is written. The connection still takes messages, at
  most one for each writing goroutine it has, and loses them.\<close>

theorem handler_panic_is_final:
  assumes rd: "cc_read (cr_cc r) (cr_in r) = (Ok d, in')" and phase: "cr_phase r = RunReading"
    and h: "h d st = (Panic p, st')"
    and lib: "cc_crypto lib (cr_cc r) = (None, cr_cc r)" and w: "cc_conn (cr_cc r) \<noteq> None"
  shows "fst (cc_readProcess lib (Some h) (cr_cc r) (cr_in r) st) = Ok ()
    \<and> (\<exists>r1. ccr_step lib r r1 \<and> cr_phase r1 = RunExited \<and> \<not> cc_connected (cr_cc r1)
        \<and> (\<forall>r2. ccr_reach lib r1 r2 \<longrightarrow> cr_phase r2 = RunExited \<and> cr_connects r2 = cr_connects r
              \<and> cr_in r2 = in' \<and> cc_out (cr_cc r2) = cc_out (cr_cc r)
              \<and> length (cr_log r2) \<le> length (cr_log r) + cr_spawned r + cr_writers r))"
proof
  show "fst (cc_readProcess lib (Some h) (cr_cc r) (cr_in r) st) = Ok ()"
    by (simp add: cc_readProcess_def lib w POE_def cc_read_loop.simps [of _ "cr_cc r"] rd h)
  let ?r1 = "r\<lparr>cr_in := in', cr_cc := cc_shut (cr_cc r), cr_phase := RunExited\<rparr>"
  have s: "ccr_step lib r ?r1" by (rule ccr_step.handler_panics [OF phase w rd])
  have "cc_cut (cc_shut (cr_cc r))" using w by (auto simp: cc_cut_def)
  then have "\<forall>r2. ccr_reach lib ?r1 r2 \<longrightarrow> exited_from ?r1 r2" using exited_reach [of lib ?r1] by simp
  then show "\<exists>r1. ccr_step lib r r1 \<and> cr_phase r1 = RunExited \<and> \<not> cc_connected (cr_cc r1)
        \<and> (\<forall>r2. ccr_reach lib r1 r2 \<longrightarrow> cr_phase r2 = RunExited \<and> cr_connects r2 = cr_connects r
              \<and> cr_in r2 = in' \<and> cc_out (cr_cc r2) = cc_out (cr_cc r)
              \<and> length (cr_log r2) \<le> length (cr_log r) + cr_spawned r + cr_writers r)"
    using s by (intro exI [of _ ?r1]) (auto simp: exited_from_def)
qed

text \<open>A connection that reads the empty message, unsealed, into a handler that panics.\<close>

definition reading_run :: cc_run where
  "reading_run = (new_cc_run ''8.8.8.80:8080'' [] 0 False \<lparr>rd_data = [], rd_end = EOF\<rparr>
     \<lparr>rd_data = [0, 0, 0], rd_end = EOF\<rparr>)\<lparr>cr_phase := RunReading,
     cr_cc := (NewClientConn ''8.8.8.80:8080'' [] 0 False)\<lparr>cc_conn := Some fresh_writer\<rparr>\<rparr>"

lemma reading_run_read:
  "cc_read (cr_cc reading_run) (cr_in reading_run) = (Ok [], \<lparr>rd_data = [], rd_end = EOF\<rparr>)"
  by (simp add: reading_run_def ccr_init_def NewClientConn_def cc_read_def go_bind_def read_full_def
      go_return_def of_le16_def)

lemma cc_crypto_no_key: "cc_key cc = [] \<Longrightarrow> cc_crypto lib cc = (None, cc)"
  by (simp add: cc_crypto_def)

lemma reading_run_simps [simp]: "cr_phase reading_run = RunReading" "cc_key (cr_cc reading_run) = []"
  "cc_conn (cr_cc reading_run) \<noteq> None"
  by (simp_all add: reading_run_def ccr_init_def NewClientConn_def)

theorem handler_panic_is_final_witness:
  "fst (cc_readProcess demo_crypto (Some (\<lambda>_. go_panic ''out of range''))
      (cr_cc reading_run) (cr_in reading_run) ()) = Ok ()
    \<and> (\<exists>r1. ccr_step demo_crypto reading_run r1 \<and> cr_phase r1 = RunExited \<and> \<not> cc_connected (cr_cc r1)
        \<and> (\<forall>r2. ccr_reach demo_crypto r1 r2 \<longrightarrow> cr_phase r2 = RunExited
              \<and> cr_connects r2 = cr_connects reading_run \<and> cr_in r2 = \<lparr>rd_data = [], rd_end = EOF\<rparr>
              \<and> cc_out (cr_cc r2) = cc_out (cr_cc reading_run)
              \<and> length (cr_log r2) \<le> length (cr_log reading_run) + cr_spawned reading_run + cr_writers reading_run))"
  by (rule handler_panic_is_final [OF reading_run_read]) (simp_all add: go_panic_def cc_crypto_no_key)

section \<open>Writing goroutines accumulate\<close>

text \<open>\<open>run\<close> at the top of its loop, disconnected, with \<open>n\<close> writing goroutines.\<close>

definition idle_run :: "crypto_lib \<Rightarrow> nat \<Rightarrow> cc_run \<Rightarrow> bool" where
  "idle_run lib n r \<longleftrightarrow> cr_phase r = RunTop \<and> cr_closers r = 0 \<and> cr_spawned r = 0 \<and> cr_writers r = n
     \<and> cr_connects r = n \<and> \<not> cc_connected (cr_cc r)
     \<and> cr_log r = [] \<and> (n \<noteq> 0 \<longrightarrow> cc_conn (cr_cc r) \<noteq> None) \<and> (cc_key (cr_cc r) = [] \<or> crypto_ok lib)"

lemma cc_crypto_total:
  assumes "cc_key cc = [] \<or> crypto_ok lib"
  shows "\<exists>cc'. cc_crypto lib cc = (None, cc') \<and> cc_key cc' = cc_key cc \<and> cc_connected cc' = cc_connected cc
    \<and> cc_conn cc' = cc_conn cc"
proof (cases "cc_key cc = []")
  case False
  with assms obtain a where "makeAES128GCM lib (cc_key cc) = Inr a" using makeAES_total(1) by blast
  with False show ?thesis by (simp add: cc_crypto_def)
qed (simp add: cc_crypto_def)

lemma cc_read_end: "cc_read cc \<lparr>rd_data = [], rd_end = e\<rparr> = (Err e, \<lparr>rd_data = [], rd_end = e\<rparr>)"
  by (simp add: cc_read_def go_bind_def read_full_def)

text \<open>One round: the dial succeeds, the writing goroutine starts, the stream ends at once.\<close>

lemma reconnect_round:
  assumes "idle_run lib n r"
  shows "\<exists>r'. ccr_reach lib r r' \<and> idle_run lib (Suc n) r'"
proof -
  let ?eof = "\<lparr>rd_data = [], rd_end = EOF\<rparr> :: reader"
  let ?cc = "(cr_cc r)\<lparr>cc_session := Some [], cc_conn := Some fresh_writer\<rparr>"
  note idle = assms [unfolded idle_run_def]
  let ?r1 = "r\<lparr>cr_phase := RunDial\<rparr>"
  have s1: "ccr_step lib r ?r1" using idle by (intro ccr_step.top_default) simp_all
  have dial: "cc_tryConnect (Inr ([], Inr fresh_writer)) (cr_cc ?r1) = (Ok (), ?cc)"
    using idle by (simp add: cc_tryConnect_def cc_IsConnected_def)
  let ?r2 = "r\<lparr>cr_cc := ?cc, cr_in := ?eof, cr_phase := RunEnter, cr_spawned := 1, cr_connects := Suc n\<rparr>"
  have s2: "ccr_step lib ?r1 ?r2"
    using ccr_step.dial [OF _ dial, where inp = ?eof and lib = lib] idle
    by (simp add: stream_after_def cc_IsConnected_def)
  obtain cc' where cc': "cc_crypto lib ?cc = (None, cc')" "cc_key cc' = cc_key (cr_cc r)" "cc_conn cc' \<noteq> None"
    using cc_crypto_total [of ?cc lib] idle by auto
  let ?r3 = "?r2\<lparr>cr_cc := cc', cr_phase := RunReading\<rparr>"
  have s3: "ccr_step lib ?r2 ?r3" using cc' by (intro ccr_step.enter) simp_all
  let ?r4 = "?r3\<lparr>cr_cc := cc_setConnected True cc', cr_spawned := 0, cr_writers := Suc n\<rparr>"
  have s4: "ccr_step lib ?r3 ?r4"
    using ccr_step.writer_starts [of ?r3 0] idle by simp
  let ?r5 = "?r4\<lparr>cr_in := ?eof, cr_cc := cc_shut (cr_cc ?r4), cr_phase := RunTop\<rparr>"
  have s5: "ccr_step lib ?r4 ?r5"
    by (rule ccr_step.read_fails [where e = EOF]) (use cc' in \<open>simp_all add: cc_read_end\<close>)
  have "ccr_reach lib r ?r5"
    by (rule ccr_reach.reach_step [OF ccr_reach.reach_step [OF ccr_reach.reach_step [OF
        ccr_reach.reach_step [OF ccr_reach.reach_step [OF ccr_reach.reach_init s1] s2] s3] s4] s5])
  moreover have "idle_run lib (Suc n) ?r5" using idle cc' by (auto simp: idle_run_def)
  ultimately show ?thesis by blast
qed

lemma reconnects_reach:
  assumes "key = [] \<or> crypto_ok lib"
  shows "\<exists>r. ccr_reach lib (new_cc_run addr key i nd rand inp) r \<and> idle_run lib n r"
proof (induction n)
  case 0
  let ?r = "new_cc_run addr key i nd rand inp"
  obtain cc' where cc': "cc_crypto lib (cr_cc ?r) = (None, cc')" "cc_key cc' = key" "\<not> cc_connected cc'"
    using cc_crypto_total [of "cr_cc ?r" lib] assms by (auto simp: ccr_init_def NewClientConn_def)
  have "ccr_step lib ?r (?r\<lparr>cr_cc := cc', cr_phase := RunTop\<rparr>)"
    by (rule ccr_step.init [OF _ cc'(1)]) (simp add: ccr_init_def)
  moreover have "idle_run lib 0 (?r\<lparr>cr_cc := cc', cr_phase := RunTop\<rparr>)"
    using cc' assms by (simp add: idle_run_def ccr_init_def)
  ultimately show ?case using ccr_reach.reach_step [OF ccr_reach.reach_init] by blast
next
  case (Suc n)
  then show ?case using reconnect_round ccr_reach_trans by blast
qed

text \<open>Reconnecting leaks: a writing goroutine does not end when its stream does, only on a failed
  write or a close token. For every number \<open>n\<close> there is a run that reconnects \<open>n\<close> times and has
  \<open>n\<close> writing goroutines, all receiving from the one channel.\<close>

theorem reconnects_leak_writers:
  assumes "key = [] \<or> crypto_ok lib"
  shows "\<exists>r. ccr_reach lib (new_cc_run addr key i nd rand inp) r \<and> cr_connects r = n \<and> cr_writers r = n"
proof -
  obtain r where "ccr_reach lib (new_cc_run addr key i nd rand inp) r" "idle_run lib n r"
    by (rule exE [OF reconnects_reach [OF assms]]) (erule conjE, rule that)
  then show ?thesis by (auto simp: idle_run_def)
qed

theorem reconnects_leak_writers_witness:
  "\<exists>r. ccr_reach demo_crypto (new_cc_run ''8.8.8.80:8080'' ''hahaha'' 0 False
      \<lparr>rd_data = [], rd_end = EOF\<rparr> \<lparr>rd_data = [], rd_end = EOF\<rparr>) r
    \<and> cr_connects r = 100 \<and> cr_writers r = 100"
  by (rule reconnects_leak_writers) simp

section \<open>The close token\<close>

text \<open>C37. \<open>Close\<close> does not always close: while the connection is being read, only a writing
  goroutine can take the token. It ends and takes the stream with it, so that the reading fails
  and \<open>run\<close> is back at the top of its loop, with no token left: it dials again.\<close>

theorem close_token_lost:
  assumes phase: "cr_phase r = RunReading" and w: "cr_writers r = Suc k" and c: "cr_closers r = 0"
    and conn: "cc_conn (cr_cc r) = Some st"
  shows "\<exists>r1 r2. ccr_step lib r r1 \<and> cr_closers r1 = 1 \<and> ccr_reach lib r1 r2
    \<and> cr_phase r2 = RunDial \<and> cr_closers r2 = 0 \<and> cr_writers r2 = k \<and> \<not> cc_connected (cr_cc r2)"
proof -
  let ?r1 = "r\<lparr>cr_closers := Suc (cr_closers r)\<rparr>"
  have s1: "ccr_step lib r ?r1" using phase by (intro ccr_step.close_called) simp
  let ?r2 = "r\<lparr>cr_cc := cc_shut (cr_cc r), cr_writers := k, cr_closers := 0\<rparr>"
  have "cc_write_turn CcClose (cr_cc ?r1, cr_rand ?r1) = (Ok False, (cr_cc ?r1, cr_rand ?r1))"
    "cc_write_exit (cr_cc ?r1) = (Ok (), cc_shut (cr_cc r))"
    using conn by (simp_all add: cc_write_turn_def cc_write_exit_def)
  from ccr_step.writer_closes [OF _ _ this, of k 0 lib] have s2: "ccr_step lib ?r1 ?r2"
    using w c by simp
  let ?r3 = "?r2\<lparr>cr_cc := cc_shut (cr_cc ?r2), cr_phase := RunTop\<rparr>"
  have s3: "ccr_step lib ?r2 ?r3"
    using conn phase by (intro ccr_step.read_cut) (simp_all add: cc_cut_def)
  have s4: "ccr_step lib ?r3 (?r3\<lparr>cr_phase := RunDial\<rparr>)" by (rule ccr_step.top_default) simp_all
  have "ccr_reach lib ?r1 (?r3\<lparr>cr_phase := RunDial\<rparr>)"
    by (rule ccr_reach.reach_step [OF ccr_reach.reach_step [OF ccr_reach.reach_step [OF
        ccr_reach.reach_init s2] s3] s4])
  with s1 c show ?thesis by (intro exI [of _ ?r1] exI [of _ "?r3\<lparr>cr_phase := RunDial\<rparr>"]) simp
qed

definition ending_run :: cc_run where
  "ending_run = (new_cc_run ''8.8.8.80:8080'' [] 0 False \<lparr>rd_data = [], rd_end = EOF\<rparr>
     \<lparr>rd_data = [], rd_end = EOF\<rparr>)\<lparr>cr_phase := RunReading, cr_writers := 1,
     cr_cc := (NewClientConn ''8.8.8.80:8080'' [] 0 False)\<lparr>cc_conn := Some fresh_writer\<rparr>\<rparr>"

theorem close_token_lost_witness:
  "\<exists>r1 r2. ccr_step demo_crypto ending_run r1 \<and> cr_closers r1 = 1 \<and> ccr_reach demo_crypto r1 r2
    \<and> cr_phase r2 = RunDial \<and> cr_closers r2 = 0 \<and> cr_writers r2 = 0 \<and> \<not> cc_connected (cr_cc r2)"
  by (rule close_token_lost) (simp_all add: ending_run_def ccr_init_def)

section \<open>A stream that does not open\<close>

text \<open>C36. A failed \<open>OpenStreamSync\<close> can end the whole program. It leaves the connection with a nil
  stream; a writing goroutine of an earlier stream is still there, its next message fails for want
  of a stream, and its deferred function then calls \<open>Close\<close> of nil, where nothing recovers the
  panic. For every session address and error there is such a run.\<close>

theorem failed_stream_crashes:
  assumes "key = [] \<or> crypto_ok lib"
  shows "\<exists>r1 cc'. ccr_reach lib (new_cc_run addr key i nd rand inp) r1 \<and> cr_connects r1 = 1
    \<and> cc_tryConnect (Inr (sess, Inl e)) (cr_cc r1) = (Err e, cc')
    \<and> (let r2 = r1\<lparr>cr_cc := cc', cr_phase := RunTop\<rparr> in ccr_step lib r1 r2 \<and> ccr_step lib r2 (crash r2))"
proof -
  obtain r where r: "ccr_reach lib (new_cc_run addr key i nd rand inp) r" "idle_run lib 1 r"
    by (rule exE [OF reconnects_reach [OF assms]]) (erule conjE, rule that)
  note idle = r(2) [unfolded idle_run_def]
  let ?r1 = "r\<lparr>cr_phase := RunDial\<rparr>" and ?cc = "(cr_cc r)\<lparr>cc_session := Some sess, cc_conn := None\<rparr>"
  let ?r2 = "?r1\<lparr>cr_cc := ?cc, cr_phase := RunTop\<rparr>"
  have "ccr_step lib r ?r1" using idle by (intro ccr_step.top_default) simp_all
  with r(1) have reach: "ccr_reach lib (new_cc_run addr key i nd rand inp) ?r1" by (rule ccr_reach.reach_step)
  have dial: "cc_tryConnect (Inr (sess, Inl e)) (cr_cc ?r1) = (Err e, ?cc)"
    using idle by (simp add: cc_tryConnect_def cc_IsConnected_def)
  then have s2: "ccr_step lib ?r1 ?r2" by (intro ccr_step.dial_fails) simp_all
  have turn: "cc_write_turn (CcWrite []) (cr_cc ?r2, cr_rand ?r2)
      = (Err (Errorf ''no connection''), (?cc, cr_rand r))"
    by (simp add: cc_write_turn_def cc_write_def)
  have exit: "cc_write_exit ?cc
      = (Panic ''invalid memory address or nil pointer dereference'', cc_setConnected False ?cc)"
    by (simp add: cc_write_exit_def)
  have "cr_writers ?r2 = Suc 0" using idle by simp
  from ccr_step.write_crashes [OF this turn _ exit] have "ccr_step lib ?r2 (crash ?r2)" by simp
  with reach dial s2 idle show ?thesis unfolding Let_def by (intro exI [of _ ?r1] exI [of _ ?cc]) simp
qed

theorem failed_stream_crashes_witness:
  "\<exists>r1 cc'. ccr_reach demo_crypto (new_cc_run ''8.8.8.80:8080'' ''hahaha'' 0 False
      \<lparr>rd_data = [], rd_end = EOF\<rparr> \<lparr>rd_data = [], rd_end = EOF\<rparr>) r1 \<and> cr_connects r1 = 1
    \<and> cc_tryConnect (Inr (''[::]:7000'', Inl EOF)) (cr_cc r1) = (Err EOF, cc')
    \<and> (let r2 = r1\<lparr>cr_cc := cc', cr_phase := RunTop\<rparr> in
        ccr_step demo_crypto r1 r2 \<and> ccr_step demo_crypto r2 (crash r2))"
  by (rule failed_stream_crashes) simp

section \<open>Coming back\<close>

text \<open>From the dial on: a connection that is not marked connected gets a new stream and reads it.\<close>

lemma dial_reads:
  assumes ph: "cr_phase r = RunDial" and key: "cc_key (cr_cc r) = [] \<or> crypto_ok lib"
    and off: "\<not> cc_connected (cr_cc r)"
  shows "\<exists>r'. ccr_reach lib r r' \<and> cr_phase r' = RunReading \<and> cr_in r' = inp
    \<and> cc_conn (cr_cc r') = Some w \<and> cr_connects r' = Suc (cr_connects r)
    \<and> cr_spawned r' = Suc (cr_spawned r) \<and> cr_closers r' = cr_closers r \<and> cc_key (cr_cc r') = cc_key (cr_cc r)"
proof -
  let ?cc = "(cr_cc r)\<lparr>cc_session := Some [], cc_conn := Some w\<rparr>"
  have d: "cc_tryConnect (Inr ([], Inr w)) (cr_cc r) = (Ok (), ?cc)"
    using off by (simp add: cc_tryConnect_def cc_IsConnected_def)
  let ?r1 = "r\<lparr>cr_cc := ?cc, cr_in := inp, cr_phase := RunEnter, cr_spawned := Suc (cr_spawned r),
      cr_connects := Suc (cr_connects r)\<rparr>"
  have s1: "ccr_step lib r ?r1"
    using ccr_step.dial [OF ph d, where inp = inp and lib = lib] off by (simp add: stream_after_def cc_IsConnected_def)
  obtain cc' where cc': "cc_crypto lib ?cc = (None, cc')" "cc_conn cc' = Some w" "cc_key cc' = cc_key (cr_cc r)"
    using cc_crypto_total [of "?cc" lib] key by auto
  let ?r2 = "?r1\<lparr>cr_cc := cc', cr_phase := RunReading\<rparr>"
  have s2: "ccr_step lib ?r1 ?r2" using cc' by (intro ccr_step.enter) simp_all
  show ?thesis
    by (intro exI [of _ ?r2] conjI ccr_reach.reach_step [OF ccr_reach.reach_step [OF ccr_reach.reach_init s1] s2])
      (simp_all add: cc')
qed

lemma top_reads:
  assumes ph: "cr_phase r = RunTop" and key: "cc_key (cr_cc r) = [] \<or> crypto_ok lib"
    and off: "\<not> cc_connected (cr_cc r)" "cr_closers r = 0"
  shows "\<exists>r'. ccr_reach lib r r' \<and> cr_phase r' = RunReading \<and> cr_in r' = inp
    \<and> cc_conn (cr_cc r') = Some w \<and> cr_connects r' = Suc (cr_connects r)"
proof -
  have s: "ccr_step lib r (r\<lparr>cr_phase := RunDial\<rparr>)" using ph off(2) by (rule ccr_step.top_default)
  from dial_reads [of "r\<lparr>cr_phase := RunDial\<rparr>" lib inp w] key off obtain r'
    where "ccr_reach lib (r\<lparr>cr_phase := RunDial\<rparr>) r'" "cr_phase r' = RunReading" "cr_in r' = inp"
      "cc_conn (cr_cc r') = Some w" "cr_connects r' = Suc (cr_connects r)" by auto
  with ccr_reach_trans [OF this(1) ccr_reach.reach_step [OF ccr_reach.reach_init s]] show ?thesis by blast
qed



text \<open>The client is back at the dial before the writing goroutine of its first stream has started.\<close>

lemma hasty_reach:
  assumes "key = [] \<or> crypto_ok lib"
  shows "\<exists>r. ccr_reach lib (new_cc_run addr key i nd rand inp) r \<and> cr_phase r = RunDial \<and> cr_spawned r = 1
    \<and> \<not> cc_connected (cr_cc r) \<and> cr_closers r = 0 \<and> (cc_key (cr_cc r) = [] \<or> crypto_ok lib)"
proof -
  obtain r where r: "ccr_reach lib (new_cc_run addr key i nd rand inp) r" "idle_run lib 0 r"
    by (rule exE [OF reconnects_reach [OF assms]]) (erule conjE, rule that)
  note idle = r(2) [unfolded idle_run_def]
  let ?eof = "\<lparr>rd_data = [], rd_end = EOF\<rparr>" and ?r1 = "r\<lparr>cr_phase := RunDial\<rparr>"
  have s1: "ccr_step lib r ?r1" using idle by (intro ccr_step.top_default) simp_all
  obtain r2 where r2: "ccr_reach lib ?r1 r2" "cr_phase r2 = RunReading" "cr_in r2 = ?eof"
    "cc_conn (cr_cc r2) = Some fresh_writer" "cr_spawned r2 = 1" "cr_closers r2 = 0" "cc_key (cr_cc r2) = cc_key (cr_cc r)"
    using dial_reads [of ?r1 lib ?eof fresh_writer] idle by auto
  let ?r3 = "r2\<lparr>cr_in := ?eof, cr_cc := cc_shut (cr_cc r2), cr_phase := RunTop\<rparr>"
  have s3: "ccr_step lib r2 ?r3"
    by (rule ccr_step.read_fails [where e = EOF]) (simp_all add: r2 cc_read_end)
  have s4: "ccr_step lib ?r3 (?r3\<lparr>cr_phase := RunDial\<rparr>)" by (rule ccr_step.top_default) (simp_all add: r2)
  have "ccr_reach lib (new_cc_run addr key i nd rand inp) (?r3\<lparr>cr_phase := RunDial\<rparr>)"
    by (rule ccr_reach.reach_step [OF ccr_reach.reach_step [OF ccr_reach_trans [OF r2(1)
        ccr_reach.reach_step [OF r(1) s1]] s3] s4])
  with r2 idle show ?thesis by (intro exI [of _ "?r3\<lparr>cr_phase := RunDial\<rparr>"]) auto
qed

text \<open>C35. A writing goroutine that starts late can keep the client from ever coming back: it marks the
  connection connected after the stream it was started for has ended and the next one has failed to
  open. \<open>tryConnect\<close> then skips the dial, the reading goroutine reads a nil stream, its panic is
  taken for a regular end, and \<open>run\<close> is over, from a start with any key.\<close>

theorem nil_stream_is_final:
  assumes "key = [] \<or> crypto_ok lib"
  shows "\<exists>r1 r2 r3. ccr_reach lib (new_cc_run addr key i nd rand inp) r1 \<and> cc_conn (cr_cc r1) = None
    \<and> ccr_step lib r1 r2 \<and> cc_connected (cr_cc r2) \<and> ccr_reach lib r2 r3 \<and> cr_phase r3 = RunExited"
proof -
  obtain r where r: "ccr_reach lib (new_cc_run addr key i nd rand inp) r" "cr_phase r = RunDial" "cr_spawned r = Suc 0"
    "\<not> cc_connected (cr_cc r)" "cr_closers r = 0" "cc_key (cr_cc r) = [] \<or> crypto_ok lib"
    by (rule exE [OF hasty_reach [OF assms]]) (elim conjE, rule that; simp)
  let ?cc = "(cr_cc r)\<lparr>cc_session := Some [], cc_conn := None\<rparr>"
  let ?r1 = "r\<lparr>cr_cc := ?cc, cr_phase := RunTop\<rparr>"
  have s1: "ccr_step lib r ?r1"
    by (rule ccr_step.dial_fails [OF r(2), where dial = "Inr ([], Inl EOF)" and e = EOF])
      (use r(4) in \<open>simp add: cc_tryConnect_def cc_IsConnected_def\<close>)
  let ?r2 = "?r1\<lparr>cr_cc := cc_setConnected True ?cc, cr_spawned := 0, cr_writers := Suc (cr_writers r)\<rparr>"
  have s2: "ccr_step lib ?r1 ?r2" using ccr_step.writer_starts [of ?r1 0 lib] r(3) by simp
  let ?r3 = "?r2\<lparr>cr_phase := RunDial\<rparr>"
  have s3: "ccr_step lib ?r2 ?r3" using r(5) by (intro ccr_step.top_default) simp_all
  have skip: "cc_tryConnect (Inl EOF) (cr_cc ?r3) = (Ok (), cr_cc ?r3)"
    by (simp add: cc_tryConnect_def cc_IsConnected_def)
  let ?r4 = "?r3\<lparr>cr_cc := cr_cc ?r3, cr_in := stream_after (cr_cc ?r3) (cr_in ?r3) (cr_in ?r3),
      cr_phase := RunEnter, cr_spawned := Suc (cr_spawned ?r3), cr_connects := Suc (cr_connects ?r3)\<rparr>"
  have "cr_phase ?r3 = RunDial" by simp
  from ccr_step.dial [OF this skip] have s4: "ccr_step lib ?r3 ?r4" .
  obtain cc' where cc': "cc_crypto lib (cr_cc ?r4) = (None, cc')" "cc_conn cc' = None"
    using cc_crypto_total [of "cr_cc ?r4" lib] r(6) by auto
  let ?r5 = "?r4\<lparr>cr_cc := cc', cr_phase := RunReading\<rparr>"
  have s5: "ccr_step lib ?r4 ?r5" using cc' by (intro ccr_step.enter) simp_all
  let ?r6 = "?r5\<lparr>cr_cc := cc_shut cc', cr_phase := RunExited\<rparr>"
  have s6: "ccr_step lib ?r5 ?r6" using ccr_step.read_nil [of ?r5 lib] cc' by simp
  have "ccr_reach lib ?r2 ?r6"
    by (rule ccr_reach.reach_step [OF ccr_reach.reach_step [OF ccr_reach.reach_step [OF ccr_reach.reach_step
      [OF ccr_reach.reach_init s3] s4] s5] s6])
  with s2 ccr_reach.reach_step [OF r(1) s1] show ?thesis
    by (intro exI [of _ ?r1] exI [of _ ?r2] exI [of _ ?r6]) simp
qed

theorem nil_stream_is_final_witness:
  "\<exists>r1 r2 r3. ccr_reach demo_crypto (new_cc_run ''8.8.8.80:8080'' ''hahaha'' 0 False
      \<lparr>rd_data = [], rd_end = EOF\<rparr> \<lparr>rd_data = [], rd_end = EOF\<rparr>) r1 \<and> cc_conn (cr_cc r1) = None
    \<and> ccr_step demo_crypto r1 r2 \<and> cc_connected (cr_cc r2) \<and> ccr_reach demo_crypto r2 r3 \<and> cr_phase r3 = RunExited"
  by (rule nil_stream_is_final) simp

section \<open>Sealing\<close>

definition cli_sealed :: "cc_run \<Rightarrow> bool" where
  "cli_sealed r \<longleftrightarrow> cc_key (cr_cc r) \<noteq> []
     \<and> (if cr_phase r = RunInit then cr_writers r = 0 \<and> cr_spawned r = 0
        else cc_aesgcm (cr_cc r) \<noteq> None)
     \<and> (\<forall>(d, g) \<in> set (cr_log r). g \<noteq> None)"

lemma cc_crypto_keyed:
  assumes "crypto_ok lib" and "cc_key cc \<noteq> []" and "cc_crypto lib cc = (res, cc')"
  shows "res = None" "cc_aesgcm cc' \<noteq> None" "cc_key cc' \<noteq> []"
  using makeAES_total(1) [OF assms(1), of "cc_key cc"] assms(2,3) by (auto simp: cc_crypto_def)

lemma cli_sealed_step:
  assumes "ccr_step lib r r'" and lib: "crypto_ok lib" and ok: "cli_sealed r"
  shows "cli_sealed r'"
  using assms(1)
proof (cases rule: ccr_step.cases)
  case (init cc')
  with ok cc_crypto_keyed [OF lib _ init(3)] show ?thesis by (simp add: cli_sealed_def)
next
  case (init_panics e cc')
  with ok cc_crypto_keyed [OF lib _ init_panics(3)] show ?thesis by (simp add: cli_sealed_def)
next
  case (dial_fails dl e cc')
  with ok cc_tryConnect_frame [OF dial_fails(3)] show ?thesis by (simp add: cli_sealed_def)
next
  case (dial dl u cc' inp)
  with ok cc_tryConnect_frame [OF dial(3)] show ?thesis by (simp add: cli_sealed_def)
next
  case (enter cc')
  with ok cc_crypto_keyed [OF lib _ enter(3)] show ?thesis by (simp add: cli_sealed_def)
next
  case (setup_panics e cc')
  with ok cc_crypto_keyed [OF lib _ setup_panics(3)] show ?thesis by (simp add: cli_sealed_def)
next
  case (writes k d cc' rand')
  with ok cc_write_turn_frame [OF writes(3)] show ?thesis
    by (auto simp: cli_sealed_def split: if_splits)
next
  case (write_fails k d res cc' rand' u cc'')
  with ok cc_write_turn_frame [OF write_fails(3)] cc_write_exit_frame(1,2) [OF write_fails(5)] show ?thesis
    by (auto simp: cli_sealed_def split: if_splits)
next
  case (writer_closes k n cc' rand' u cc'')
  with ok cc_write_turn_frame [OF writer_closes(4)] cc_write_exit_frame(1,2) [OF writer_closes(5)] show ?thesis
    by (auto simp: cli_sealed_def split: if_splits)
qed (use ok in \<open>auto simp: cli_sealed_def split: if_splits\<close>)


text \<open>A run with a key in which a message is written.\<close>

lemma one_write:
  assumes "cr_log r = []" and w: "cr_writers r = Suc k" and conn: "cc_conn (cr_cc r) \<noteq> None"
  shows "\<exists>r'. ccr_step lib r r' \<and> map fst (cr_log r') = [d]"
proof -
  obtain res cc' rand' where t: "cc_write_turn (CcWrite d) (cr_cc r, cr_rand r) = (res, (cc', rand'))"
    by (metis prod_cases3)
  show ?thesis
  proof (cases "res = Ok True")
    case True
    from ccr_step.writes [OF w t [unfolded True]] assms(1) show ?thesis
      by (intro exI conjI) (assumption | simp)+
  next
    case False
    have "cc_write_exit cc' = (Ok (), cc_shut cc')"
      using conn cc_write_turn_frame(3) [OF t] by (auto simp: cc_write_exit_def)
    from ccr_step.write_fails [OF w t False this] assms(1) show ?thesis
      by (intro exI conjI) (assumption | simp)+
  qed
qed

lemma client_writes:
  assumes "key = [] \<or> crypto_ok lib"
  shows "\<exists>r. ccr_reach lib (new_cc_run addr key i nd rand inp) r \<and> map fst (cr_log r) = [d]"
proof -
  obtain r where r: "ccr_reach lib (new_cc_run addr key i nd rand inp) r" "idle_run lib (Suc 0) r"
    by (rule exE [OF reconnects_reach [OF assms]]) (erule conjE, rule that)
  from r(2) obtain r' where "ccr_step lib r r'" "map fst (cr_log r') = [d]"
    using one_write [of r 0 lib d] by (auto simp: idle_run_def)
  with ccr_reach.reach_step [OF r(1)] show ?thesis by (intro exI [of _ r'] conjI)
qed


end
