(* ===== verification/Link.thy ===== *)
theory Link
  imports Pipe ServerConnRun ClientConnRun
begin

text \<open>
  One QUIC stream between a client connection and a server connection, with all goroutines of both
  ends running: the step relations of \<open>ClientConnRun\<close> and \<open>ServerConnRun\<close> joined by the bytes on
  the way. The network hands over any number of the bytes sent so far, in order, at any time; a
  frame may arrive in pieces. What each end's handler is given is recorded.
\<close>

section \<open>The machine\<close>

text \<open>The messages an end's writing goroutines have taken. A receive from the closed queue yields the
  nil slice, which is written as an empty message.\<close>

definition cli_log :: "cc_run \<Rightarrow> bytes list" where
  "cli_log c = map fst (cr_log c)"

definition srv_log :: "sc_run \<Rightarrow> bytes list" where
  "srv_log s = map (\<lambda>(x, _). case x of Some d \<Rightarrow> d | None \<Rightarrow> []) (run_log s)"

text \<open>What a step of an end hands to its handler.\<close>

definition cli_handed :: "cc_run \<Rightarrow> cc_run \<Rightarrow> bytes list" where
  "cli_handed c c' = (case cc_read (cr_cc c) (cr_in c) of
     (Ok d, in') \<Rightarrow> if length (rd_data (cr_in c')) < length (rd_data (cr_in c)) then [d] else [] | _ \<Rightarrow> [])"

definition srv_handed :: "sc_run \<Rightarrow> sc_run \<Rightarrow> bytes list" where
  "srv_handed s s' = (case sc_read (run_sc s) (run_in s) of
     (Ok d, in') \<Rightarrow> if length (rd_data (run_in s')) < length (rd_data (run_in s)) then [d] else [] | _ \<Rightarrow> [])"

record link =
  lk_cli :: cc_run
  lk_srv :: sc_run
  lk_up :: nat
  lk_down :: nat
  lk_srv_got :: "bytes list"
  lk_cli_got :: "bytes list"

definition up_bytes :: "link \<Rightarrow> bytes" where
  "up_bytes l = cc_out (cr_cc (lk_cli l))"

definition down_bytes :: "link \<Rightarrow> bytes" where
  "down_bytes l = sc_out (run_sc (lk_srv l))"

text \<open>The life of one stream: until \<open>run\<close> of the client dials again.\<close>

inductive link_step :: "crypto_lib \<Rightarrow> link \<Rightarrow> link \<Rightarrow> bool" for lib where
  client: "ccr_step lib (lk_cli l) c \<Longrightarrow> cr_phase c \<noteq> RunDial \<Longrightarrow> list_all short_data (cli_log c) \<Longrightarrow>
    link_step lib l (l\<lparr>lk_cli := c, lk_cli_got := lk_cli_got l @ cli_handed (lk_cli l) c\<rparr>)"
| server: "scr_step lib (lk_srv l) s \<Longrightarrow> list_all short_data (srv_log s) \<Longrightarrow>
    link_step lib l (l\<lparr>lk_srv := s, lk_srv_got := lk_srv_got l @ srv_handed (lk_srv l) s\<rparr>)"
| up: "lk_up l + n \<le> length (up_bytes l) \<Longrightarrow> r = run_in (lk_srv l) \<Longrightarrow>
    link_step lib l (l\<lparr>lk_up := lk_up l + n, lk_srv := (lk_srv l)\<lparr>run_in :=
      r\<lparr>rd_data := rd_data r @ take n (drop (lk_up l) (up_bytes l))\<rparr>\<rparr>\<rparr>)"
| down: "lk_down l + n \<le> length (down_bytes l) \<Longrightarrow> r = cr_in (lk_cli l) \<Longrightarrow>
    link_step lib l (l\<lparr>lk_down := lk_down l + n, lk_cli := (lk_cli l)\<lparr>cr_in :=
      r\<lparr>rd_data := rd_data r @ take n (drop (lk_down l) (down_bytes l))\<rparr>\<rparr>\<rparr>)"

inductive link_reach :: "crypto_lib \<Rightarrow> link \<Rightarrow> link \<Rightarrow> bool" for lib l0 where
  reach_init: "link_reach lib l0 l0"
| reach_step: "link_reach lib l0 l \<Longrightarrow> link_step lib l l' \<Longrightarrow> link_reach lib l0 l'"

text \<open>The beginning: the client has opened the stream and is about to read it, the server has accepted
  it, and nothing has been sent. Both have the same key string.\<close>

definition link_start :: "crypto_lib \<Rightarrow> link \<Rightarrow> bool" where
  "link_start lib l \<longleftrightarrow> (let cc = cr_cc (lk_cli l) in
     cr_phase (lk_cli l) = RunEnter \<and> cr_log (lk_cli l) = [] \<and> rd_data (cr_in (lk_cli l)) = []
     \<and> cc_crypto lib cc = (None, cc) \<and> cc_buf_ok cc \<and> (cc_key cc = [] \<longrightarrow> cc_aesgcm cc = None)
     \<and> (\<exists>w. cc_conn cc = Some w \<and> wr_out w = [])
     \<and> (\<exists>w h nd rand inp. lk_srv l = new_run w (cc_key cc) h nd rand inp \<and> wr_out w = [] \<and> rd_data inp = [])
     \<and> lk_up l = 0 \<and> lk_down l = 0 \<and> lk_srv_got l = [] \<and> lk_cli_got l = [])"

section \<open>The invariant\<close>

definition keyed :: "crypto_lib \<Rightarrow> string \<Rightarrow> aead option \<Rightarrow> bool" where
  "keyed lib key a \<longleftrightarrow> (if key = [] then a = None else \<exists>g. makeAES128GCM lib key = Inr g \<and> a = Some g)"

lemma keyed_sealing: "crypto_ok lib \<Longrightarrow> keyed lib key a \<Longrightarrow> sealing_ok a"
  using makeAES_total(1) [of lib key] by (auto simp: keyed_def sealing_ok_def split: if_splits)

lemma cc_crypto_keeps: "keyed lib (cc_key cc) (cc_aesgcm cc) \<Longrightarrow> cc_crypto lib cc = (None, cc)"
  by (auto simp: keyed_def cc_crypto_def split: if_splits)

lemma sc_crypto_keyed:
  assumes "keyed lib (sc_key sc) a" and "sc_aesgcm sc = None"
  shows "sc_crypto lib sc = (None, sc\<lparr>sc_aesgcm := a\<rparr>)"
  using assms by (cases sc) (auto simp: keyed_def sc_crypto_def split: if_splits)

definition cli_ok :: "crypto_lib \<Rightarrow> aead option \<Rightarrow> cc_run \<Rightarrow> bool" where
  "cli_ok lib a c \<longleftrightarrow> cr_phase c \<in> {RunTop, RunEnter, RunReading, RunExited}
     \<and> keyed lib (cc_key (cr_cc c)) a \<and> cc_aesgcm (cr_cc c) = a \<and> cc_buf_ok (cr_cc c)
     \<and> (\<exists>w. cc_conn (cr_cc c) = Some w \<and> pipe_out a (\<not> wr_closed w) (wr_out w) (cli_log c))"

definition srv_ok :: "crypto_lib \<Rightarrow> aead option \<Rightarrow> sc_run \<Rightarrow> bool" where
  "srv_ok lib a s \<longleftrightarrow> scr_inv s \<and> keyed lib (sc_key (run_sc s)) a
     \<and> sc_aesgcm (run_sc s) = (if run_reader s = RStarting then None else a) \<and> sc_buf_ok (run_sc s)
     \<and> (\<exists>w. sc_conn (run_sc s) = Some w \<and> pipe_out a (\<not> wr_closed w) (wr_out w) (srv_log s))"

definition cli_reading :: "cc_run \<Rightarrow> bool" where
  "cli_reading c \<longleftrightarrow> cr_phase c \<in> {RunEnter, RunReading}"

definition srv_reading :: "sc_run \<Rightarrow> bool" where
  "srv_reading s \<longleftrightarrow> run_reader s \<in> {RStarting, RReading}"

text \<open>What a step of the client does to what it has sent and to what it reads.\<close>

lemma cli_okD:
  assumes "cli_ok lib a c"
  shows "cc_read (cr_cc c) = decode_frame errOpen a" and "cc_crypto lib (cr_cc c) = (None, cr_cc c)"
    and "\<exists>w. cc_conn (cr_cc c) = Some w \<and> pipe_out a (\<not> wr_closed w) (wr_out w) (cli_log c)"
  using assms cc_read_spec [of "cr_cc c"] cc_crypto_keeps [of lib "cr_cc c"] by (auto simp: cli_ok_def)

lemma cli_ok_shut: "cli_ok lib a c \<Longrightarrow> cr_phase c' \<in> {RunTop, RunExited} \<Longrightarrow> cr_cc c' = cc_shut (cr_cc c) \<Longrightarrow>
    cr_log c' = cr_log c \<Longrightarrow> cli_ok lib a c' \<and> cc_out (cr_cc c') = cc_out (cr_cc c)"
  using pipe_out_close [of a _ _ "cli_log c" "[]"]
  by (auto simp: cli_ok_def cli_log_def cc_out_def cc_buf_ok_def cc_shut_def cc_setConnected_def)

lemma cc_write_keeps:
  "cc_write d (cc, rand) = (res, (cc', rand')) \<Longrightarrow> cc_readBuf cc' = cc_readBuf cc \<and> cc_key cc' = cc_key cc
     \<and> cc_aesgcm cc' = cc_aesgcm cc"
  by (auto simp: cc_write_def cc_flush_def Let_def split: option.splits prod.splits outcome.splits)

lemma cli_writes_ok:
  assumes ok: "cli_ok lib a c" and lib: "crypto_ok lib" and d: "short_data d"
    and wr: "cc_write d (cr_cc c, cr_rand c) = (res, (cc', rand'))"
    and c': "cr_cc c' = (if res = Ok () then cc' else cc_shut cc')" "cr_log c' = cr_log c @ [(d, g)]" "cr_phase c' = cr_phase c"
  shows "cli_ok lib a c' \<and> prefix (cc_out (cr_cc c)) (cc_out (cr_cc c'))"
proof -
  obtain w where w: "cc_conn (cr_cc c) = Some w" "pipe_out a (\<not> wr_closed w) (wr_out w) (cli_log c)"
    using cli_okD(3) [OF ok] by blast
  have a: "cc_aesgcm (cr_cc c) = a" "sealing_ok a" using ok keyed_sealing [OF lib] by (auto simp: cli_ok_def)
  from cc_write_pipe [OF wr w(1) _ d] w(2) a obtain w' where w': "cc_conn cc' = Some w'"
    "pipe_out a (res = Ok ()) (wr_out w') (cli_log c @ [d])" "prefix (wr_out w) (wr_out w')"
    "wr_closed w' = wr_closed w" "res = Ok () \<longrightarrow> \<not> wr_closed w" by auto
  with ok w(1) c' cc_write_keeps [OF wr] show ?thesis
    by (auto simp: cli_ok_def cli_log_def cc_out_def cc_buf_ok_def cc_shut_def cc_setConnected_def)
qed

lemma handed_same: "cr_in c' = cr_in c \<Longrightarrow> cli_handed c c' = []" "run_in s' = run_in s \<Longrightarrow> srv_handed s s' = []"
  by (simp_all add: cli_handed_def srv_handed_def split: outcome.splits prod.splits)

text \<open>What a step does to the reading side.\<close>

definition cli_in_step :: "cc_run \<Rightarrow> cc_run \<Rightarrow> bool" where
  "cli_in_step c c' \<longleftrightarrow> cli_handed c c' = [] \<and> (cli_reading c' \<longrightarrow> cli_reading c \<and> cr_in c' = cr_in c)
     \<or> (\<exists>d. cli_reading c \<and> cli_handed c c' = [d] \<and> cc_read (cr_cc c) (cr_in c) = (Ok d, cr_in c'))"

lemma cli_in_same: "cr_in c' = cr_in c \<Longrightarrow> (cli_reading c' \<Longrightarrow> cli_reading c) \<Longrightarrow> cli_in_step c c'"
  by (simp add: cli_in_step_def handed_same)

lemma cli_in_read: "cli_reading c \<Longrightarrow> cc_read (cr_cc c) (cr_in c) = (Ok d, cr_in c') \<Longrightarrow> cli_in_step c c'"
  using cc_read_progress [of "cr_cc c" "cr_in c" d "cr_in c'"] by (simp add: cli_in_step_def cli_handed_def)

lemma cli_in_fails:
  "cc_read (cr_cc c) (cr_in c) = (res, in') \<Longrightarrow> (\<And>d. res \<noteq> Ok d) \<Longrightarrow> \<not> cli_reading c' \<Longrightarrow> cli_in_step c c'"
  by (simp add: cli_in_step_def cli_handed_def split: outcome.splits)

lemma cli_ends:
  assumes ok: "cli_ok lib a c" and c': "cr_phase c' \<in> {RunTop, RunExited}" "cr_cc c' = cc_shut (cr_cc c)" "cr_log c' = cr_log c"
    and i: "cli_in_step c c'"
  shows "cli_ok lib a c' \<and> prefix (cc_out (cr_cc c)) (cc_out (cr_cc c')) \<and> cli_in_step c c'"
  using cli_ok_shut [OF ok c'] i by simp

lemma cc_write_turn_Write: "cc_write_turn (CcWrite d) (cc, rand) = (res, (cc', rand')) \<Longrightarrow>
    \<exists>r. cc_write d (cc, rand) = (r, (cc', rand')) \<and> (res = Ok True \<longleftrightarrow> r = Ok ())"
  by (auto simp: cc_write_turn_def split: prod.splits outcome.splits)

lemma cli_step:
  assumes st: "ccr_step lib c c'" and ok: "cli_ok lib a c" and lib: "crypto_ok lib"
    and dial: "cr_phase c' \<noteq> RunDial" and short: "list_all short_data (cli_log c')"
  shows "cli_ok lib a c' \<and> prefix (cc_out (cr_cc c)) (cc_out (cr_cc c')) \<and> cli_in_step c c'"
  using st
proof (cases rule: ccr_step.cases)
  case (enter cc')
  with ok cli_okD(2) [OF ok] show ?thesis
    by (auto simp: cli_ok_def cli_log_def cli_reading_def intro!: cli_in_same)
next
  case (setup_panics e cc')
  with cli_okD(2) [OF ok] show ?thesis by simp
next
  case (read d in')
  with ok show ?thesis by (auto simp: cli_ok_def cli_log_def cli_reading_def intro!: cli_in_read)
next
  case (handler_panics d in')
  show ?thesis
    by (rule cli_ends [OF ok _ _ _ cli_in_read [where d = d]]) (simp_all add: handler_panics cli_reading_def)
next
  case (read_panics p in')
  show ?thesis
    by (rule cli_ends [OF ok _ _ _ cli_in_fails [OF read_panics(4)]]) (simp_all add: read_panics cli_reading_def)
next
  case (read_fails e in')
  show ?thesis
    by (rule cli_ends [OF ok _ _ _ cli_in_fails [OF read_fails(4)]]) (simp_all add: read_fails cli_reading_def)
next
  case read_nil
  with cli_okD(3) [OF ok] show ?thesis by auto
next
  case read_cut
  show ?thesis by (rule cli_ends [OF ok _ _ _ cli_in_same]) (simp_all add: read_cut cli_reading_def)
next
  case (writer_starts k)
  with ok show ?thesis
    by (auto simp: cli_ok_def cli_log_def cli_reading_def cc_setConnected_def cc_buf_ok_def cc_out_def intro!: cli_in_same)
next
  case (writes k d cc' rand')
  from cc_write_turn_Write [OF writes(3)] have wr: "cc_write d (cr_cc c, cr_rand c) = (Ok (), (cc', rand'))" by auto
  have "short_data d" using short writes by (simp add: cli_log_def)
  from cli_writes_ok [OF ok lib this wr, of c'] show ?thesis
    using writes by (auto simp: cli_reading_def intro!: cli_in_same)
next
  case (write_fails k d res cc' rand' u cc'')
  from cc_write_turn_Write [OF write_fails(3)] write_fails(4) obtain r
    where wr: "cc_write d (cr_cc c, cr_rand c) = (r, (cc', rand'))" "r \<noteq> Ok ()" by auto
  have "short_data d" using short write_fails by (simp add: cli_log_def)
  from cli_writes_ok [OF ok lib this wr(1), of c'] wr(2) show ?thesis
    using write_fails cc_write_exit_frame(5) [OF write_fails(5)] by (auto simp: cli_reading_def intro!: cli_in_same)
next
  case (write_crashes k d res cc' rand' p cc'')
  with cli_okD(3) [OF ok] cc_write_turn_frame(3) [OF write_crashes(3)] cc_write_exit_frame(4) [OF write_crashes(5)]
  show ?thesis by auto
next
  case (writer_closes k n cc' rand' u cc'')
  then have cc: "cc' = cr_cc c" by (simp add: cc_write_turn_def)
  with writer_closes cc_write_exit_frame(5) [OF writer_closes(5)] have "cr_cc c' = cc_shut (cr_cc c)" by simp
  with writer_closes pipe_out_close [of a _ _ "cli_log c" "[]"] ok show ?thesis
    by (auto simp: cli_ok_def cli_log_def cc_out_def cc_buf_ok_def cc_shut_def cc_setConnected_def cli_reading_def
        intro!: cli_in_same)
next
  case (close_crashes k n cc' rand' p cc'')
  with cli_okD(3) [OF ok] cc_write_turn_frame(3) [OF close_crashes(4)] cc_write_exit_frame(4) [OF close_crashes(5)]
  show ?thesis by auto
qed (use ok dial in \<open>auto simp: cli_ok_def cli_log_def cli_reading_def intro!: cli_in_same\<close>)

text \<open>The same for the server.\<close>

definition msgs :: "(bytes option \<times> aead option) list \<Rightarrow> bytes list" where
  "msgs l = map (\<lambda>(x, _). case x of Some d \<Rightarrow> d | None \<Rightarrow> []) l"

lemma srv_log_msgs: "srv_log s = msgs (run_log s)"
  by (simp add: srv_log_def msgs_def)

lemma msgs_append [simp]: "msgs (l @ l') = msgs l @ msgs l'" "msgs [] = []"
  by (simp_all add: msgs_def)

lemma sc_write_keeps_buf: "sc_write d (sc, rand) = (res, (sc', rand')) \<Longrightarrow> sc_buf sc' = sc_buf sc"
  by (auto simp: sc_write_def sc_flush_def Let_def split: option.splits prod.splits outcome.splits)

lemma write_turn_cases:
  assumes "sc_write_turn sel (sc, rand) = (res, (sc', rand'))" and "res \<noteq> Block"
  obtains (Write) d r c where "msgs (turn_takes sel sc) = [d]"
      "sc_write d (sc\<lparr>sc_chanWrite := c\<rparr>, rand) = (r, (sc', rand'))" "res = Ok True \<longleftrightarrow> r = Ok ()" "res \<noteq> Ok False"
  | (Close) b c where "turn_takes sel sc = []" "sc' = sc\<lparr>sc_chanClose := c\<rparr>" "res = Ok b"
proof (cases sel)
  case CaseWrite
  then obtain v c where v: "chan_recv (sc_chanWrite sc) = (Ok v, c)"
    using assms by (cases "chan_recv (sc_chanWrite sc)" rule: prod.exhaust)
      (auto simp: sc_write_turn_def split: outcome.splits)
  let ?d = "case v of Some b \<Rightarrow> b | None \<Rightarrow> []"
  obtain r where w: "sc_write ?d (sc\<lparr>sc_chanWrite := c\<rparr>, rand) = (r, (sc', rand'))"
    "res = Ok True \<longleftrightarrow> r = Ok ()" "res \<noteq> Ok False"
    using assms v CaseWrite by (auto simp: sc_write_turn_def split: prod.splits outcome.splits)
  have "msgs (turn_takes sel sc) = [?d]"
    using v CaseWrite by (auto simp: turn_takes_def msgs_def chan_recv_def split: list.splits if_splits)
  with w Write show ?thesis by blast
next
  case CaseClose
  with assms Close show ?thesis
    by (auto simp: sc_write_turn_def turn_takes_def split: prod.splits outcome.splits)
qed

lemma srv_okD:
  assumes "srv_ok lib a s"
  shows "run_reader s \<noteq> RStarting \<Longrightarrow> sc_read (run_sc s) = decode_frame ErrCiperNotMatch a"
    and "\<exists>w. sc_conn (run_sc s) = Some w \<and> pipe_out a (\<not> wr_closed w) (wr_out w) (srv_log s)"
  using assms sc_read_spec [of "run_sc s"] by (auto simp: srv_ok_def)

definition srv_in_step :: "sc_run \<Rightarrow> sc_run \<Rightarrow> bool" where
  "srv_in_step s s' \<longleftrightarrow> srv_handed s s' = [] \<and> (srv_reading s' \<longrightarrow> srv_reading s \<and> run_in s' = run_in s)
     \<or> (\<exists>d. run_reader s = RReading \<and> srv_handed s s' = [d] \<and> sc_read (run_sc s) (run_in s) = (Ok d, run_in s'))"

lemma srv_in_same: "run_in s' = run_in s \<Longrightarrow> (srv_reading s' \<Longrightarrow> srv_reading s) \<Longrightarrow> srv_in_step s s'"
  by (simp add: srv_in_step_def handed_same)

lemma srv_in_read:
  "run_reader s = RReading \<Longrightarrow> sc_read (run_sc s) (run_in s) = (Ok d, run_in s') \<Longrightarrow> srv_in_step s s'"
  using sc_read_progress [of "run_sc s" "run_in s" d "run_in s'"] by (simp add: srv_in_step_def srv_handed_def)

lemma srv_in_fails:
  "sc_read (run_sc s) (run_in s) = (res, in') \<Longrightarrow> (\<And>d. res \<noteq> Ok d) \<Longrightarrow> \<not> srv_reading s' \<Longrightarrow> srv_in_step s s'"
  by (simp add: srv_in_step_def srv_handed_def split: outcome.splits)

text \<open>One turn of the writing goroutine, on what the stream carries.\<close>

lemma srv_turn_pipe:
  assumes ok: "srv_ok lib a s" and lib: "crypto_ok lib" and wr: "run_writing s"
    and t: "sc_write_turn sel (run_sc s, run_rand s) = (res, (sc', rand'))" and nb: "res \<noteq> Block"
    and short: "list_all short_data (msgs (turn_takes sel (run_sc s)))"
  shows "\<exists>w w'. sc_conn (run_sc s) = Some w \<and> sc_conn sc' = Some w' \<and> wr_closed w' = wr_closed w
    \<and> prefix (wr_out w) (wr_out w') \<and> sc_buf_ok sc' \<and> run_reader s \<noteq> RStarting
    \<and> pipe_out a (res = Ok True \<and> \<not> wr_closed w) (wr_out w') (srv_log s @ msgs (turn_takes sel (run_sc s)))"
proof -
  have nst: "run_reader s \<noteq> RStarting"
    using idle_turn [of s sel "run_rand s"] ok t nb by (auto simp: srv_ok_def)
  then have a: "sc_aesgcm (run_sc s) = a" "sealing_ok a" "sc_buf_ok (run_sc s)"
    using ok keyed_sealing [OF lib] by (auto simp: srv_ok_def)
  obtain w where w: "sc_conn (run_sc s) = Some w" "pipe_out a (\<not> wr_closed w) (wr_out w) (srv_log s)"
    using srv_okD(2) [OF ok] by blast
  from t nb show ?thesis
  proof (cases rule: write_turn_cases)
    case (Write d r c)
    with short have d: "short_data d" by simp
    from sc_write_pipe [OF Write(2) _ _ d, of w "srv_log s"] w a obtain w' where w': "sc_conn sc' = Some w'"
      "pipe_out a (r = Ok ()) (wr_out w') (srv_log s @ [d])" "prefix (wr_out w) (wr_out w')"
      "wr_closed w' = wr_closed w" "r = Ok () \<longrightarrow> \<not> wr_closed w" by auto
    have "(res = Ok True \<and> \<not> wr_closed w) = (r = Ok ())" using Write(3) w'(5) by blast
    moreover have "sc_buf_ok sc'" using sc_write_keeps_buf [OF Write(2)] a(3) by (simp add: sc_buf_ok_def)
    ultimately show ?thesis using w(1) w' Write(1) nst by auto
  next
    case (Close b c)
    with w nst a show ?thesis
      using pipe_out_close [OF w(2), of "[]"] by (cases "res = Ok True \<and> \<not> wr_closed w") (auto simp: sc_buf_ok_def)
  qed
qed

lemma srv_step:
  assumes st: "scr_step lib s s'" and ok: "srv_ok lib a s" and lib: "crypto_ok lib"
    and short: "list_all short_data (srv_log s')"
  shows "srv_ok lib a s' \<and> prefix (sc_out (run_sc s)) (sc_out (run_sc s')) \<and> srv_in_step s s'"
proof -
  have inv: "scr_inv s'" using scr_step_inv [OF st] ok by (simp add: srv_ok_def)
  from st show ?thesis
  proof (cases rule: scr_step.cases)
    case (start sc')
    have c: "sc_crypto lib (run_sc s) = (None, (run_sc s)\<lparr>sc_aesgcm := a\<rparr>)"
      by (rule sc_crypto_keyed) (use ok start in \<open>simp_all add: srv_ok_def\<close>)
    with start inv ok show ?thesis
      by (auto simp: srv_ok_def srv_log_def sc_out_def sc_buf_ok_def srv_reading_def intro!: srv_in_same)
  next
    case (start_panics e sc')
    have c: "sc_crypto lib (run_sc s) = (None, (run_sc s)\<lparr>sc_aesgcm := a\<rparr>)"
      by (rule sc_crypto_keyed) (use ok start_panics in \<open>simp_all add: srv_ok_def\<close>)
    with start_panics show ?thesis by simp
  next
    case (read d in')
    with inv ok show ?thesis by (auto simp: srv_ok_def srv_log_def srv_reading_def intro!: srv_in_read)
  next
    case (handler_panics d in')
    with inv ok show ?thesis by (auto simp: srv_ok_def srv_log_def srv_reading_def intro!: srv_in_read)
  next
    case (read_fails res in')
    have "srv_in_step s s'" by (rule srv_in_fails [OF read_fails(3,4)]) (simp add: read_fails srv_reading_def)
    with read_fails inv ok show ?thesis by (auto simp: srv_ok_def srv_log_def)
  next
    case clean
    with inv ok show ?thesis
      using pipe_out_close [of a _ _ "srv_log s" "[]"]
      by (auto simp: srv_ok_def srv_log_def srv_reading_def sc_shut_def sc_out_def sc_buf_ok_def intro!: srv_in_same)
  next
    case (send d u sc')
    from send(3) show ?thesis
      by (cases rule: sc_Write_cases)
        (use send inv ok in \<open>auto simp: srv_ok_def srv_log_def srv_reading_def sc_out_def sc_buf_ok_def intro!: srv_in_same\<close>)
  next
    case (turn sel sc' rand')
    have "list_all short_data (msgs (turn_takes sel (run_sc s)))" using short turn by (simp add: srv_log_msgs)
    from srv_turn_pipe [OF ok lib turn(2,3) _ this] sc_write_turn_fields [OF turn(3)] turn inv ok show ?thesis
      by (auto simp: srv_ok_def srv_log_msgs sc_out_def srv_reading_def intro!: srv_in_same)
  next
    case (exit sel res sc' rand')
    have "list_all short_data (msgs (turn_takes sel (run_sc s)))" using short exit by (simp add: srv_log_msgs)
    from srv_turn_pipe [OF ok lib exit(2,3,5) this] obtain w w' where w: "sc_conn (run_sc s) = Some w"
      "sc_conn sc' = Some w'" "prefix (wr_out w) (wr_out w')" "sc_buf_ok sc'" "run_reader s \<noteq> RStarting"
      "pipe_out a False (wr_out w') (srv_log s @ msgs (turn_takes sel (run_sc s)))"
      using exit(4) by auto
    with sc_write_turn_fields [OF exit(3)] exit inv ok show ?thesis
      by (auto simp: srv_ok_def srv_log_msgs sc_out_def srv_reading_def sc_write_exit_def sc_shut_def sc_buf_ok_def
          intro!: srv_in_same)
  qed (use inv ok in \<open>auto simp: srv_ok_def srv_log_def srv_reading_def sc_out_def sc_buf_ok_def intro!: srv_in_same\<close>)
qed

section \<open>The invariant of the link\<close>

definition link_ok :: "crypto_lib \<Rightarrow> aead option \<Rightarrow> link \<Rightarrow> bool" where
  "link_ok lib a l \<longleftrightarrow> cli_ok lib a (lk_cli l) \<and> srv_ok lib a (lk_srv l)
     \<and> list_all short_data (cli_log (lk_cli l)) \<and> list_all short_data (srv_log (lk_srv l))
     \<and> arrives ErrCiperNotMatch a (up_bytes l) (lk_up l) (lk_srv_got l) (srv_reading (lk_srv l)) (run_in (lk_srv l))
     \<and> arrives errOpen a (down_bytes l) (lk_down l) (lk_cli_got l) (cli_reading (lk_cli l)) (cr_in (lk_cli l))"

lemma arrives_cli:
  assumes ar: "arrives errOpen a sent k got (cli_reading c) (cr_in c)" and st: "cli_in_step c c'" and ok: "cli_ok lib a c"
  shows "arrives errOpen a sent k (got @ cli_handed c c') (cli_reading c') (cr_in c')"
  using st unfolding cli_in_step_def
proof
  assume "cli_handed c c' = [] \<and> (cli_reading c' \<longrightarrow> cli_reading c \<and> cr_in c' = cr_in c)"
  with arrives_idle [OF ar] show ?thesis by simp
next
  assume "\<exists>d. cli_reading c \<and> cli_handed c c' = [d] \<and> cc_read (cr_cc c) (cr_in c) = (Ok d, cr_in c')"
  then obtain d where d: "cli_reading c" "cli_handed c c' = [d]" "decode_frame errOpen a (cr_in c) = (Ok d, cr_in c')"
    using cli_okD(1) [OF ok] by auto
  from arrives_read [OF ar [unfolded eqTrueI [OF d(1)]] d(3)] d(2) show ?thesis by simp
qed

lemma arrives_srv:
  assumes ar: "arrives ErrCiperNotMatch a sent k got (srv_reading s) (run_in s)" and st: "srv_in_step s s'"
    and ok: "srv_ok lib a s"
  shows "arrives ErrCiperNotMatch a sent k (got @ srv_handed s s') (srv_reading s') (run_in s')"
  using st unfolding srv_in_step_def
proof
  assume "srv_handed s s' = [] \<and> (srv_reading s' \<longrightarrow> srv_reading s \<and> run_in s' = run_in s)"
  with arrives_idle [OF ar] show ?thesis by simp
next
  assume "\<exists>d. run_reader s = RReading \<and> srv_handed s s' = [d] \<and> sc_read (run_sc s) (run_in s) = (Ok d, run_in s')"
  then obtain d where d: "run_reader s = RReading" "srv_handed s s' = [d]"
    "decode_frame ErrCiperNotMatch a (run_in s) = (Ok d, run_in s')"
    using srv_okD(1) [OF ok] by auto
  have "srv_reading s" using d(1) by (simp add: srv_reading_def)
  from arrives_read [OF ar [unfolded eqTrueI [OF this]] d(3)] d(2) show ?thesis by simp
qed

lemma input_keeps_ok [simp]:
  "srv_ok lib a (s\<lparr>run_in := x\<rparr>) = srv_ok lib a s" "cli_ok lib a (c\<lparr>cr_in := y\<rparr>) = cli_ok lib a c"
  by (simp_all add: srv_ok_def cli_ok_def scr_inv_def chans_ok_def log_ok_def ended_ok_def srv_log_def cli_log_def)

lemma link_step_ok:
  assumes "link_step lib l l'" and ok: "link_ok lib a l" and lib: "crypto_ok lib"
  shows "link_ok lib a l'"
  using assms(1)
proof (cases rule: link_step.cases)
  case (client c)
  note ok' = ok [unfolded link_ok_def up_bytes_def down_bytes_def]
  from ok' have c_ok: "cli_ok lib a (lk_cli l)" by blast
  note st = cli_step [OF client(2) c_ok lib client(3,4)]
  from ok' st have "arrives ErrCiperNotMatch a (cc_out (cr_cc c)) (lk_up l) (lk_srv_got l)
      (srv_reading (lk_srv l)) (run_in (lk_srv l))" using arrives_sent by blast
  moreover from ok' st have "arrives errOpen a (sc_out (run_sc (lk_srv l))) (lk_down l)
      (lk_cli_got l @ cli_handed (lk_cli l) c) (cli_reading c) (cr_in c)"
    using arrives_cli [OF _ _ c_ok] by blast
  ultimately show ?thesis using ok' st client(4) unfolding client(1) by (simp add: link_ok_def up_bytes_def down_bytes_def)
next
  case (server s)
  note ok' = ok [unfolded link_ok_def up_bytes_def down_bytes_def]
  from ok' have s_ok: "srv_ok lib a (lk_srv l)" by blast
  note st = srv_step [OF server(2) s_ok lib server(3)]
  from ok' st have "arrives errOpen a (sc_out (run_sc s)) (lk_down l) (lk_cli_got l)
      (cli_reading (lk_cli l)) (cr_in (lk_cli l))" using arrives_sent by blast
  moreover from ok' st have "arrives ErrCiperNotMatch a (cc_out (cr_cc (lk_cli l))) (lk_up l)
      (lk_srv_got l @ srv_handed (lk_srv l) s) (srv_reading s) (run_in s)"
    using arrives_srv [OF _ _ s_ok] by blast
  ultimately show ?thesis using ok' st server(3) unfolding server(1) by (simp add: link_ok_def up_bytes_def down_bytes_def)
next
  case (up n r)
  with ok arrives_deliver [OF _ up(2)] show ?thesis
    unfolding link_ok_def by (simp add: up_bytes_def down_bytes_def srv_reading_def srv_log_def)
next
  case (down n r)
  with ok arrives_deliver [OF _ down(2)] show ?thesis
    unfolding link_ok_def by (simp add: up_bytes_def down_bytes_def cli_reading_def cli_log_def)
qed

lemma link_start_ok:
  assumes "link_start lib l" and lib: "crypto_ok lib"
  shows "\<exists>a. link_ok lib a l"
proof -
  let ?cc = "cr_cc (lk_cli l)"
  note st = assms(1) [unfolded link_start_def Let_def]
  have k: "keyed lib (cc_key ?cc) (cc_aesgcm ?cc)"
  proof (cases "cc_key ?cc = []")
    case True
    with st show ?thesis by (simp add: keyed_def)
  next
    case False
    obtain g where g: "makeAES128GCM lib (cc_key ?cc) = Inr g" using makeAES_total(1) [OF lib] by blast
    with st False have "?cc\<lparr>cc_aesgcm := Some g\<rparr> = ?cc" by (simp add: cc_crypto_def)
    then have "cc_aesgcm ?cc = Some g" by (metis client_conn.select_convs(6) client_conn.surjective client_conn.update_convs(6))
    with g False show ?thesis by (simp add: keyed_def)
  qed
  from st obtain w v h nd rand inp where w: "cc_conn ?cc = Some w" "wr_out w = []"
    and s: "lk_srv l = new_run v (cc_key ?cc) h nd rand inp" "wr_out v = []" "rd_data inp = []" by blast
  have "cli_ok lib (cc_aesgcm ?cc) (lk_cli l)"
    using st k w by (simp add: cli_ok_def cli_log_def pipe_out_start)
  moreover have "srv_ok lib (cc_aesgcm ?cc) (lk_srv l)"
    using k s(2) scr_inv_init unfolding s(1)
    by (simp add: srv_ok_def srv_log_def scr_init_def NewServerConn_def sc_buf_ok_def pipe_out_start)
  moreover have "arrives err a sent 0 [] rd \<lparr>rd_data = [], rd_end = e\<rparr>" for err a sent rd e
    by (auto simp: arrives_def)
  ultimately show ?thesis
    using st s by (intro exI [of _ "cc_aesgcm ?cc"]) (cases "cr_in (lk_cli l)"; cases inp; simp add: link_ok_def scr_init_def cli_log_def srv_log_def)
qed

lemma link_reach_ok:
  assumes "link_reach lib l0 l" and "link_ok lib a l0" and "crypto_ok lib"
  shows "link_ok lib a l"
  using assms by (induction rule: link_reach.induct) (auto intro: link_step_ok)

lemma link_delivers_prefix:
  assumes "link_start lib l0" and "link_reach lib l0 l" and "crypto_ok lib"
  shows "prefix (lk_srv_got l) (cli_log (lk_cli l)) \<and> prefix (lk_cli_got l) (srv_log (lk_srv l))"
proof -
  obtain a where "link_ok lib a l" using link_start_ok link_reach_ok assms by blast
  then show ?thesis
    using cli_okD(3) srv_okD(2) arrives_prefix
    by (fastforce simp: link_ok_def up_bytes_def down_bytes_def cc_out_def sc_out_def)
qed

section \<open>Nothing is kept back\<close>

lemma link_reach_trans: "link_reach lib l1 l2 \<Longrightarrow> link_reach lib l0 l1 \<Longrightarrow> link_reach lib l0 l2"
  by (induction rule: link_reach.induct) (auto intro: link_reach.reach_step)

lemma link_then: "link_step lib l l1 \<Longrightarrow> link_reach lib l1 l2 \<Longrightarrow> link_reach lib l l2"
  using link_reach_trans link_reach.reach_step [OF link_reach.reach_init] by blast

lemma srv_reads_all:
  assumes "reads (decode_frame ErrCiperNotMatch a) inp ds r'" and "run_in (lk_srv l) = inp"
    and "link_ok lib a l" and "crypto_ok lib" and "run_reader (lk_srv l) = RReading"
  shows "\<exists>l'. link_reach lib l l' \<and> lk_cli l' = lk_cli l \<and> lk_srv_got l' = lk_srv_got l @ ds"
  using assms
proof (induction arbitrary: l rule: reads.induct)
  case (reads_Nil r)
  then show ?case by (intro exI [of _ l]) (simp add: link_reach.reach_init)
next
  case (reads_Cons inp d inp1 ds inp2)
  let ?s = "(lk_srv l)\<lparr>run_in := inp1\<rparr>"
  let ?l = "l\<lparr>lk_srv := ?s, lk_srv_got := lk_srv_got l @ [d]\<rparr>"
  have rd: "sc_read (run_sc (lk_srv l)) (run_in (lk_srv l)) = (Ok d, inp1)"
    using reads_Cons srv_okD(1) [of lib a "lk_srv l"] by (simp add: link_ok_def)
  have "srv_handed (lk_srv l) ?s = [d]" using sc_read_progress [OF rd] rd by (simp add: srv_handed_def)
  moreover have "scr_step lib (lk_srv l) ?s" by (rule scr_step.read [OF reads_Cons.prems(4) rd])
  moreover have "list_all short_data (srv_log ?s)" using reads_Cons.prems(2) by (simp add: link_ok_def srv_log_def)
  ultimately have st: "link_step lib l ?l" using link_step.server [of lib l ?s] by simp
  from reads_Cons.IH [of ?l] link_step_ok [OF st reads_Cons.prems(2,3)] reads_Cons.prems obtain l'
    where "link_reach lib ?l l'" "lk_cli l' = lk_cli ?l" "lk_srv_got l' = lk_srv_got ?l @ ds" by auto
  with link_then [OF st] show ?case by (intro exI [of _ l']) simp
qed

lemma cli_reads_all:
  assumes "reads (decode_frame errOpen a) inp ds r'" and "cr_in (lk_cli l) = inp"
    and "link_ok lib a l" and "crypto_ok lib" and "cr_phase (lk_cli l) = RunReading"
  shows "\<exists>l'. link_reach lib l l' \<and> lk_srv l' = lk_srv l \<and> lk_cli_got l' = lk_cli_got l @ ds"
  using assms
proof (induction arbitrary: l rule: reads.induct)
  case (reads_Nil r)
  then show ?case by (intro exI [of _ l]) (simp add: link_reach.reach_init)
next
  case (reads_Cons inp d inp1 ds inp2)
  let ?c = "(lk_cli l)\<lparr>cr_in := inp1\<rparr>"
  let ?l = "l\<lparr>lk_cli := ?c, lk_cli_got := lk_cli_got l @ [d]\<rparr>"
  have rd: "cc_read (cr_cc (lk_cli l)) (cr_in (lk_cli l)) = (Ok d, inp1)"
    using reads_Cons cli_okD(1) [of lib a "lk_cli l"] by (simp add: link_ok_def)
  have w: "cc_conn (cr_cc (lk_cli l)) \<noteq> None"
    using reads_Cons.prems(2) by (auto simp: link_ok_def cli_ok_def)
  have "cli_handed (lk_cli l) ?c = [d]" using cc_read_progress [OF rd] rd by (simp add: cli_handed_def)
  moreover have "ccr_step lib (lk_cli l) ?c" by (rule ccr_step.read [OF reads_Cons.prems(4) w rd])
  moreover have "list_all short_data (cli_log ?c)" using reads_Cons.prems(2) by (simp add: link_ok_def cli_log_def)
  ultimately have st: "link_step lib l ?l" using link_step.client [of lib l ?c] reads_Cons.prems(4) by simp
  from reads_Cons.IH [of ?l] link_step_ok [OF st reads_Cons.prems(2,3)] reads_Cons.prems obtain l'
    where "link_reach lib ?l l'" "lk_srv l' = lk_srv ?l" "lk_cli_got l' = lk_cli_got ?l @ ds" by auto
  with link_then [OF st] show ?case by (intro exI [of _ l']) simp
qed

lemma srv_catches_up:
  assumes ok: "link_ok lib a l" and lib: "crypto_ok lib" and rd: "run_reader (lk_srv l) = RReading"
    and open': "\<not> cc_cut (cr_cc (lk_cli l))"
  shows "\<exists>l'. link_reach lib l l' \<and> lk_cli l' = lk_cli l \<and> lk_srv_got l' = cli_log (lk_cli l)"
proof -
  let ?n = "length (up_bytes l) - lk_up l" and ?r = "run_in (lk_srv l)"
  have le: "lk_up l + ?n = length (up_bytes l)" using ok by (simp add: link_ok_def arrives_def)
  let ?l = "l\<lparr>lk_up := lk_up l + ?n, lk_srv := (lk_srv l)\<lparr>run_in :=
      ?r\<lparr>rd_data := rd_data ?r @ take ?n (drop (lk_up l) (up_bytes l))\<rparr>\<rparr>\<rparr>"
  have st: "link_step lib l ?l" by (rule link_step.up) (use le in simp_all)
  note ok' = link_step_ok [OF st ok lib]
  have "arrives ErrCiperNotMatch a (up_bytes ?l) (length (up_bytes ?l)) (lk_srv_got ?l) True (run_in (lk_srv ?l))"
    using ok' le rd by (simp add: link_ok_def up_bytes_def srv_reading_def)
  moreover have "pipe_out a True (up_bytes ?l) (cli_log (lk_cli ?l))"
    using cli_okD(3) [of lib a "lk_cli ?l"] ok' open' by (auto simp: link_ok_def up_bytes_def cc_out_def cc_cut_def)
  ultimately obtain ds r' where ds: "cli_log (lk_cli ?l) = lk_srv_got ?l @ ds"
    "reads (decode_frame ErrCiperNotMatch a) (run_in (lk_srv ?l)) ds r'" using arrived_all by blast
  from srv_reads_all [OF ds(2) refl ok' lib] rd obtain l'
    where "link_reach lib ?l l'" "lk_cli l' = lk_cli ?l" "lk_srv_got l' = lk_srv_got ?l @ ds" by auto
  with ds(1) link_then [OF st] show ?thesis by (intro exI [of _ l']) simp
qed

lemma cli_catches_up:
  assumes ok: "link_ok lib a l" and lib: "crypto_ok lib" and rd: "cr_phase (lk_cli l) = RunReading"
    and open': "\<not> sc_cut (run_sc (lk_srv l))"
  shows "\<exists>l'. link_reach lib l l' \<and> lk_srv l' = lk_srv l \<and> lk_cli_got l' = srv_log (lk_srv l)"
proof -
  let ?n = "length (down_bytes l) - lk_down l" and ?r = "cr_in (lk_cli l)"
  have le: "lk_down l + ?n = length (down_bytes l)" using ok by (simp add: link_ok_def arrives_def)
  let ?l = "l\<lparr>lk_down := lk_down l + ?n, lk_cli := (lk_cli l)\<lparr>cr_in :=
      ?r\<lparr>rd_data := rd_data ?r @ take ?n (drop (lk_down l) (down_bytes l))\<rparr>\<rparr>\<rparr>"
  have st: "link_step lib l ?l" by (rule link_step.down) (use le in simp_all)
  note ok' = link_step_ok [OF st ok lib]
  have "arrives errOpen a (down_bytes ?l) (length (down_bytes ?l)) (lk_cli_got ?l) True (cr_in (lk_cli ?l))"
    using ok' le rd by (simp add: link_ok_def down_bytes_def cli_reading_def)
  moreover have "pipe_out a True (down_bytes ?l) (srv_log (lk_srv ?l))"
    using srv_okD(2) [of lib a "lk_srv ?l"] ok' open' by (auto simp: link_ok_def down_bytes_def sc_out_def sc_cut_def)
  ultimately obtain ds r' where ds: "srv_log (lk_srv ?l) = lk_cli_got ?l @ ds"
    "reads (decode_frame errOpen a) (cr_in (lk_cli ?l)) ds r'" using arrived_all by blast
  from cli_reads_all [OF ds(2) refl ok' lib] rd obtain l'
    where "link_reach lib ?l l'" "lk_srv l' = lk_srv ?l" "lk_cli_got l' = lk_cli_got ?l @ ds" by auto
  with ds(1) link_then [OF st] show ?thesis by (intro exI [of _ l']) simp
qed

section \<open>The properties\<close>


text \<open>The client, with a key, has opened the stream and started one writing goroutine.\<close>

definition demo_link :: link where
  "demo_link = \<lparr>lk_cli = (ccr_init (snd (cc_crypto demo_crypto (demo_cc ''k'')))
        \<lparr>rd_data = replicate 12 5, rd_end = EOF\<rparr> \<lparr>rd_data = [], rd_end = EOF\<rparr>)\<lparr>cr_phase := RunEnter, cr_writers := 1\<rparr>,
     lk_srv = new_run fresh_writer ''k'' True False \<lparr>rd_data = [], rd_end = EOF\<rparr> \<lparr>rd_data = [], rd_end = EOF\<rparr>,
     lk_up = 0, lk_down = 0, lk_srv_got = [], lk_cli_got = []\<rparr>"

lemma demo_link_cc:
  obtains g where "makeAES128GCM demo_crypto ''k'' = Inr g"
    "snd (cc_crypto demo_crypto (demo_cc ''k'')) = (demo_cc ''k'')\<lparr>cc_aesgcm := Some g\<rparr>"
proof -
  obtain g where "makeAES128GCM demo_crypto ''k'' = Inr g" using makeAES_total(1) [OF demo_crypto_ok] by blast
  with that show ?thesis by (simp add: cc_crypto_def demo_cc_def NewClientConn_def)
qed

lemma demo_link_start: "link_start demo_crypto demo_link"
proof -
  obtain g where g: "makeAES128GCM demo_crypto ''k'' = Inr g"
    "snd (cc_crypto demo_crypto (demo_cc ''k'')) = (demo_cc ''k'')\<lparr>cc_aesgcm := Some g\<rparr>" by (rule demo_link_cc)
  have "\<exists>w h nd rand inp. lk_srv demo_link = new_run w ''k'' h nd rand inp \<and> wr_out w = [] \<and> rd_data inp = []"
    unfolding demo_link_def
    by (intro exI [of _ fresh_writer] exI [of _ True] exI [of _ False] exI [of _ "\<lparr>rd_data = [], rd_end = EOF\<rparr>"])
      (simp add: fresh_writer_def)
  then show ?thesis
    using g by (simp add: link_start_def demo_link_def ccr_init_def cc_crypto_def demo_cc_def NewClientConn_def
        cc_buf_ok_def fresh_writer_def Let_def)
qed

lemma demo_link_sends:
  "\<exists>l. link_reach demo_crypto demo_link l \<and> cli_log (lk_cli l) = [[7]] \<and> run_reader (lk_srv l) = RReading
     \<and> \<not> cc_cut (cr_cc (lk_cli l))"
proof -
  obtain g where g: "makeAES128GCM demo_crypto ''k'' = Inr g"
    "snd (cc_crypto demo_crypto (demo_cc ''k'')) = (demo_cc ''k'')\<lparr>cc_aesgcm := Some g\<rparr>" by (rule demo_link_cc)
  let ?c = "lk_cli demo_link" and ?s = "lk_srv demo_link"
  have c: "cr_cc ?c = (demo_cc ''k'')\<lparr>cc_aesgcm := Some g\<rparr>" "cr_rand ?c = \<lparr>rd_data = replicate 12 5, rd_end = EOF\<rparr>"
    "cr_writers ?c = Suc 0" "cr_phase ?c = RunEnter" "cr_log ?c = []"
    by (simp_all add: demo_link_def ccr_init_def g)
  have "nonce_len (Some g) \<le> 12"
    using demo_crypto_cipher [of "''k''"] g by (auto simp: nonce_len_def demo_aead_def)
  then obtain cc' rand' where w: "cc_write [7] (cr_cc ?c, cr_rand ?c) = (Ok (), (cc', rand'))" "cc_ready cc'"
    using cli_writer.write_frame [of "cr_cc ?c" "cr_rand ?c" "[7]"] c
    by (auto simp: cc_ready_def demo_cc_def)
  let ?c1 = "?c\<lparr>cr_cc := cc', cr_rand := rand', cr_log := cr_log ?c @ [([7], cc_aesgcm (cr_cc ?c))]\<rparr>"
  have "ccr_step demo_crypto ?c ?c1"
    by (rule ccr_step.writes [OF c(3)]) (simp add: cc_write_turn_def w)
  from link_step.client [of demo_crypto demo_link, OF this] c
  have s1: "link_step demo_crypto demo_link (demo_link\<lparr>lk_cli := ?c1\<rparr>)" (is "link_step _ _ ?l1")
    by (simp add: cli_log_def short_data_def handed_same demo_link_def)
  let ?s1 = "?s\<lparr>run_sc := (run_sc ?s)\<lparr>sc_aesgcm := Some g\<rparr>, run_reader := RReading\<rparr>"
  have "scr_step demo_crypto ?s ?s1"
    by (rule scr_step.start) (simp_all add: demo_link_def scr_init_def NewServerConn_def sc_crypto_def g)
  from link_step.server [of demo_crypto ?l1 ?s1] this
  have s2: "link_step demo_crypto ?l1 (?l1\<lparr>lk_srv := ?s1\<rparr>)" (is "link_step _ _ ?l2")
    by (simp add: srv_log_def handed_same demo_link_def scr_init_def)
  have "link_reach demo_crypto demo_link ?l2"
    by (rule link_reach.reach_step [OF link_reach.reach_step [OF link_reach.reach_init s1] s2])
  with w(2) c show ?thesis
    by (intro exI [of _ ?l2]) (auto simp: cli_log_def cc_cut_def cc_ready_def reliable_def split: option.splits)
qed




end
