(* ===== verification/Addresses.thy ===== *)
theory Addresses
  imports Iface Fixtures
begin

text \<open>
  What goes by text or by bytes between the components: the address texts used as route keys, the
  commands that configure the interface, and the encoding of the messages' \<open>oneof\<close>.
\<close>

section \<open>Route keys\<close>



section \<open>Configuring the interface\<close>

definition ifconfig_cmd :: "sys_env \<Rightarrow> string \<Rightarrow> bytes \<Rightarrow> nat \<Rightarrow> int \<Rightarrow> string list" where
  "ifconfig_cmd env name ip k mtu =
     (if env_goos env = ''darwin''
      then [''ifconfig'', name, dotted ip, dotted ip, ''netmask'', dotted (cidr_mask k 4), ''mtu'', itoa mtu, ''up'']
      else [''ifconfig'', name, dotted ip, ''netmask'', dotted (cidr_mask k 4), ''mtu'', itoa mtu, ''up''])"

definition route_cmd :: "bytes \<Rightarrow> string list" where
  "route_cmd ip = [''route'', ''add'', ''-net'', dotted (take 3 ip @ [0]), dotted ip]"

text \<open>Starting the interface on an IPv4 address with a prefix length: the device is created and
  configured by one \<open>ifconfig\<close> with the address, the mask of that length and the MTU; on macOS
  a route for the address with its last number 0 is added, whatever the prefix length. A failing
  \<open>ifconfig\<close> is an error, a failing \<open>route\<close> a panic.\<close>

theorem start_runs_ifconfig:
  assumes i: "if_ip i = dotted ip @ ''/'' @ nat_text k" "length ip = 4" "k \<le> 32"
    and dev: "env_water_New env = Inr name"
  shows "Iface_Start env (i, cmds) =
    (let cmd = ifconfig_cmd env name ip k (if_mtu i); i' = i\<lparr>if_ifce := Some name\<rparr> in
     case env_exec env cmd of
       (out, Some e) \<Rightarrow> (Err (Errorf (''err: '' @ error_string e @ '' '' @ out)), i', cmds @ [cmd])
     | (out, None) \<Rightarrow>
         if env_goos env = ''darwin''
         then (case env_exec env (route_cmd ip) of
             (out, Some e) \<Rightarrow> (Panic (''err: '' @ error_string e @ '' '' @ out), i', cmds @ [cmd, route_cmd ip])
           | (out, None) \<Rightarrow> (Ok (), i', cmds @ [cmd, route_cmd ip]))
         else (Ok (), i', cmds @ [cmd]))"
proof -
  obtain a b c d where ip: "ip = [a, b, c, d]" using i(2) by (auto simp: length_Suc_conv eval_nat_numeral)
  have net: "str_join ''.'' (butlast (str_split CHR ''.'' (dotted ip))) @ ''.0'' = dotted (take 3 ip @ [0])"
    using subnet_dotted [of a b c d] by (simp add: ip eval_nat_numeral)
  have msk: "netmask_text (cidr_mask k 4) = dotted (cidr_mask k 4)" by (simp add: netmask_text_def)
  show ?thesis
    unfolding Iface_Start_def i(1) prod.case parse_cidr_dotted [OF i(2,3)] sum.case dev
    using i(2)
    by (auto simp: Let_def msk AddSysRoute_def net ifconfig_cmd_def route_cmd_def
        split: prod.splits option.splits)
qed

definition demo_env :: sys_env where
  "demo_env = \<lparr>env_goos = ''darwin'', env_parse_ipv6 = (\<lambda>_. None), env_water_New = Inr ''utun2'',
     env_exec = (\<lambda>_. ([], None))\<rparr>"

theorem start_runs_ifconfig_witness:
  "Iface_Start demo_env (Iface_New [] (dotted [10, 4, 4, 3] @ ''/'' @ nat_text 24) 1500, []) =
    (let cmd = ifconfig_cmd demo_env ''utun2'' [10, 4, 4, 3] 24
           (if_mtu (Iface_New [] (dotted [10, 4, 4, 3] @ ''/'' @ nat_text 24) 1500));
         i' = (Iface_New [] (dotted [10, 4, 4, 3] @ ''/'' @ nat_text 24) 1500)\<lparr>if_ifce := Some ''utun2''\<rparr> in
     case env_exec demo_env cmd of
       (out, Some e) \<Rightarrow> (Err (Errorf (''err: '' @ error_string e @ '' '' @ out)), i', [] @ [cmd])
     | (out, None) \<Rightarrow>
         if env_goos demo_env = ''darwin''
         then (case env_exec demo_env (route_cmd [10, 4, 4, 3]) of
             (out, Some e) \<Rightarrow> (Panic (''err: '' @ error_string e @ '' '' @ out), i',
                 [] @ [cmd, route_cmd [10, 4, 4, 3]])
           | (out, None) \<Rightarrow> (Ok (), i', [] @ [cmd, route_cmd [10, 4, 4, 3]]))
         else (Ok (), i', [] @ [cmd]))"
  by (rule start_runs_ifconfig) (simp_all add: Iface_New_def demo_env_def)

section \<open>The oneof\<close>

text \<open>What the generated encoder writes for a message with its inner pointer set, the generated
  decoder reads back: the tag byte's number selects the message and its wire type is the one
  expected, the decoder consumes exactly the rest, and the size announced is the size written.\<close>

theorem oneof_roundtrip:
  assumes lib: "proto_lib_ok lib" and enc: "Envelope_OneofMarshaler lib m [] = (None, b)"
    and set: "EType m = Some (Envelope_Ping (Some p)) \<or> EType m = Some (Envelope_Packet (Some q))"
  shows "\<exists>tagbyte body. b = tagbyte # body \<and> unat tagbyte mod 8 = WireBytes
    \<and> Envelope_OneofUnmarshaler lib m0 (unat tagbyte div 8) (unat tagbyte mod 8) (body @ rest)
        = (True, None, m0\<lparr>EType := EType m\<rparr>, rest)
    \<and> length b = Envelope_OneofSizer lib m"
proof -
  have tag: "EncodeVarint lib 10 = [10]" "EncodeVarint lib 18 = [18]"
    using proto_lib_okD(2) [OF lib] by simp_all
  have len: "length b = Envelope_OneofSizer lib m" using oneof_size [OF lib enc] by simp
  show ?thesis
  proof (cases "EType m = Some (Envelope_Ping (Some p))")
    case True
    with enc tag obtain bs where bs: "EncodePing lib (Some p) = Inr bs" "b = 10 # bs"
      by (auto simp: Envelope_OneofMarshaler_def WireBytes_def Let_def split: sum.splits)
    with True len proto_lib_okD(5) [OF lib bs(1)] show ?thesis
      by (intro exI [of _ 10] exI [of _ bs])
        (simp add: Envelope_OneofUnmarshaler_def WireBytes_def)
  next
    case False
    with set have q: "EType m = Some (Envelope_Packet (Some q))" by simp
    with enc tag obtain bs where bs: "EncodePacket lib (Some q) = Inr bs" "b = 18 # bs"
      by (auto simp: Envelope_OneofMarshaler_def WireBytes_def Let_def split: sum.splits)
    with q len proto_lib_okD(6) [OF lib bs(1)] show ?thesis
      by (intro exI [of _ 18] exI [of _ bs])
        (simp add: Envelope_OneofUnmarshaler_def WireBytes_def)
  qed
qed

theorem oneof_roundtrip_witness:
  "\<exists>tagbyte body. [18, 3, 7, 8, 9] = tagbyte # body \<and> unat tagbyte mod 8 = WireBytes
    \<and> Envelope_OneofUnmarshaler demo_lib \<lparr>EType = None\<rparr> (unat tagbyte div 8) (unat tagbyte mod 8) (body @ [1])
        = (True, None, \<lparr>EType = None\<rparr>\<lparr>EType := EType \<lparr>EType = Some (Envelope_Packet (Some \<lparr>Payload = [7, 8, 9]\<rparr>))\<rparr>\<rparr>, [1])
    \<and> length [18, 3, 7, 8, 9 :: u8] = Envelope_OneofSizer demo_lib \<lparr>EType = Some (Envelope_Packet (Some \<lparr>Payload = [7, 8, 9]\<rparr>))\<rparr>"
proof (rule oneof_roundtrip [OF demo_lib_ok])
  show "Envelope_OneofMarshaler demo_lib \<lparr>EType = Some (Envelope_Packet (Some \<lparr>Payload = [7, 8, 9]\<rparr>))\<rparr> []
      = (None, [18, 3, 7, 8, 9])"
    by (simp add: Envelope_OneofMarshaler_def demo_varint_def demo_encode_def
        MessagePacket_GetPayload_def WireBytes_def Let_def)
qed simp

end
