(* ===== verification/ServerProps.thy ===== *)
theory ServerProps
  imports Server Fixtures
begin

text \<open>
  What the two connection tables guarantee over any sequence of operations, where their guarantee
  ends, and what the accept loop starts.
\<close>

section \<open>Sequences of operations\<close>

datatype srv_op = OpSet string conn_ptr | OpDrop string | OpRemove conn_ptr

fun srv_apply :: "srv_op \<Rightarrow> server \<times> conn_heap \<Rightarrow> server \<times> conn_heap" where
  "srv_apply (OpSet d c) st = snd (SetConns d (Some c) st)"
| "srv_apply (OpDrop d) (s, h) = (DeleteDeadConn d s, h)"
| "srv_apply (OpRemove c) (s, h) = (RemoveConnByConnPointer c s, h)"

lemma srv_apply_inv:
  assumes "srv_inv (fst st)" and "full_heap (snd st)"
  shows "srv_inv (fst (srv_apply op st)) \<and> snd (srv_apply op st) = snd st"
proof (cases op)
  case (OpSet d c)
  with assms srv_inv_SetConns [of "fst st" "snd st" d c] SetConns_streams [of "snd st" "fst st" d c]
  show ?thesis by (cases st) (simp add: full_heap_streams)
qed (use assms in \<open>cases st; simp add: srv_inv_DeleteDeadConn srv_inv_RemoveConn\<close>)+

lemma srv_ops_inv:
  "srv_inv (fst st) \<Longrightarrow> full_heap (snd st) \<Longrightarrow>
   srv_inv (fst (fold srv_apply ops st)) \<and> snd (fold srv_apply ops st) = snd st"
  by (induction ops arbitrary: st) (simp_all add: srv_apply_inv)

text \<open>The tables stay consistent: after any sequence of registrations, drops of dead addresses
  and removals of connections, no address occurs twice, no connection occurs twice in the
  reverse table, and the address noted for a connection leads back to it.\<close>

theorem tables_consistent:
  assumes "full_heap h"
  shows "srv_inv (fst (fold srv_apply ops (NewServer addr hs key, h)))"
  using srv_ops_inv [of "(NewServer addr hs key, h)" ops] assms by simp

lemma full_heap_New [simp]: "full_heap (\<lambda>c. NewServerConn w key h nd)"
  by (simp add: full_heap_def NewServerConn_def)

theorem tables_consistent_witness:
  "srv_inv (fst (fold srv_apply [OpSet ''a:1'' 0, OpSet ''b:2'' 0, OpDrop ''a:1'', OpRemove 0]
      (NewServer ''0.0.0.0:8080'' True ''k'', \<lambda>c. NewServerConn fresh_writer ''k'' True False)))"
  by (rule tables_consistent) simp

text \<open>
  An operation list in which no connection is announced under a second address while the first
  is registered keeps the tables inverse to each other.
\<close>

fun one_address :: "srv_op list \<Rightarrow> server \<times> conn_heap \<Rightarrow> bool" where
  "one_address [] st = True"
| "one_address (op # ops) st =
     ((case op of OpSet d c \<Rightarrow> list_all (\<lambda>(d', c'). c' = c \<longrightarrow> d' = d) (srv_Conns (fst st)) | _ \<Rightarrow> True)
      \<and> one_address ops (srv_apply op st))"

lemma srv_ops_exact:
  "srv_exact (fst st) \<Longrightarrow> full_heap (snd st) \<Longrightarrow> one_address ops st \<Longrightarrow>
   srv_exact (fst (fold srv_apply ops st))"
proof (induction ops arbitrary: st)
  case Nil
  then show ?case by simp
next
  case (Cons op ops)
  obtain s h where st: "st = (s, h)" by fastforce
  have "srv_exact (fst (srv_apply op st))"
  proof (cases op)
    case (OpSet d c)
    have "d' = d" if "map_of (srv_Conns s) d' = Some c" for d'
      using Cons.prems(3) map_of_SomeD [OF that] unfolding st OpSet by (auto simp: list_all_iff)
    with Cons.prems st OpSet show ?thesis by (simp add: srv_exact_SetConns full_heap_streams)
  qed (use Cons.prems st in \<open>simp_all add: srv_exact_DeleteDeadConn srv_exact_RemoveConn\<close>)
  moreover have "full_heap (snd (srv_apply op st))"
    using srv_apply_inv [of st op] Cons.prems srv_exact_inv by simp
  ultimately show ?case using Cons.IH [of "srv_apply op st"] Cons.prems(3) by simp
qed

text \<open>When every connection is announced under one address, a connection that has ended is
  unreachable: its cleanup leaves no address that leads to it.\<close>

theorem removed_unreachable:
  assumes heap: "full_heap h" and one: "one_address ops (NewServer addr hs key, h)"
    and s: "s = fst (fold srv_apply ops (NewServer addr hs key, h))"
  shows "GetConnsByAddr a (RemoveConnByConnPointer c s) \<noteq> Some c"
proof -
  have "srv_exact s" unfolding s using heap one by (intro srv_ops_exact) simp_all
  then show ?thesis by (rule RemoveConn_exact)
qed

theorem removed_unreachable_witness:
  "GetConnsByAddr ''a:1'' (RemoveConnByConnPointer 0 (fst (fold srv_apply [OpSet ''a:1'' 0, OpSet ''b:2'' 1]
      (NewServer ''0.0.0.0:8080'' True ''k'', \<lambda>c. NewServerConn fresh_writer ''k'' True False)))) \<noteq> Some 0"
  by (rule removed_unreachable [OF full_heap_New _ refl])
    (simp add: NewServer_def SetConns_streams full_heap_streams)

text \<open>The abstract table: a map from addresses to connections.\<close>

fun spec_apply :: "srv_op \<Rightarrow> (string \<rightharpoonup> conn_ptr) \<Rightarrow> string \<rightharpoonup> conn_ptr" where
  "spec_apply (OpSet d c) m = (if m d = None then m(d \<mapsto> c) else m)"
| "spec_apply (OpDrop d) m = m(d := None)"
| "spec_apply (OpRemove c) m = (\<lambda>d. if m d = Some c then None else m d)"

lemma srv_apply_spec:
  assumes "srv_exact (fst st)" and "full_heap (snd st)"
  shows "map_of (srv_Conns (fst (srv_apply op st))) = spec_apply op (map_of (srv_Conns (fst st)))"
proof (cases op)
  case (OpSet d c)
  with assms(2) show ?thesis
    by (cases st; cases "map_of (srv_Conns (fst st)) d") (simp_all add: SetConns_streams full_heap_streams)
next
  case (OpRemove c)
  obtain s h where st: "st = (s, h)" by fastforce
  have "map_of (srv_ConnsReverse s) c = Some d \<longleftrightarrow> map_of (srv_Conns s) d = Some c" for d
    using srv_invD(3) [OF srv_exact_inv, of s c d] srv_exactD [of s d c] assms(1) st by auto
  with OpRemove st show ?thesis by (simp add: RemoveConn_Conns fun_eq_iff)
qed (cases st; simp add: DeleteDeadConn_Conns)

text \<open>C16. The two tables implement one map: as long as no connection is announced under two addresses
  at a time, looking an address up after any sequence of registrations, drops and removals gives
  what a plain map from addresses to connections gives, in which a registration never replaces an
  entry and the removal of a connection takes out every entry that leads to it.\<close>

theorem tables_refine_map:
  assumes heap: "full_heap h" and one: "one_address ops (NewServer addr hs key, h)"
  shows "(\<lambda>a. GetConnsByAddr a (fst (fold srv_apply ops (NewServer addr hs key, h))))
    = fold spec_apply ops Map.empty"
proof -
  have "map_of (srv_Conns (fst (fold srv_apply ops st))) = fold spec_apply ops (map_of (srv_Conns (fst st)))"
    if "srv_exact (fst st)" "full_heap (snd st)" "one_address ops st" for st
    using that
  proof (induction ops arbitrary: st)
    case (Cons op ops)
    have "srv_exact (fst (fold srv_apply [op] st))"
      using Cons.prems by (intro srv_ops_exact) simp_all
    moreover have "full_heap (snd (srv_apply op st))"
      using srv_apply_inv [of st op] Cons.prems srv_exact_inv by simp
    ultimately show ?case using Cons.IH [of "srv_apply op st"] Cons.prems by (simp add: srv_apply_spec)
  qed simp
  from this [of "(NewServer addr hs key, h)"] heap one show ?thesis
    by (simp add: GetConnsByAddr_def fun_eq_iff) (simp add: NewServer_def)
qed

theorem tables_refine_map_witness:
  "(\<lambda>a. GetConnsByAddr a (fst (fold srv_apply [OpSet ''a:1'' 0, OpSet ''b:2'' 1, OpRemove 0, OpSet ''a:1'' 2]
      (NewServer ''0.0.0.0:8080'' True ''k'', \<lambda>c. NewServerConn fresh_writer ''k'' True False))))
   = fold spec_apply [OpSet ''a:1'' 0, OpSet ''b:2'' 1, OpRemove 0, OpSet ''a:1'' 2] Map.empty"
  by (rule tables_refine_map [OF full_heap_New])
    (simp add: NewServer_def SetConns_streams full_heap_streams RemoveConnByConnPointer_def)

text \<open>A connection announced under two addresses is not removed whole: the reverse table holds
  the last address only, and after the connection's cleanup the first one still leads to the
  ended connection.\<close>

theorem second_address_dangles:
  assumes "full_heap h" and "map_of (srv_Conns s) a = None" "map_of (srv_Conns s) b = None" "a \<noteq> b"
  shows "GetConnsByAddr a (fst (fold srv_apply [OpSet a c, OpSet b c, OpRemove c] (s, h))) = Some c"
  using assms
  by (simp add: SetConns_streams full_heap_streams GetConnsByAddr_def RemoveConn_Conns)

theorem second_address_dangles_witness:
  "GetConnsByAddr ''a:1'' (fst (fold srv_apply [OpSet ''a:1'' 4, OpSet ''b:2'' 4, OpRemove 4]
     (NewServer ''0.0.0.0:8080'' True ''k'', \<lambda>c. NewServerConn fresh_writer ''k'' True False))) = Some 4"
  by (rule second_address_dangles) (simp_all add: NewServer_def)

section \<open>Accepting\<close>

lemma StartListen_fresh:
  assumes "StartListen s nd ls h n st = (h', n', st')" and "\<forall>p \<in> set st. p < n" and "distinct st"
  shows "distinct st' \<and> (\<forall>p \<in> set st'. p < n') \<and> n \<le> n' \<and> (\<forall>p < n. h' p = h p)
    \<and> (\<forall>p. n \<le> p \<longrightarrow> p < n' \<longrightarrow> fresh_conn s (h' p))"
  using assms
proof (induction ls arbitrary: h n st)
  case Nil
  then show ?case by simp
next
  case (Cons l ls)
  obtain tls la where l: "l = (tls, la)" by fastforce
  obtain e h1 n1 st1 where run: "srv_listen s nd tls la h n st = (e, h1, n1, st1)" by (metis prod_cases4)
  have step: "distinct st1 \<and> (\<forall>p \<in> set st1. p < n1) \<and> n \<le> n1 \<and> (\<forall>p < n. h1 p = h p)
    \<and> (\<forall>p. n \<le> p \<longrightarrow> p < n1 \<longrightarrow> fresh_conn s (h1 p))"
  proof (cases "\<exists>cfg evs. generateTLSConfig tls = Ok cfg \<and> la cfg = Inr evs")
    case True
    then obtain cfg evs err where "listen_loop s nd evs h n st = (err, h1, n1, st1)"
      using run by (auto simp: srv_listen_def split: prod.splits)
    from listen_loop_fresh [OF this Cons.prems(2,3)] show ?thesis .
  next
    case False
    with run have "h1 = h \<and> n1 = n \<and> st1 = st"
      by (cases "generateTLSConfig tls") (auto simp: srv_listen_def split: sum.splits)
    with Cons.prems show ?thesis by simp
  qed
  show ?case
  proof (cases "\<exists>err. e = Ok err")
    case True
    then have "StartListen s nd ls h1 n1 st1 = (h', n', st')" using Cons.prems(1) l run by auto
    from Cons.IH [OF this] step have IH: "distinct st'" "\<forall>p \<in> set st'. p < n'" "n1 \<le> n'"
      "\<forall>p < n1. h' p = h1 p" "\<forall>p. n1 \<le> p \<longrightarrow> p < n' \<longrightarrow> fresh_conn s (h' p)" by auto
    have "fresh_conn s (h' p)" if "n \<le> p" "p < n'" for p
      using that IH step by (cases "p < n1") (auto simp: not_less)
    moreover have "\<forall>p < n. h' p = h p" using IH step by auto
    ultimately show ?thesis using IH step by auto
  next
    case False
    then have "h' = h1 \<and> n' = n1 \<and> st' = st1" using Cons.prems(1) l run by (cases e) auto
    with step show ?thesis by simp
  qed
qed

lemma StartListen_append:
  "generateTLSConfig tls = Panic p \<Longrightarrow>
   StartListen s nd (ls @ (tls, la) # ls') h n st = StartListen s nd (ls @ [(tls, la)]) h n st"
  by (induction ls arbitrary: h n st) (auto simp: srv_listen_def split: prod.splits outcome.splits)

text \<open>The server serves every stream with a connection of its own: over any number of listener
  failures, accept errors and stream errors, the connections started are pairwise different,
  each is open, has its stream, the server's key and a buffer for the longest frame, and no
  connection that existed before is changed. A failure to make the TLS configuration is the one
  that is not survived: it panics through the loop, and nothing is ever accepted after it.\<close>

theorem listen_starts_fresh:
  assumes "StartListen s nd ls h n [] = (h', n', started)"
  shows "distinct started \<and> (\<forall>p \<in> set started. p < n') \<and> (\<forall>p < n. h' p = h p)
    \<and> (\<forall>p. n \<le> p \<longrightarrow> p < n' \<longrightarrow> fresh_conn s (h' p))
    \<and> (\<forall>tls la p more. generateTLSConfig tls = Panic p \<longrightarrow>
         StartListen s nd (ls @ (tls, la) # more) h n [] = (h', n', started))"
proof -
  have "StartListen s nd (ls @ [(tls, la)]) h n [] = (h', n', started)"
    if "generateTLSConfig tls = Panic p" for tls la p
  proof -
    have "StartListen s nd (xs @ [(tls, la)]) h0 n0 st0 = StartListen s nd xs h0 n0 st0" for xs h0 n0 st0
      using that by (induction xs arbitrary: h0 n0 st0) (auto simp: srv_listen_def split: prod.splits outcome.splits)
    with assms show ?thesis by simp
  qed
  then show ?thesis using StartListen_fresh [OF assms] StartListen_append by (metis empty_iff empty_set distinct.simps(1))
qed

definition demo_tls :: "go_error + bytes \<Rightarrow> tls_lib" where
  "demo_tls key = \<lparr>rsa_GenerateKey = key, x509_CreateCertificate = (\<lambda>k. Inr (1 # k)),
     pem_key = id, pem_cert = id, tls_X509KeyPair = (\<lambda>c k. Inr (c @ k))\<rparr>"

lemma demo_tls_ok: "generateTLSConfig (demo_tls (Inr k))
    = Ok \<lparr>tls_Certificates = [(1 # k) @ k], tls_NextProtos = [''quic-echo-example'']\<rparr>"
  by (simp add: generateTLSConfig_def demo_tls_def)

theorem listen_starts_fresh_witness:
  "\<exists>h' n' started. StartListen (NewServer [] True ''k'') False
      [(demo_tls (Inr [5]), \<lambda>_. Inl EOF),
       (demo_tls (Inr [6]), \<lambda>_. Inr [Stream fresh_writer, StreamError EOF, Stream fresh_writer, AcceptError EOF]),
       (demo_tls (Inr [7]), \<lambda>_. Inr [])]
      (\<lambda>c. NewServerConn fresh_writer [] True False) 0 [] = (h', n', started) \<and> started = [0, 1]
    \<and> distinct started \<and> (\<forall>p \<in> set started. p < n')
    \<and> (\<forall>p. 0 \<le> p \<longrightarrow> p < n' \<longrightarrow> fresh_conn (NewServer [] True ''k'') (h' p))"
proof -
  let ?ls = "[(demo_tls (Inr [5]), \<lambda>_. Inl EOF),
       (demo_tls (Inr [6]), \<lambda>_. Inr [Stream fresh_writer, StreamError EOF, Stream fresh_writer, AcceptError EOF]),
       (demo_tls (Inr [7]), \<lambda>_. Inr [])]"
  obtain h' n' started where run: "StartListen (NewServer [] True ''k'') False ?ls
      (\<lambda>c. NewServerConn fresh_writer [] True False) 0 [] = (h', n', started)"
    by (metis prod_cases3)
  moreover from this have "started = [0, 1]" by (simp add: srv_listen_def demo_tls_ok)
  moreover note listen_starts_fresh [OF run]
  ultimately show ?thesis by (intro exI [of _ h'] exI [of _ n'] exI [of _ started] conjI) simp_all
qed

end
