(* ===== verification/Spec2Isabelle.thy ===== *)
theory Spec2Isabelle
  imports ProtoRuntime MainCmd Stall ClientSend SocksSession RelayRun SocksWire TextCodes Link Addresses ClientProps ServerProps AppProps Transport ServerConnRun ClientConnRun
begin

text \<open>
  A model of qtun, a VPN in Go: a client and a server each own a TUN device, carry its packets as
  protobuf messages in length-prefixed, optionally sealed frames over QUIC streams, and keep
  themselves reachable by pings; beside the tunnel the server runs a SOCKS5 proxy and the client a
  file server. Paths are under \<open>src/\<close>.

  The parts and their theories, in the order of their dependencies:

  \<^item> Library: \<open>Prelude\<close> (bytes, Go's outcomes: value, error, panic, waiting; state passing with
    \<open>go_bind\<close>; Go maps and sets as association lists and lists), \<open>GoIO\<close> (streams as a \<open>reader\<close> and a
    \<open>writer\<close>, \<open>io.ReadFull\<close>, channels; the locale \<open>stream_reader\<close>), \<open>GoNet\<close> (the text of numbers and
    addresses, \<open>strings.Split\<close>, \<open>net.ParseCIDR\<close>, \<open>IP.String\<close>). They model what the program uses of Go.
  \<^item> \<open>Config\<close> (\<open>config/config.go\<close>), \<open>Protocol\<close> and
    \<open>ProtoRuntime\<close> (\<open>protocol/protocol.pb.go\<close>), \<open>Iface\<close> (\<open>iface/\<close>), \<open>Crypto\<close>
    (\<open>transport/crypto.go\<close>, \<open>utils/hash.go\<close>; \<open>Hex\<close> and \<open>B64\<close> are in \<open>TextCodes\<close>), \<open>Timer\<close> (\<open>utils/timer/timer.go\<close>).
  \<^item> Transport: \<open>Frame\<close> states the frame format and the contract between two ends (locales
    \<open>frame_codec\<close>, \<open>frame_writer\<close>); \<open>ServerConn\<close> and \<open>ClientConn\<close> (\<open>transport/server_conn.go\<close>,
    \<open>transport/client_conn.go\<close>) are the two ends, shown to implement it; \<open>Transport\<close> joins them.
    \<open>ServerConnRun\<close> and \<open>ClientConnRun\<close> interleave the goroutines of one connection as step relations;
    \<open>Pipe\<close> and \<open>Link\<close> join the two machines by the bytes on the way, with arrival in pieces.
    \<open>Server\<close> and \<open>Client\<close> (\<open>transport/server.go\<close>, \<open>transport/client.go\<close>) hold the connections: the
    server by announced address (locale \<open>conn_table\<close>), the client by index, round robin.
    \<open>ServerProps\<close> and \<open>ClientProps\<close> have their properties, and \<open>ClientSend\<close> interleaves the senders of
    a client, which wait on the channels of its connections.
  \<^item> Application: \<open>App\<close> (\<open>qtun/app.go\<close>) has the routes, the handlers, the workers and the cleaner as
    functions, \<open>AppProps\<close> what each guarantees, \<open>AppRun\<close> the critical sections of all of them
    interleaved, \<open>Stall\<close> the workers behind one full queue; \<open>Addresses\<close> how the address texts of both sides fit together; \<open>MainCmd\<close> (\<open>main.go\<close>,
    \<open>fileserver/http.go\<close>, \<open>utils/log/log.go\<close>) what is started.
  \<^item> Proxy: \<open>SocksAddr\<close>, \<open>SocksAuth\<close> (locale \<open>socks_authenticator\<close>), \<open>SocksRequest\<close>, \<open>SocksServer\<close>
    (\<open>socks5/\<close>), \<open>SocksProps\<close>, \<open>SocksWire\<close> for the language of
    requests, \<open>SocksSession\<close> for a session from the first byte to the end, and
    \<open>RelayRun\<close> for the two copying goroutines of a relay, interleaved at will.
  \<^item> \<open>Fixtures\<close>: concrete instances of the parameters, with which the witnesses evaluate.

  State. A Go struct is a record with the fields of the source, in its order; a mutex disappears
  and each critical section is one step. Connections of the server are pointers into a heap
  (\<open>conn_heap\<close>), since the tables, the workers and the goroutines share them. A select, a random
  choice and the scheduler are arguments or the choice of a step. Errors, panics and waits are the
  values \<open>Err\<close>, \<open>Panic\<close> and \<open>Block\<close> of \<open>outcome\<close>; a recover turns a panic into what the deferred
  function leaves, and a panic in a deferred function after its recover ends the program.

  Parameters, with what is assumed of them: the cipher and the digests (\<open>crypto_ok\<close>: the digest
  sizes, 16 bytes of overhead, opening inverts sealing and nothing else opens), \<open>proto.Marshal\<close> and
  \<open>proto.Unmarshal\<close> (\<open>codec_ok\<close>: they invert each other on the envelopes the program builds), the
  protobuf buffer (\<open>proto_lib_ok\<close>), QUIC streams (bytes arrive in order; a writer may fail at any
  write, and once the stream or its session is closed every write fails), RSA keys and certificates, dialling, name resolution, the TUN device and external commands.

  What the lemma groups show: frames come out of either end as they went in, up to the 16-bit
  length, whatever is drawn as nonce; with a key nothing leaves in the clear, and sealed frames are
  authentic, but unsealed ones are accepted too; the connection tables implement a map as long as
  a connection has one address; a packet goes to a live connection of its route if there is one,
  and only to connections announced for it; queues are first-in first-out; when one goroutine of a
  connection ends, the other follows, with the exceptions the code has; one connection that takes
  nothing stops a whole client, and on the server the traffic of all clients; the proxy dials only
  what its rules and its authentication allow. At the end of this theory both TUN devices are joined.

  Bounds and recursion. The reading loops recurse on the bytes left in the stream, the server's
  worker on the number of keys in the route, so no fuel is needed; loops that wait for events
  (accepting, ticks, device reads) recurse on the list of events. Lengths are 16-bit words, the
  round-robin counter is a 64-bit word, and theorems state the bounds they need (\<open>short_data\<close>, a
  counter below \<open>2 ^ 63\<close>).

  Not modelled: log lines and help texts; the two unused pools of \<open>transport/pool.go\<close>; the fields
  of the protobuf structs that only the runtime uses; data races on the maps read without their lock (they are
  reported as findings).
\<close>

section \<open>From one TUN device to the other\<close>

lemma deliver_packets:
  assumes "codec_ok cd" and "app_iface a = Some i" "if_ifce i \<noteq> None"
    and "\<forall>p \<in> set ps. 20 \<le> length (pk_bytes p)"
  shows "deliver (ServerOnData cd spare c) (map (\<lambda>p. fst (proto_Marshal cd (packet_envelope p))) ps) a
    = (Ok (), a\<lparr>app_tun := app_tun a @ map pk_bytes ps\<rparr>)"
  using assms(2-)
proof (induction ps arbitrary: a)
  case (Cons p ps)
  then have "ServerOnData cd spare c (fst (proto_Marshal cd (packet_envelope p))) a
      = (Ok (), a\<lparr>app_tun := app_tun a @ [pk_bytes p]\<rparr>)"
    by (simp add: OnData_packet [OF assms(1)] on_packet_payload)
  with Cons.IH [of "a\<lparr>app_tun := app_tun a @ [pk_bytes p]\<rparr>"] Cons.prems show ?case by simp
qed simp

lemma buffers_long:
  "list_all2 (buffer_holds mtu) fs (map pk_bytes ps) \<Longrightarrow> \<forall>p \<in> set ps. length (pk_bytes p) = mtu"
  by (auto simp: list_all2_conv_all_nth in_set_conv_nth buffer_holds_def)

text \<open>C1. From the client's TUN device to the server's, over one connection: the client's worker
  takes the packets read from its device, the connection's writing goroutine sends what the worker
  queued, and the server's reading loop, on the bytes sent, with the application's handler, writes
  to the server's device one packet per packet read, in order: each is the client's buffer at that
  moment, of MTU size, which starts with the packet read. With or without encryption.\<close>

theorem tun_to_tun:
  assumes cd: "codec_ok cd" and lib: "crypto_ok lib"
    and client: "\<not> Cfg_ServerMode (app_config a)" "app_client a = Some cl" "picks_ok cl 1 s"
      "s + length fs < 2 ^ 63" "conns_open cl" "cl_sent cl = []"
    and buf: "length (pk_arr pkt) = pk_len pkt" "20 \<le> pk_len pkt"
    and fits: "\<And>p. length (pk_bytes p) = pk_len pkt \<Longrightarrow> short_data (fst (proto_Marshal cd (packet_envelope p)))"
    and ends: "cc_key cc = sc_key sc" "cc_aesgcm cc = None" "sc_aesgcm sc = None" "sc_buf_ok sc"
      "cc_ready cc" "cc_out cc = []"
    and rand: "length fs * nonce_len (cc_aesgcm (snd (cc_crypto lib cc))) \<le> length (rd_data rand)"
    and server: "app_iface b = Some i" "if_ifce i \<noteq> None"
  shows "\<exists>pkt' cl' cc' rand' out. FetchAndProcessTunPkt cd rnd (map Inr fs) pkt a
      = (Block, pkt', a\<lparr>app_client := Some cl'\<rparr>)
    \<and> map fst (cl_sent cl') = replicate (length fs) 0
    \<and> write_seq cc_write (map snd (cl_sent cl')) (snd (cc_crypto lib cc), rand) = (Ok (), (cc', rand'))
    \<and> sc_read_loop (Some (ServerOnData cd spare c)) (snd (sc_crypto lib sc))
        \<lparr>rd_data = cc_out cc', rd_end = EOF\<rparr> b
      = (Err EOF, \<lparr>rd_data = [], rd_end = EOF\<rparr>, b\<lparr>app_tun := app_tun b @ out\<rparr>)
    \<and> list_all2 (buffer_holds (pk_len pkt)) fs out"
proof -
  let ?ps = "refills fs pkt" and ?m = "\<lambda>p. fst (proto_Marshal cd (packet_envelope p))"
  obtain pkt' cl' where w: "FetchAndProcessTunPkt cd rnd (map Inr fs) pkt a = (Block, pkt', a\<lparr>app_client := Some cl'\<rparr>)"
    "cl_sent cl' = zip (map (\<lambda>j. (s + j) mod 1) [1..<Suc (length fs)]) (map ?m ?ps)"
    using client_worker [OF client(1-5) buf, of cd rnd] client(6) by auto
  have msgs: "map snd (cl_sent cl') = map ?m ?ps" and idx: "map fst (cl_sent cl') = replicate (length fs) 0"
    unfolding w(2) by (simp_all add: map_replicate_const del: upt_Suc)
  have out: "list_all2 (buffer_holds (pk_len pkt)) fs (map pk_bytes ?ps)" by (rule refills_hold [OF buf(1)])
  then have long: "\<forall>p \<in> set ?ps. length (pk_bytes p) = pk_len pkt" by (rule buffers_long)
  then have short: "list_all short_data (map ?m ?ps)" using fits by (simp add: list_all_iff)
  have handled: "deliver (ServerOnData cd spare c) (map ?m ?ps) b = (Ok (), b\<lparr>app_tun := app_tun b @ map pk_bytes ?ps\<rparr>)"
    using long buf(2) by (intro deliver_packets [OF cd server]) simp
  have "length (map ?m ?ps) * nonce_len (cc_aesgcm (snd (cc_crypto lib cc))) \<le> length (rd_data rand)"
    using rand by simp
  from client_to_server_run [OF lib ends short this handled] w(1) msgs idx out
  show ?thesis by metis
qed

definition demo_one :: client where
  "demo_one = (NewClient ''8.8.8.80:8080'' ''k'' 1 True)\<lparr>cl_conns :=
     [Some (NewClientConn ''8.8.8.80:8080'' ''k'' 0 False)]\<rparr>"

lemma demo_one_ok [simp]: "picks_ok demo_one (Suc 0) 0" "conns_open demo_one" "cl_sent demo_one = []"
  by (simp_all add: demo_one_def NewClient_def picks_ok_def conns_open_def NewClientConn_def)

theorem tun_to_tun_witness:
  "\<exists>pkt' cl' cc' rand' out. FetchAndProcessTunPkt demo_codec (\<lambda>_. id) (map Inr [replicate 30 1, replicate 20 2])
      \<lparr>pk_arr = replicate 40 0, pk_len = 40\<rparr> ((NewApp (demo_config False))\<lparr>app_client := Some demo_one\<rparr>)
      = (Block, pkt', (NewApp (demo_config False))\<lparr>app_client := Some demo_one\<rparr>\<lparr>app_client := Some cl'\<rparr>)
    \<and> map fst (cl_sent cl') = replicate (length [replicate 30 (1 :: u8), replicate 20 2]) 0
    \<and> write_seq cc_write (map snd (cl_sent cl')) (snd (cc_crypto demo_crypto (demo_cc ''k'')),
        \<lparr>rd_data = replicate 24 7, rd_end = EOF\<rparr>) = (Ok (), (cc', rand'))
    \<and> sc_read_loop (Some (ServerOnData demo_codec (\<lambda>_. 0) 1)) (snd (sc_crypto demo_crypto (demo_sc ''k'')))
        \<lparr>rd_data = cc_out cc', rd_end = EOF\<rparr> demo_app
      = (Err EOF, \<lparr>rd_data = [], rd_end = EOF\<rparr>, demo_app\<lparr>app_tun := app_tun demo_app @ out\<rparr>)
    \<and> list_all2 (buffer_holds (pk_len \<lparr>pk_arr = replicate 40 0, pk_len = 40\<rparr>))
        [replicate 30 1, replicate 20 2] out"
proof (rule tun_to_tun [where s = 0 and cl = demo_one])
  show "\<not> Cfg_ServerMode (app_config ((NewApp (demo_config False))\<lparr>app_client := Some demo_one\<rparr>))"
    by (simp add: NewApp_def demo_config_def)
  show "app_iface demo_app = Some ((Iface_New [] ''10.4.4.2/24'' 1500)\<lparr>if_ifce := Some ''tun0''\<rparr>)"
    by (simp add: demo_app_def)
  show "short_data (fst (proto_Marshal demo_codec (packet_envelope p)))"
    if "length (pk_bytes p) = pk_len \<lparr>pk_arr = replicate 40 0, pk_len = 40\<rparr>" for p
    using that by (simp add: short_data_def demo_codec_def packet_envelope_def)
qed (simp_all add: cc_crypto_def demo_crypto_cipher nonce_len_def)

section \<open>And back\<close>

text \<open>A connection of the server that is ready to send under the cipher \<open>g\<close>, with nothing queued.\<close>

definition idle_conn :: "aead option \<Rightarrow> server_conn \<Rightarrow> bool" where
  "idle_conn g sc \<longleftrightarrow> sc_chanWrite sc = make_chan 2 \<and> sc_ready sc \<and> sc_out sc = [] \<and> sc_aesgcm sc = g"

lemma server_turn:
  assumes mode: "Cfg_ServerMode (app_config a)"
    and buf: "length (pk_arr pkt) = pk_len pkt" "20 \<le> pk_len pkt"
    and dst: "GetDestinationIP (refill f pkt) = Ok d"
    and route: "map_of (app_routes a) (ip_string d) = Some keys" "live_keys a keys \<noteq> []"
    and idle: "\<And>key c. key \<in> set keys \<Longrightarrow> live_conn a key = Some c \<Longrightarrow> idle_conn g (app_heap a c)"
  shows "\<exists>key \<in> set keys. \<exists>c a'. live_conn a key = Some c
    \<and> FetchAndProcessTunPkt_turn cd rnd (Inr f) pkt a = (Ok (Some (SentTo c)), refill f pkt, a')
    \<and> app_heap a' c = (app_heap a c)\<lparr>sc_chanWrite := (make_chan 2)
        \<lparr>ch_buf := [fst (proto_Marshal cd (packet_envelope (refill f pkt)))]\<rparr>\<rparr>"
proof -
  let ?p = "refill f pkt"
  have src: "GetSourceIP ?p = Ok (take 4 (drop 12 (pk_arr ?p)))" using buf by (simp add: GetSourceIP_cases)
  from fetch_server_live [OF route, of cd rnd ?p 0] obtain key c a' where
    k: "key \<in> set keys" "live_conn a key = Some c"
      "snd (fetch_server cd rnd ?p (ip_string d) 0 a) = a'"
      "fst (fetch_server cd rnd ?p (ip_string d) 0 a)
        = (if fst (sc_SendPacket cd ?p (app_heap a c)) = Block then WaitsFor c else SentTo c)"
      "app_heap a' = (app_heap a)(c := snd (sc_SendPacket cd ?p (app_heap a c)))"
    by (elim bexE exE conjE) (rule that; assumption)
  have "sc_chanWrite (app_heap a c) = make_chan 2" using idle [OF k(1,2)] by (simp add: idle_conn_def)
  then have "sc_SendPacket cd ?p (app_heap a c) = (Ok (), (app_heap a c)\<lparr>sc_chanWrite := (make_chan 2)
        \<lparr>ch_buf := [fst (proto_Marshal cd (packet_envelope ?p))]\<rparr>\<rparr>)"
    by (simp add: sc_SendPacket_def sc_Write_def chan_send_def make_chan_def)
  with k(3-5) have "fetch_server cd rnd ?p (ip_string d) 0 a = (SentTo c, a')"
    and heap: "app_heap a' c = (app_heap a c)\<lparr>sc_chanWrite := (make_chan 2)
        \<lparr>ch_buf := [fst (proto_Marshal cd (packet_envelope ?p))]\<rparr>\<rparr>"
    by (simp_all add: prod_eq_iff)
  then have "FetchAndProcessTunPkt_turn cd rnd (Inr f) pkt a = (Ok (Some (SentTo c)), ?p, a')"
    using mode src dst unfolding FetchAndProcessTunPkt_turn_def worker_send_def
    by (cases "Iface_Read f pkt") (simp add: refill_def)
  with k(1,2) heap show ?thesis by blast
qed

lemma server_sends_one:
  assumes idle: "idle_conn g sc" and rand: "nonce_len g \<le> length (rd_data rand)"
  shows "\<exists>sc' rand'. sc_write_turn CaseWrite (sc\<lparr>sc_chanWrite := (make_chan 2)\<lparr>ch_buf := [m]\<rparr>\<rparr>, rand)
      = (Ok True, (sc', rand'))
    \<and> ch_buf (sc_chanWrite sc') = [] \<and> sc_out sc' = frame g (take (nonce_len g) (rd_data rand)) m"
proof -
  let ?sc = "sc\<lparr>sc_chanWrite := make_chan 2\<rparr>"
  have ready: "sc_ready ?sc" "sc_out ?sc = []" "sc_aesgcm ?sc = g"
    using idle by (simp_all add: idle_conn_def sc_ready_def sc_out_def)
  then obtain sc' where w: "sc_write m (?sc, rand) = (Ok (), (sc', rand\<lparr>rd_data := drop (nonce_len g) (rd_data rand)\<rparr>))"
    "sc_out sc' = frame g (take (nonce_len g) (rd_data rand)) m"
    using srv_writer.write_frame [of ?sc rand m] rand by auto
  have "sc_chanWrite sc' = make_chan 2" using sc_write_frame(1) [OF w(1)] by simp
  with w show ?thesis
    by (simp add: sc_write_turn_def chan_recv_def make_chan_def)
qed

text \<open>C4. From the server's TUN device back to the client's: a packet read from the server's device
  whose destination has a route with a live connection is queued on a live connection of that
  route, the connection's writing goroutine sends it, and the client that holds the other end,
  with the same cipher, writes it to its device: again the whole buffer, which starts with the
  packet read.\<close>

theorem tun_to_tun_back:
  assumes cd: "codec_ok cd" and lib: "crypto_ok lib"
    and mode: "Cfg_ServerMode (app_config a)"
    and buf: "length (pk_arr pkt) = pk_len pkt" "20 \<le> pk_len pkt"
    and dst: "GetDestinationIP (snd (Iface_Read f pkt)) = Ok d"
    and route: "map_of (app_routes a) (ip_string d) = Some keys" "live_keys a keys \<noteq> []"
    and idle: "\<And>key c. key \<in> set keys \<Longrightarrow> live_conn a key = Some c \<Longrightarrow>
      idle_conn (cc_aesgcm (snd (cc_crypto lib cc))) (app_heap a c)"
    and client: "cc_aesgcm cc = None" "cc_buf_ok cc" "cc_conn cc \<noteq> None" "app_iface b = Some i" "if_ifce i \<noteq> None"
    and rand: "nonce_len (cc_aesgcm (snd (cc_crypto lib cc))) \<le> length (rd_data rand)"
    and fits: "\<And>p. length (pk_bytes p) = pk_len pkt \<Longrightarrow> short_data (fst (proto_Marshal cd (packet_envelope p)))"
  shows "\<exists>key \<in> set keys. \<exists>c a' pkt' sc' rand' cc' out. live_conn a key = Some c
    \<and> FetchAndProcessTunPkt_turn cd rnd (Inr f) pkt a = (Ok (Some (SentTo c)), pkt', a')
    \<and> sc_write_turn CaseWrite (app_heap a' c, rand) = (Ok True, (sc', rand'))
    \<and> ch_buf (sc_chanWrite sc') = []
    \<and> cc_readProcess lib (Some (ClientOnData cd spare)) cc \<lparr>rd_data = sc_out sc', rd_end = EOF\<rparr> b
      = (Err EOF, cc', \<lparr>rd_data = [], rd_end = EOF\<rparr>, b\<lparr>app_tun := app_tun b @ [out]\<rparr>)
    \<and> buffer_holds (pk_len pkt) f out"
proof -
  obtain g where g: "cc_crypto lib cc = (None, cc\<lparr>cc_aesgcm := g\<rparr>)" "\<And>x. g = Some x \<Longrightarrow> aead_ok x"
    using crypto_agree [OF lib, of cc "demo_sc (cc_key cc)"] client(1) by auto
  let ?p = "refill f pkt" and ?n = "take (nonce_len g) (rd_data rand)"
  let ?m = "fst (proto_Marshal cd (packet_envelope ?p))"
  have idle': "key \<in> set keys \<Longrightarrow> live_conn a key = Some c \<Longrightarrow> idle_conn g (app_heap a c)" for key c
    using idle g(1) by simp
  obtain key c a' where k: "key \<in> set keys" "live_conn a key = Some c"
    "FetchAndProcessTunPkt_turn cd rnd (Inr f) pkt a = (Ok (Some (SentTo c)), ?p, a')"
    "app_heap a' c = (app_heap a c)\<lparr>sc_chanWrite := (make_chan 2)\<lparr>ch_buf := [?m]\<rparr>\<rparr>"
    using server_turn [where cd = cd and rnd = rnd and g = g, OF mode buf dst [folded refill_def] route] idle' by blast
  have r: "nonce_len g \<le> length (rd_data rand)" using rand g(1) by simp
  obtain sc' rand' where w: "sc_write_turn CaseWrite (app_heap a' c, rand) = (Ok True, (sc', rand'))"
    "ch_buf (sc_chanWrite sc') = []" "sc_out sc' = frame g ?n ?m"
    using server_sends_one [OF idle' [OF k(1,2)] r, of ?m] unfolding k(4) by blast
  have held: "buffer_holds (pk_len pkt) f (pk_bytes ?p)" by (rule refill_holds [OF buf(1)])
  then have "short_data ?m" using fits by (simp add: buffer_holds_def)
  then have fit: "\<forall>(n, d) \<in> set [(?n, ?m)]. frame_fits g n d"
    using g(2) r by (auto intro!: short_data_fits)
  have handled: "deliver (ClientOnData cd spare) (map snd [(?n, ?m)]) b = (Ok (), b\<lparr>app_tun := app_tun b @ [pk_bytes ?p]\<rparr>)"
    using held buf(2) by (simp add: OnData_packet [OF cd] on_packet_payload [OF client(4,5)] buffer_holds_def)
  from cc_readProcess_frames [OF g(1) client(2,3) fit handled] obtain cc' where
    "cc_readProcess lib (Some (ClientOnData cd spare)) cc \<lparr>rd_data = sc_out sc', rd_end = EOF\<rparr> b
      = (Err EOF, cc', \<lparr>rd_data = [], rd_end = EOF\<rparr>, b\<lparr>app_tun := app_tun b @ [pk_bytes ?p]\<rparr>)"
    unfolding w(3) by auto
  with k(1-3) w(1,2) held show ?thesis by blast
qed

definition demo_keyed :: app where
  "demo_keyed = demo_app\<lparr>app_heap := (\<lambda>c. (snd (sc_crypto demo_crypto (demo_sc ''k'')))\<lparr>sc_isClosed := (c = 0)\<rparr>)\<rparr>"

definition demo_buffer :: packet_ip where
  "demo_buffer = \<lparr>pk_arr = replicate 24 0, pk_len = 24\<rparr>"

lemma demo_sc_crypto:
  "sc_crypto demo_crypto (demo_sc ''k'') = (None, (demo_sc ''k'')\<lparr>sc_aesgcm := cc_aesgcm (snd (cc_crypto demo_crypto (demo_cc ''k'')))\<rparr>)"
  by (simp add: sc_crypto_def cc_crypto_def demo_crypto_cipher)

lemma demo_keyed_live:
  "live_conn demo_keyed ''10.4.4.3:1'' = None" "live_conn demo_keyed ''10.4.4.3:2'' = Some 1"
  by (simp_all add: demo_keyed_def demo_app_def live_conn_def GetConnsByAddr_def)

theorem tun_to_tun_back_witness:
  "\<exists>key \<in> set [''10.4.4.3:1'', ''10.4.4.3:2'']. \<exists>c a' pkt' sc' rand' cc' out. live_conn demo_keyed key = Some c
    \<and> FetchAndProcessTunPkt_turn demo_codec id (Inr (replicate 16 1 @ [10, 4, 4, 3])) demo_buffer demo_keyed
      = (Ok (Some (SentTo c)), pkt', a')
    \<and> sc_write_turn CaseWrite (app_heap a' c, \<lparr>rd_data = replicate 12 9, rd_end = EOF\<rparr>) = (Ok True, (sc', rand'))
    \<and> ch_buf (sc_chanWrite sc') = []
    \<and> cc_readProcess demo_crypto (Some (ClientOnData demo_codec (\<lambda>_. 0))) (demo_cc ''k'')
        \<lparr>rd_data = sc_out sc', rd_end = EOF\<rparr> demo_app
      = (Err EOF, cc', \<lparr>rd_data = [], rd_end = EOF\<rparr>, demo_app\<lparr>app_tun := app_tun demo_app @ [out]\<rparr>)
    \<and> buffer_holds (pk_len demo_buffer) (replicate 16 1 @ [10, 4, 4, 3]) out"
proof (rule tun_to_tun_back [where i = "(Iface_New [] ''10.4.4.2/24'' 1500)\<lparr>if_ifce := Some ''tun0''\<rparr>"])
  show "Cfg_ServerMode (app_config demo_keyed)"
    by (simp add: demo_keyed_def demo_app_def NewApp_def demo_config_def)
  show "GetDestinationIP (snd (Iface_Read (replicate 16 1 @ [10, 4, 4, 3]) demo_buffer)) = Ok [10, 4, 4, 3]"
    by (simp add: GetDestinationIP_cases Iface_Read_def demo_buffer_def)
  show "map_of (app_routes demo_keyed) (ip_string [10, 4, 4, 3]) = Some [''10.4.4.3:1'', ''10.4.4.3:2'']"
    by (simp add: demo_keyed_def demo_dst_text) (simp add: demo_ping_def)
  show "live_keys demo_keyed [''10.4.4.3:1'', ''10.4.4.3:2''] \<noteq> []"
    by (simp add: live_keys_def demo_keyed_live)
  show "idle_conn (cc_aesgcm (snd (cc_crypto demo_crypto (demo_cc ''k'')))) (app_heap demo_keyed c)" for c
    by (simp add: idle_conn_def demo_keyed_def demo_sc_crypto sc_ready_def sc_out_def)
      (simp add: demo_sc_def NewServerConn_def fresh_writer_def reliable_def)
  show "app_iface demo_app = Some ((Iface_New [] ''10.4.4.2/24'' 1500)\<lparr>if_ifce := Some ''tun0''\<rparr>)"
    by (simp add: demo_app_def)
  show "short_data (fst (proto_Marshal demo_codec (packet_envelope p)))"
    if "length (pk_bytes p) = pk_len demo_buffer" for p
    using that by (simp add: short_data_def demo_codec_def packet_envelope_def demo_buffer_def)
qed (simp_all add: demo_buffer_def cc_crypto_def demo_crypto_cipher nonce_len_def)

end
